(* ===== verification/Prelude.thy ===== *)
theory Prelude
  imports Main "HOL-Library.Word" "HOL-Library.AList" "HOL-Library.Multiset"
    "HOL-Library.List_Lexorder" "HOL-Library.Char_ord"
begin

text \<open>
  What every component shares: the machine integers of the program, the decimal rendering that
  \<open>format!\<close> gives a \<open>u64\<close> or a \<open>u32\<close>, the byte view of a string, the collections of lemmas
  the proofs name, and a few facts on lists, folds and counters.

  A Rust \<open>String\<close> is UTF-8 bytes, so it is a HOL \<open>string\<close> (a list of 8-bit characters), and its
  \<open>Ord\<close> is the lexicographic order of the bytes (theories \<open>List_Lexorder\<close> and \<open>Char_ord\<close>).
\<close>

named_theorems hub_defs \<open>the handlers of the hub, unfolded\<close>
named_theorems frame_simps \<open>fields an operation leaves alone\<close>
named_theorems role_simps \<open>the role of a home connection\<close>

type_synonym u8 = "8 word"
type_synonym u16 = "16 word"
type_synonym u32 = "32 word"
type_synonym u64 = "64 word"
type_synonym i64 = "64 word"
type_synonym bytes = "8 word list"

text \<open>Instants and durations are counted in nanoseconds, the resolution of \<open>Duration\<close>.\<close>

type_synonym instant = nat
type_synonym duration = nat

definition from_secs :: "nat \<Rightarrow> duration" where
  "from_secs s = s * 1000000000"

definition from_millis :: "nat \<Rightarrow> duration" where
  "from_millis m = m * 1000000"

text \<open>The bytes of a string (\<open>as_bytes\<close>).\<close>

definition byte_of :: "char \<Rightarrow> u8" where
  "byte_of c = word_of_nat (of_char c)"

definition as_bytes :: "string \<Rightarrow> bytes" where
  "as_bytes s = map byte_of s"

lemma length_as_bytes [simp]: "length (as_bytes s) = length s"
  by (simp add: as_bytes_def)

lemma unat_byte_of [simp]: "unat (byte_of c) = of_char c"
  by (simp add: byte_of_def unat_of_nat)

lemma byte_of_eq_iff [simp]: "byte_of c = byte_of d \<longleftrightarrow> c = d"
  by (metis of_char_eq_iff unat_byte_of)

lemma as_bytes_eq_iff [simp]: "as_bytes s = as_bytes t \<longleftrightarrow> s = t"
  by (simp add: as_bytes_def inj_map_eq_map inj_def)

section \<open>Decimal rendering\<close>

text \<open>\<open>format!("{}", n)\<close> for an unsigned integer: no sign, no leading zero.\<close>

definition digit :: "nat \<Rightarrow> char" where
  "digit d = char_of (48 + d)"

fun show_nat :: "nat \<Rightarrow> string" where
  "show_nat n = (if n < 10 then [digit n] else show_nat (n div 10) @ [digit (n mod 10)])"

declare show_nat.simps [simp del]

definition read_nat :: "string \<Rightarrow> nat" where
  "read_nat s = foldl (\<lambda>n c. 10 * n + (of_char c - 48)) 0 s"

lemma of_char_digit: "d < 10 \<Longrightarrow> of_char (digit d) = (48 + d :: nat)"
  by (simp add: digit_def)

lemma read_show_nat: "read_nat (show_nat n) = n"
proof (induction n rule: show_nat.induct)
  case (1 n)
  show ?case
  proof (cases "n < 10")
    case True
    then show ?thesis
      by (simp add: show_nat.simps [of n] read_nat_def of_char_digit)
  next
    case False
    with 1 have "read_nat (show_nat (n div 10)) = n div 10" by simp
    with False show ?thesis
      by (simp add: show_nat.simps [of n] read_nat_def of_char_digit)
  qed
qed

lemma show_nat_eq_iff [simp]: "show_nat m = show_nat n \<longleftrightarrow> m = n"
  by (metis read_show_nat)

section \<open>Counters\<close>

text \<open>
  The hub numbers phones, connections and requests with \<open>u64\<close> counters that it bumps with
  \<open>+= 1\<close>: modular in a release build (the one the Dockerfile makes), a panic at the last value
  in a build with overflow checks. A counter has room for \<open>n\<close> more numbers when the next \<open>n\<close>
  bumps do neither.
\<close>

definition has_room :: "u64 \<Rightarrow> nat \<Rightarrow> bool" where
  "has_room c n \<longleftrightarrow> unat c + n < 2 ^ 64"

lemma has_room_mono: "has_room c n \<Longrightarrow> m \<le> n \<Longrightarrow> has_room c m"
  by (simp add: has_room_def)

lemma unat_add_room: "has_room c n \<Longrightarrow> m \<le> n \<Longrightarrow> unat (c + word_of_nat m) = unat c + m"
  by (simp add: has_room_def unat_word_ariths unat_of_nat)

lemma unat_bump: "has_room c 1 \<Longrightarrow> unat (c + 1) = unat c + 1"
  using unat_add_room [of c 1 1] by simp

lemma less_bump: "has_room c 1 \<Longrightarrow> c < c + 1"
  by (simp add: word_less_nat_alt unat_bump)

lemma has_room_bump: "has_room c (Suc n) \<Longrightarrow> has_room (c + 1) n"
  using unat_bump [of c] has_room_mono [of c "Suc n" 1] by (simp add: has_room_def)

section \<open>Lists\<close>

lemma map_of_filter_key:
  "map_of (filter (\<lambda>(k, v). P k) xs) k = (if P k then map_of xs k else None)"
  by (induction xs) auto

lemma fold_invariant:
  assumes "P s" and "\<And>x s. x \<in> set xs \<Longrightarrow> P s \<Longrightarrow> P (f x s)"
  shows "P (fold f xs s)"
  using assms by (induction xs arbitrary: s) auto

lemma fold_field:
  assumes "\<And>x s. sel (f x s) = sel s"
  shows "sel (fold f xs s) = sel s"
  using assms by (induction xs arbitrary: s) auto

end
