(* ===== verification/Collections.thy ===== *)
theory Collections
  imports Prelude
begin

text \<open>
  The four collections of the standard library the program keeps its state in.

  \<^item> \<open>HashMap\<close> is an association list (\<open>hmap\<close>) with at most one entry per key; the list order
    stands for the (unspecified) iteration order.
  \<^item> \<open>HashSet\<close> is a list without duplicates (\<open>hset\<close>).
  \<^item> \<open>BTreeMap\<close> is an association list sorted by key (\<open>btmap\<close>), \<open>BTreeSet\<close> a sorted list.

  The laws the program relies on are stated as locales: \<open>map_adt\<close> for what the two maps share,
  \<open>hash_map\<close> for \<open>retain\<close>, \<open>ordered_map\<close> for the key order, \<open>set_adt\<close> for sets. Each is
  interpreted on the lists that the model computes with, and the lemmas proved inside the
  locales are used by the components through these interpretations.
\<close>

section \<open>The interfaces\<close>

locale map_adt =
  fixes empty :: "'m"
    and get :: "'m \<Rightarrow> 'k \<Rightarrow> 'v option"
    and insert :: "'k \<Rightarrow> 'v \<Rightarrow> 'm \<Rightarrow> 'm"
    and remove :: "'k \<Rightarrow> 'm \<Rightarrow> 'm"
    and keys :: "'m \<Rightarrow> 'k list"
    and wf :: "'m \<Rightarrow> bool"
  assumes get_empty: "get empty k = None"
    and get_insert: "get (insert k v m) k' = (if k' = k then Some v else get m k')"
    and get_remove: "get (remove k m) k' = (if k' = k then None else get m k')"
    and keys_iff: "k \<in> set (keys m) \<longleftrightarrow> get m k \<noteq> None"
    and wf_empty: "wf empty"
    and wf_insert: "wf m \<Longrightarrow> wf (insert k v m)"
    and wf_remove: "wf m \<Longrightarrow> wf (remove k m)"
    and distinct_keys: "wf m \<Longrightarrow> distinct (keys m)"
begin

lemma get_same: "get (insert k v m) k = Some v"
  by (simp add: get_insert)

lemma get_other: "k' \<noteq> k \<Longrightarrow> get (insert k v m) k' = get m k'"
  by (simp add: get_insert)

lemma insert_present: "get (insert k v m) k' = None \<longleftrightarrow> k' \<noteq> k \<and> get m k' = None"
  by (simp add: get_insert)

lemma remove_Some: "get (remove k m) k' = Some v \<longleftrightarrow> k' \<noteq> k \<and> get m k' = Some v"
  by (simp add: get_remove)

text \<open>A loop that inserts one entry per element, as \<open>for (k, v) in ... { m.insert(k, v); }\<close>.\<close>

lemma get_fold_insert_other:
  "k \<notin> set (map kf xs) \<Longrightarrow> get (fold (\<lambda>x. insert (kf x) (vf x)) xs m) k = get m k"
  by (induction xs arbitrary: m) (auto simp: get_insert)

lemma get_fold_insert:
  "x \<in> set xs \<Longrightarrow> inj_on kf (set xs) \<Longrightarrow>
   get (fold (\<lambda>x. insert (kf x) (vf x)) xs m) (kf x) = Some (vf x)"
proof (induction xs arbitrary: m)
  case Nil
  then show ?case by simp
next
  case (Cons y ys)
  show ?case
  proof (cases "x \<in> set ys")
    case True
    with Cons show ?thesis by simp
  next
    case False
    with Cons.prems have "x = y" and "kf y \<notin> kf ` set ys"
      by (auto simp: inj_on_def)
    then show ?thesis by (simp add: get_fold_insert_other get_insert)
  qed
qed

lemma wf_fold_insert: "wf m \<Longrightarrow> wf (fold (\<lambda>x. insert (kf x) (vf x)) xs m)"
  by (rule fold_invariant [where P = wf]) (auto intro: wf_insert)

end

locale hash_map = map_adt empty get insert remove keys wf
  for empty :: "'m"
    and get :: "'m \<Rightarrow> 'k \<Rightarrow> 'v option"
    and insert :: "'k \<Rightarrow> 'v \<Rightarrow> 'm \<Rightarrow> 'm"
    and remove :: "'k \<Rightarrow> 'm \<Rightarrow> 'm"
    and keys :: "'m \<Rightarrow> 'k list"
    and wf :: "'m \<Rightarrow> bool" +
  fixes retain :: "('k \<Rightarrow> 'v \<Rightarrow> 'v option) \<Rightarrow> 'm \<Rightarrow> 'm"
  assumes get_retain: "wf m \<Longrightarrow> get (retain f m) k = Option.bind (get m k) (f k)"
    and wf_retain: "wf m \<Longrightarrow> wf (retain f m)"
begin

lemma retain_Some: "wf m \<Longrightarrow> get (retain f m) k = Some v \<longleftrightarrow> (\<exists>u. get m k = Some u \<and> f k u = Some v)"
  by (simp add: get_retain bind_eq_Some_conv)

lemma retain_None: "wf m \<Longrightarrow> get m k = None \<Longrightarrow> get (retain f m) k = None"
  by (simp add: get_retain)

lemma retain_filter:
  "wf m \<Longrightarrow> get (retain (\<lambda>k v. if P k then Some v else None) m) k = (if P k then get m k else None)"
  by (cases "get m k") (simp_all add: get_retain)

end

locale ordered_map = map_adt empty get insert remove keys wf
  for empty :: "'m"
    and get :: "'m \<Rightarrow> 'k::linorder \<Rightarrow> 'v option"
    and insert :: "'k \<Rightarrow> 'v \<Rightarrow> 'm \<Rightarrow> 'm"
    and remove :: "'k \<Rightarrow> 'm \<Rightarrow> 'm"
    and keys :: "'m \<Rightarrow> 'k list"
    and wf :: "'m \<Rightarrow> bool" +
  assumes sorted_keys: "wf m \<Longrightarrow> sorted (keys m)"
begin

text \<open>Two maps with the same contents list the same keys in the same order.\<close>

lemma keys_unique:
  assumes "wf m" and "wf n" and "\<And>k. get m k = get n k"
  shows "keys m = keys n"
proof -
  from assms(3) have "set (keys m) = set (keys n)" by (auto simp: keys_iff)
  with assms(1,2) show ?thesis
    by (auto intro: sorted_distinct_set_unique dest: sorted_keys distinct_keys)
qed

end

locale set_adt =
  fixes member :: "'s \<Rightarrow> 'a \<Rightarrow> bool"
    and add :: "'a \<Rightarrow> 's \<Rightarrow> 's"
    and del :: "'a \<Rightarrow> 's \<Rightarrow> 's"
    and elems :: "'s \<Rightarrow> 'a list"
    and inv :: "'s \<Rightarrow> bool"
  assumes member_iff: "member s x \<longleftrightarrow> x \<in> set (elems s)"
    and elems_add: "set (elems (add x s)) = {x} \<union> set (elems s)"
    and elems_del: "set (elems (del x s)) = set (elems s) - {x}"
    and inv_add: "inv s \<Longrightarrow> inv (add x s)"
    and inv_del: "inv s \<Longrightarrow> inv (del x s)"
    and inv_distinct: "inv s \<Longrightarrow> distinct (elems s)"
begin

lemma member_add: "member (add x s) y \<longleftrightarrow> y = x \<or> member s y"
  by (simp add: member_iff elems_add)

lemma member_del: "member (del x s) y \<longleftrightarrow> y \<noteq> x \<and> member s y"
  by (auto simp: member_iff elems_del)

lemma del_empty_iff: "elems (del x s) = [] \<longleftrightarrow> (\<forall>y. member s y \<longrightarrow> y = x)"
  using elems_del [of x s] by (auto simp: member_iff simp flip: set_empty)

lemma length_del:
  assumes "inv s" and "member s x"
  shows "length (elems (del x s)) = length (elems s) - 1"
proof -
  from assms(1) have "length (elems (del x s)) = card (set (elems (del x s)))"
    and "length (elems s) = card (set (elems s))"
    by (simp_all add: distinct_card inv_distinct inv_del)
  with assms(2) show ?thesis by (simp add: elems_del member_iff)
qed

end

section \<open>\<open>HashMap\<close>\<close>

type_synonym ('k, 'v) hmap = "('k \<times> 'v) list"

definition hm_get :: "('k, 'v) hmap \<Rightarrow> 'k \<Rightarrow> 'v option" where
  "hm_get m k = map_of m k"

definition hm_insert :: "'k \<Rightarrow> 'v \<Rightarrow> ('k, 'v) hmap \<Rightarrow> ('k, 'v) hmap" where
  "hm_insert k v m = AList.update k v m"

definition hm_remove :: "'k \<Rightarrow> ('k, 'v) hmap \<Rightarrow> ('k, 'v) hmap" where
  "hm_remove k m = AList.delete k m"

definition hm_keys :: "('k, 'v) hmap \<Rightarrow> 'k list" where
  "hm_keys m = map fst m"

definition hm_wf :: "('k, 'v) hmap \<Rightarrow> bool" where
  "hm_wf m \<longleftrightarrow> distinct (map fst m)"

text \<open>
  \<open>retain\<close> with a closure that may also change the value it keeps: \<open>None\<close> drops the entry,
  \<open>Some v\<close> keeps it with the value \<open>v\<close>.
\<close>

fun hm_retain :: "('k \<Rightarrow> 'v \<Rightarrow> 'v option) \<Rightarrow> ('k, 'v) hmap \<Rightarrow> ('k, 'v) hmap" where
  "hm_retain f [] = []"
| "hm_retain f ((k, v) # m) =
     (case f k v of None \<Rightarrow> hm_retain f m | Some v' \<Rightarrow> (k, v') # hm_retain f m)"

lemma hm_retain_keys: "set (map fst (hm_retain f m)) \<subseteq> set (map fst m)"
  by (induction f m rule: hm_retain.induct) (auto split: option.splits)

lemma hm_retain_distinct: "distinct (map fst m) \<Longrightarrow> distinct (map fst (hm_retain f m))"
proof (induction f m rule: hm_retain.induct)
  case (2 f k v m)
  then show ?case using hm_retain_keys [of f m] by (auto split: option.splits)
qed simp

lemma map_of_hm_retain:
  "distinct (map fst m) \<Longrightarrow> map_of (hm_retain f m) k = Option.bind (map_of m k) (f k)"
proof (induction f m rule: hm_retain.induct)
  case (2 f k' v m)
  then have "map_of (hm_retain f m) k' = None"
    using hm_retain_keys [of f m] by (auto simp: map_of_eq_None_iff)
  with 2 show ?case by (auto split: option.splits)
qed simp

interpretation hm: hash_map "[]" hm_get hm_insert hm_remove hm_keys hm_wf hm_retain
proof unfold_locales
  fix f and m :: "('a, 'b) hmap" and k
  show "hm_wf m \<Longrightarrow> hm_get (hm_retain f m) k = Option.bind (hm_get m k) (f k)"
    by (simp add: hm_get_def hm_wf_def map_of_hm_retain)
qed (auto simp: hm_get_def hm_insert_def hm_remove_def hm_keys_def hm_wf_def update_conv'
    delete_conv' map_of_eq_None_iff distinct_update distinct_delete hm_retain_distinct)

lemmas hm_get_simps [simp] = hm.get_empty hm.get_insert hm.get_remove
lemmas hm_wf_intros [simp, intro] = hm.wf_empty hm.wf_insert hm.wf_remove hm.wf_retain

section \<open>\<open>HashSet\<close>\<close>

type_synonym 'a hset = "'a list"

definition hs_member :: "'a hset \<Rightarrow> 'a \<Rightarrow> bool" where
  "hs_member s x \<longleftrightarrow> x \<in> set s"

definition hs_insert :: "'a \<Rightarrow> 'a hset \<Rightarrow> 'a hset" where
  "hs_insert x s = (if hs_member s x then s else s @ [x])"

definition hs_remove :: "'a \<Rightarrow> 'a hset \<Rightarrow> 'a hset" where
  "hs_remove x s = filter (\<lambda>y. y \<noteq> x) s"

interpretation hs: set_adt hs_member hs_insert hs_remove "\<lambda>s. s" distinct
  by unfold_locales (auto simp: hs_member_def hs_insert_def hs_remove_def)

lemmas hs_simps [simp] = hs.elems_add hs.elems_del
lemmas hs_distinct_intros [simp, intro] = hs.inv_add hs.inv_del

lemma hs_insert_not_Nil [simp]: "hs_insert x s \<noteq> []"
  by (auto simp: hs_insert_def hs_member_def)

section \<open>\<open>BTreeMap\<close> and \<open>BTreeSet\<close>\<close>

type_synonym ('k, 'v) btmap = "('k \<times> 'v) list"

definition bt_get :: "('k, 'v) btmap \<Rightarrow> 'k \<Rightarrow> 'v option" where
  "bt_get m k = map_of m k"

fun bt_insert :: "'k::linorder \<Rightarrow> 'v \<Rightarrow> ('k, 'v) btmap \<Rightarrow> ('k, 'v) btmap" where
  "bt_insert k v [] = [(k, v)]"
| "bt_insert k v ((k', v') # m) =
     (if k < k' then (k, v) # (k', v') # m
      else if k = k' then (k, v) # m
      else (k', v') # bt_insert k v m)"

definition bt_remove :: "'k \<Rightarrow> ('k, 'v) btmap \<Rightarrow> ('k, 'v) btmap" where
  "bt_remove k m = filter (\<lambda>(k', v). k' \<noteq> k) m"

definition bt_keys :: "('k, 'v) btmap \<Rightarrow> 'k list" where
  "bt_keys m = map fst m"

definition bt_wf :: "('k::linorder, 'v) btmap \<Rightarrow> bool" where
  "bt_wf m \<longleftrightarrow> sorted_wrt (<) (map fst m)"

text \<open>\<open>collect\<close> into a \<open>BTreeMap\<close> inserts the pairs in order; a \<open>BTreeSet\<close> keeps the elements sorted.\<close>

definition bt_collect :: "('k::linorder \<times> 'v) list \<Rightarrow> ('k, 'v) btmap" where
  "bt_collect xs = fold (\<lambda>x. bt_insert (fst x) (snd x)) xs []"

definition bts_collect :: "'a::linorder list \<Rightarrow> 'a list" where
  "bts_collect xs = sort (remdups xs)"

lemma keys_bt_insert: "set (map fst (bt_insert k v m)) = {k} \<union> set (map fst m)"
  by (induction k v m rule: bt_insert.induct) auto

lemma bt_wf_insert: "bt_wf m \<Longrightarrow> bt_wf (bt_insert k v m)"
proof (induction k v m rule: bt_insert.induct)
  case (2 k v k' v' m)
  then show ?case using keys_bt_insert [of k v m]
    by (auto simp: bt_wf_def)
qed (simp add: bt_wf_def)

lemma map_of_bt_insert: "map_of (bt_insert k v m) k' = (if k' = k then Some v else map_of m k')"
  by (induction k v m rule: bt_insert.induct) auto

interpretation bt: ordered_map "[]" bt_get bt_insert bt_remove bt_keys bt_wf
proof unfold_locales
  fix m :: "('a, 'b) btmap" and k v k'
  show "bt_get (bt_insert k v m) k' = (if k' = k then Some v else bt_get m k')"
    by (simp add: bt_get_def map_of_bt_insert)
  show "bt_get (bt_remove k m) k' = (if k' = k then None else bt_get m k')"
    by (induction m) (auto simp: bt_get_def bt_remove_def)
  show "k \<in> set (bt_keys m) \<longleftrightarrow> bt_get m k \<noteq> None"
    by (simp add: bt_keys_def bt_get_def map_of_eq_None_iff)
  show "bt_wf m \<Longrightarrow> bt_wf (bt_insert k v m)" by (rule bt_wf_insert)
  show "bt_wf m \<Longrightarrow> bt_wf (bt_remove k m)"
    by (simp add: bt_wf_def bt_remove_def sorted_wrt_map sorted_wrt_filter)
  show "bt_wf m \<Longrightarrow> distinct (bt_keys m)" and "bt_wf m \<Longrightarrow> sorted (bt_keys m)"
    by (simp_all add: bt_wf_def bt_keys_def strict_sorted_iff)
qed (simp_all add: bt_get_def bt_wf_def)

lemmas bt_get_simps [simp] = bt.get_empty bt.get_insert bt.get_remove
lemmas bt_wf_intros [simp, intro] = bt.wf_empty bt.wf_insert bt.wf_remove

lemma bt_wf_collect: "bt_wf (bt_collect xs)"
  unfolding bt_collect_def by (rule bt.wf_fold_insert) simp

lemma bt_get_collect:
  "x \<in> set xs \<Longrightarrow> inj_on fst (set xs) \<Longrightarrow> bt_get (bt_collect xs) (fst x) = Some (snd x)"
  unfolding bt_collect_def by (rule bt.get_fold_insert)

lemma bt_get_collect_other: "k \<notin> fst ` set xs \<Longrightarrow> bt_get (bt_collect xs) k = None"
  unfolding bt_collect_def by (subst bt.get_fold_insert_other) auto

text \<open>Collecting pairs whose keys already increase changes nothing.\<close>

lemma bt_insert_last: "\<forall>x \<in> set m. fst x < k \<Longrightarrow> bt_insert k v m = m @ [(k, v)]"
  by (induction k v m rule: bt_insert.induct) auto

lemma bt_collect_sorted: "sorted_wrt (<) (map fst xs) \<Longrightarrow> bt_collect xs = xs"
proof (induction xs rule: rev_induct)
  case (snoc x xs)
  then have "bt_collect xs = xs" and "\<forall>y \<in> set xs. fst y < fst x"
    by (auto simp: sorted_wrt_append)
  then show ?case by (simp add: bt_collect_def bt_insert_last)
qed (simp add: bt_collect_def)

lemma set_bts_collect [simp]: "set (bts_collect xs) = set xs"
  and distinct_bts_collect [simp]: "distinct (bts_collect xs)"
  and sorted_bts_collect [simp]: "sorted (bts_collect xs)"
  by (simp_all add: bts_collect_def)

lemma bts_collect_Nil_iff [simp]: "bts_collect xs = [] \<longleftrightarrow> xs = []"
  by (metis set_bts_collect set_empty)

end
