(* ===== verification/Json.thy ===== *)
theory Json
  imports Collections
begin

text \<open>
  JSON values as the program handles them. \<open>serde_json::Value\<close> is a third-party enum; its
  constructors are data the source matches on and builds, so it is the datatype \<open>json\<close> here, an
  object being a \<open>BTreeMap\<close> from field names (the crate is built without \<open>preserve_order\<close>, see
  \<open>Cargo.lock\<close>). The parser and the printer of that crate are parameters of the model: the record
  \<open>serde\<close> below, an argument of every definition that reads or writes JSON text.
\<close>

datatype number =
    PosInt u64
  | NegInt i64
  | Float u64

datatype json =
    Null
  | Bool bool
  | Number number
  | String string
  | Array "json list"
  | Object "(string, json) btmap"

text \<open>\<open>Value::from\<close> on the two integer types the program converts.\<close>

definition json_of_u64 :: "u64 \<Rightarrow> json" where
  "json_of_u64 n = Number (PosInt n)"

definition json_of_i64 :: "i64 \<Rightarrow> json" where
  "json_of_i64 n = Number (if sint n < 0 then NegInt n else PosInt n)"

text \<open>\<open>Value::get\<close> with a string index: the field of an object, \<open>None\<close> on anything else.\<close>

fun value_get :: "json \<Rightarrow> string \<Rightarrow> json option" where
  "value_get (Object m) k = bt_get m k"
| "value_get _ k = None"

fun as_str :: "json \<Rightarrow> string option" where
  "as_str (String s) = Some s"
| "as_str _ = None"

fun as_u64 :: "json \<Rightarrow> u64 option" where
  "as_u64 (Number (PosInt n)) = Some n"
| "as_u64 _ = None"

fun is_object :: "json \<Rightarrow> bool" where
  "is_object (Object m) = True"
| "is_object _ = False"

text \<open>
  \<open>v[k] = x\<close>: inserts into an object, turns \<open>Null\<close> into an object, and panics on anything else
  (here \<open>None\<close>).
\<close>

fun index_set :: "json \<Rightarrow> string \<Rightarrow> json \<Rightarrow> json option" where
  "index_set (Object m) k x = Some (Object (bt_insert k x m))"
| "index_set Null k x = Some (Object [(k, x)])"
| "index_set _ k x = None"

text \<open>The \<open>json!\<close> macro on an object literal.\<close>

definition json_obj :: "(string \<times> json) list \<Rightarrow> json" where
  "json_obj kvs = Object (bt_collect kvs)"

text \<open>
  The third-party parts: \<open>Value::deserialize\<close> reads one value off the front of the text and
  leaves the rest to the deserializer, \<open>Deserializer::end\<close> checks that nothing but white space
  is left, \<open>Value::to_string\<close> prints.
\<close>

record serde =
  de_value :: "string \<Rightarrow> (json \<times> string) option"
  de_end :: "string \<Rightarrow> bool"
  to_text :: "json \<Rightarrow> string"

lemma value_get_index_set:
  "index_set v k x = Some v' \<Longrightarrow> value_get v' k' = (if k' = k then Some x else value_get v k')"
  by (cases v) (auto simp: bt_get_def map_of_bt_insert split: if_splits)

lemma index_set_object: "is_object v \<Longrightarrow> \<exists>v'. index_set v k x = Some v' \<and> is_object v'"
  by (cases v) auto

lemma index_set_None: "index_set v k x = None \<Longrightarrow> \<not> is_object v"
  by (cases v) auto

lemma value_get_Some_object: "value_get v k = Some x \<Longrightarrow> is_object v"
  by (cases v) auto

lemma value_get_json_obj:
  "distinct (map fst kvs) \<Longrightarrow> value_get (json_obj kvs) k = map_of kvs k"
proof (cases "k \<in> fst ` set kvs")
  case True
  assume d: "distinct (map fst kvs)"
  from True obtain v where v: "(k, v) \<in> set kvs" by auto
  from d have "inj_on fst (set kvs)" by (simp add: distinct_map)
  from bt_get_collect [OF v this] d v show ?thesis
    by (simp add: json_obj_def)
next
  case False
  then show ?thesis
    by (metis bt_get_collect_other json_obj_def map_of_eq_None_iff value_get.simps(1))
qed

lemma as_u64_json_of_u64 [simp]: "as_u64 (json_of_u64 n) = Some n"
  by (simp add: json_of_u64_def)

lemma as_u64_eq_Some: "as_u64 v = Some n \<longleftrightarrow> v = json_of_u64 n"
  by (cases v rule: as_u64.cases) (auto simp: json_of_u64_def)

lemma as_str_eq_Some: "as_str v = Some s \<longleftrightarrow> v = String s"
  by (cases v) auto

lemma json_of_u64_eq_iff [simp]: "json_of_u64 m = json_of_u64 n \<longleftrightarrow> m = n"
  by (simp add: json_of_u64_def)

lemma json_obj_object [simp]: "is_object (json_obj kvs)"
  by (simp add: json_obj_def)

end
