(* ===== verification/Wire.thy ===== *)
theory Wire
  imports Json
begin

unbundle bit_operations_syntax

text \<open>
  \<open>crates/topside/src/wire.rs\<close>: the messages of the leader protocol, the length-prefixed frames
  that carry them, and the JSON-RPC objects topside builds and inspects.
\<close>

section \<open>Messages\<close>

definition LEADER_PROTOCOL_VERSION :: u32 where
  "LEADER_PROTOCOL_VERSION = 1"

definition MAX_FRAME :: nat where
  "MAX_FRAME = 64 * 1024 * 1024"

record client_capabilities =
  terminal :: bool
  fs_read :: bool
  fs_write :: bool

datatype leader_client =
    Register (client_type: string) (mode: string) (capabilities: client_capabilities)
  | Acp string
  | Ping

definition register :: leader_client where
  "register = Register ''aqualung-topside'' ''stdio''
     \<lparr>terminal = False, fs_read = False, fs_write = False\<rparr>"

definition acp :: "string \<Rightarrow> leader_client" where
  "acp payload = leader_client.Acp payload"

datatype leader_server =
    Registered bool u32
  | LeaderReady
  | Acp string
  | Pong
  | Error string
  | Unknown

text \<open>
  The bytes of a message are written and read by code the \<open>Serialize\<close> and \<open>Deserialize\<close> derives
  generate, so the two conversions are parameters too. Both can fail.
\<close>

record codec = serde +
  to_vec :: "leader_client \<Rightarrow> bytes option"
  from_slice :: "bytes \<Rightarrow> leader_server option"

section \<open>Frames\<close>

datatype io_error = UnexpectedEof | BrokenPipe | OtherIo nat

datatype wire_error = Io io_error | TooLarge nat

text \<open>
  A byte source: what is still to come and how it ends (\<open>None\<close> is an orderly end of stream).
  \<open>read_exact\<close> gives the next \<open>n\<close> bytes or the error that stopped it.
\<close>

record reader =
  r_data :: bytes
  r_end :: "io_error option"

definition read_exact :: "nat \<Rightarrow> reader \<Rightarrow> io_error + (bytes \<times> reader)" where
  "read_exact n r =
     (if n \<le> length (r_data r) then Inr (take n (r_data r), r\<lparr>r_data := drop n (r_data r)\<rparr>)
      else Inl (case r_end r of None \<Rightarrow> UnexpectedEof | Some e \<Rightarrow> e))"

text \<open>
  A byte sink: what it has taken, how much more it takes before it fails (\<open>None\<close> for ever), and
  what \<open>flush\<close> answers. \<open>write_all\<close> writes a prefix before it fails.
\<close>

record writer =
  w_data :: bytes
  w_room :: "nat option"
  w_flush :: "io_error option"

definition write_all :: "bytes \<Rightarrow> writer \<Rightarrow> (io_error + unit) \<times> writer" where
  "write_all bs w =
     (case w_room w of
        None \<Rightarrow> (Inr (), w\<lparr>w_data := w_data w @ bs\<rparr>)
      | Some n \<Rightarrow>
          if length bs \<le> n
          then (Inr (), w\<lparr>w_data := w_data w @ bs, w_room := Some (n - length bs)\<rparr>)
          else (Inl BrokenPipe, w\<lparr>w_data := w_data w @ take n bs, w_room := Some 0\<rparr>))"

definition flush :: "writer \<Rightarrow> io_error + unit" where
  "flush w = (case w_flush w of None \<Rightarrow> Inr () | Some e \<Rightarrow> Inl e)"

definition to_be_bytes :: "u32 \<Rightarrow> bytes" where
  "to_be_bytes n = [ucast (drop_bit 24 n), ucast (drop_bit 16 n), ucast (drop_bit 8 n), ucast n]"

definition from_be_bytes :: "bytes \<Rightarrow> u32" where
  "from_be_bytes bs = word_of_nat (foldl (\<lambda>n b. 256 * n + unat b) 0 bs)"

definition read_frame :: "reader \<Rightarrow> wire_error + (bytes \<times> reader)" where
  "read_frame r =
     (case read_exact 4 r of
        Inl e \<Rightarrow> Inl (Io e)
      | Inr (len_buf, r1) \<Rightarrow>
          let len = unat (from_be_bytes len_buf) in
          if len > MAX_FRAME then Inl (TooLarge len)
          else (case read_exact len r1 of
                  Inl e \<Rightarrow> Inl (Io e)
                | Inr (buf, r2) \<Rightarrow> Inr (buf, r2)))"

definition write_frame :: "bytes \<Rightarrow> writer \<Rightarrow> (wire_error + unit) \<times> writer" where
  "write_frame json w =
     (if length json > MAX_FRAME then (Inl (TooLarge (length json)), w)
      else (case write_all (to_be_bytes (word_of_nat (length json))) w of
              (Inl e, w1) \<Rightarrow> (Inl (Io e), w1)
            | (Inr _, w1) \<Rightarrow>
                (case write_all json w1 of
                   (Inl e, w2) \<Rightarrow> (Inl (Io e), w2)
                 | (Inr _, w2) \<Rightarrow>
                     (case flush w2 of
                        Inl e \<Rightarrow> (Inl (Io e), w2)
                      | Inr _ \<Rightarrow> (Inr (), w2)))))"

section \<open>JSON-RPC\<close>

datatype rpc_error_kind = Invalid

definition parse_rpc_text :: "'a serde_scheme \<Rightarrow> string \<Rightarrow> rpc_error_kind + json" where
  "parse_rpc_text J text =
     (case de_value J text of
        Some (v, rest) \<Rightarrow>
          if is_object v then (if de_end J rest then Inr v else Inl Invalid) else Inl Invalid
      | None \<Rightarrow> Inl Invalid)"

definition host_away_note :: "'a serde_scheme \<Rightarrow> bool \<Rightarrow> string" where
  "host_away_note J away = to_text J (json_obj
     [(''jsonrpc'', String ''2.0''),
      (''method'', String ''aqualung/host_away''),
      (''params'', json_obj [(''away'', Bool away)])])"

definition initialize_result :: "'a serde_scheme \<Rightarrow> json \<Rightarrow> string" where
  "initialize_result J i = to_text J (json_obj
     [(''jsonrpc'', String ''2.0''),
      (''id'', i),
      (''result'', json_obj
         [(''protocolVersion'', json_of_i64 1),
          (''authMethods'', Array [])])])"

definition follower_initialize :: "'a serde_scheme \<Rightarrow> u64 \<Rightarrow> string" where
  "follower_initialize J i = to_text J (json_obj
     [(''jsonrpc'', String ''2.0''),
      (''id'', json_of_u64 i),
      (''method'', String ''initialize''),
      (''params'', json_obj
         [(''protocolVersion'', json_of_i64 1),
          (''clientCapabilities'', json_obj [])])])"

definition session_load :: "'a serde_scheme \<Rightarrow> u64 \<Rightarrow> string \<Rightarrow> string" where
  "session_load J i session = to_text J (json_obj
     [(''jsonrpc'', String ''2.0''),
      (''id'', json_of_u64 i),
      (''method'', String ''session/load''),
      (''params'', json_obj [(''sessionId'', String session)])])"

definition rpc_error :: "'a serde_scheme \<Rightarrow> json \<Rightarrow> i64 \<Rightarrow> string \<Rightarrow> string" where
  "rpc_error J i err_code err_message = to_text J (json_obj
     [(''jsonrpc'', String ''2.0''),
      (''id'', i),
      (''error'', json_obj
         [(''code'', json_of_i64 err_code),
          (''message'', String err_message)])])"

definition method_of :: "string \<Rightarrow> string" where
  "method_of m = (case m of c # rest \<Rightarrow> if c = CHR ''_'' then rest else m | [] \<Rightarrow> m)"

definition is_interaction :: "string \<Rightarrow> bool" where
  "is_interaction m \<longleftrightarrow> method_of m \<in> set
     [''session/request_permission'', ''x.ai/ask_user_question'', ''x.ai/exit_plan_mode'',
      ''x.ai/mcp/elicit'']"

definition session_id_in :: "json \<Rightarrow> string option" where
  "session_id_in obj =
     (case Option.bind (Option.bind (value_get obj ''params'') (\<lambda>p. value_get p ''sessionId'')) as_str of
        Some s \<Rightarrow> Some s
      | None \<Rightarrow>
          Option.bind (Option.bind (value_get obj ''result'') (\<lambda>r. value_get r ''sessionId'')) as_str)"

section \<open>Facts about JSON-RPC objects\<close>

lemma parse_rpc_text_object: "parse_rpc_text J text = Inr v \<Longrightarrow> is_object v"
  by (auto simp: parse_rpc_text_def split: option.splits if_splits)

lemma session_id_in_set_id:
  assumes "index_set obj ''id'' i = Some obj'"
  shows "session_id_in obj' = session_id_in obj"
proof -
  have "value_get obj' ''params'' = value_get obj ''params''"
    and "value_get obj' ''result'' = value_get obj ''result''"
    using value_get_index_set [OF assms] by simp_all
  then show ?thesis by (simp only: session_id_in_def)
qed

lemma method_of_twice: "method_of (CHR ''_'' # m) = m"
  by (simp add: method_of_def)

end
