(* ===== verification/Home.thy ===== *)
theory Home
  imports Wire
begin

text \<open>
  The data of \<open>crates/topside/src/hub.rs\<close>: identifiers, the link to one home connection, the
  stages of a connection that is coming up, the loads it waits for, the replacement of one live
  connection by another, phones, pending requests and claims. \<open>drop\<close> of a link is an effect: it
  fires the link's halt channel.
\<close>

section \<open>Identifiers\<close>

datatype phone_id = PhoneId (phone_num: u64)

datatype home_gen = HomeGen (gen_num: u64)

datatype home_req_id = HomeReqId (req_num: u64)

datatype session_id = SessionId (session_name: string)

datatype json_id = JsonId (json_of_id: json)

instantiation home_req_id :: linorder
begin

definition less_eq_home_req_id :: "home_req_id \<Rightarrow> home_req_id \<Rightarrow> bool" where
  "less_eq_home_req_id a b \<longleftrightarrow> req_num a \<le> req_num b"

definition less_home_req_id :: "home_req_id \<Rightarrow> home_req_id \<Rightarrow> bool" where
  "less_home_req_id a b \<longleftrightarrow> req_num a < req_num b"

instance
  by standard (auto simp: less_eq_home_req_id_def less_home_req_id_def home_req_id.expand)

end

instantiation session_id :: linorder
begin

definition less_eq_session_id :: "session_id \<Rightarrow> session_id \<Rightarrow> bool" where
  "less_eq_session_id a b \<longleftrightarrow> session_name a \<le> session_name b"

definition less_session_id :: "session_id \<Rightarrow> session_id \<Rightarrow> bool" where
  "less_session_id a b \<longleftrightarrow> session_name a < session_name b"

instance
  by standard (auto simp: less_eq_session_id_def less_session_id_def session_id.expand)

end

lemma HomeReqId_order [simp]:
  "HomeReqId a \<le> HomeReqId b \<longleftrightarrow> a \<le> b" "HomeReqId a < HomeReqId b \<longleftrightarrow> a < b"
  by (simp_all add: less_eq_home_req_id_def less_home_req_id_def)

section \<open>Effects\<close>

text \<open>
  Channels are numbered. What the hub does to the outside is a message put on a channel: a leader
  message for a connection, a text for a phone, the halt signal of a connection, and the identity
  handed back to a task that announced a connection.
\<close>

type_synonym chan = nat

datatype effect =
    ToHome chan leader_client
  | ToPhone chan string
  | Halt chan
  | BindHome chan home_gen
  | BindPhone chan phone_id

section \<open>Links and connections coming up\<close>

record link =
  home_gen :: home_gen
  out :: chan
  halt :: "chan option"

definition link_send :: "link \<Rightarrow> leader_client \<Rightarrow> effect list" where
  "link_send l msg = [ToHome (out l) msg]"

definition drop_link :: "link \<Rightarrow> effect list" where
  "drop_link l = (case halt l of Some h \<Rightarrow> [Halt h] | None \<Rightarrow> [])"

record live =
  link :: link

record pending_loads =
  remaining :: "session_id list"
  load_ids :: "(home_req_id, session_id) btmap"

datatype load_progress =
    More pending_loads
  | Done
  | Ignore pending_loads

datatype incoming =
    WaitRegistered link instant
  | WaitReady link instant
  | WaitInitialize link
  | WaitLoads link pending_loads
  | Ready link

fun incoming_link :: "incoming \<Rightarrow> link" where
  "incoming_link (WaitRegistered l _) = l"
| "incoming_link (WaitReady l _) = l"
| "incoming_link (WaitInitialize l) = l"
| "incoming_link (WaitLoads l _) = l"
| "incoming_link (Ready l) = l"

fun deadline :: "incoming \<Rightarrow> instant option" where
  "deadline (WaitRegistered _ d) = Some d"
| "deadline (WaitReady _ d) = Some d"
| "deadline _ = None"

fun into_live :: "incoming \<Rightarrow> incoming + live" where
  "into_live (Ready l) = Inr \<lparr>link = l\<rparr>"
| "into_live other = Inl other"

fun take_link :: "incoming \<Rightarrow> link" where
  "take_link (WaitRegistered l _) = l"
| "take_link (WaitReady l _) = l"
| "take_link (WaitInitialize l) = l"
| "take_link (WaitLoads l _) = l"
| "take_link (Ready l) = l"

definition drop_incoming :: "incoming \<Rightarrow> effect list" where
  "drop_incoming i = drop_link (incoming_link i)"

definition drop_live :: "live \<Rightarrow> effect list" where
  "drop_live l = drop_link (link l)"

section \<open>Pending loads\<close>

text \<open>\<open>start\<close> takes a closure that allocates ids; the closure's state is threaded through.\<close>

fun alloc_each :: "('s \<Rightarrow> 'i \<times> 's) \<Rightarrow> 'a list \<Rightarrow> 's \<Rightarrow> ('i \<times> 'a) list \<times> 's" where
  "alloc_each alloc [] s = ([], s)"
| "alloc_each alloc (x # xs) s =
     (let (i, s1) = alloc s; (rest, s2) = alloc_each alloc xs s1 in ((i, x) # rest, s2))"

definition start_loads ::
  "session_id list \<Rightarrow> ('s \<Rightarrow> home_req_id \<times> 's) \<Rightarrow> 's \<Rightarrow> pending_loads option \<times> 's" where
  "start_loads watched alloc s =
     (let rem = bts_collect watched in
      if rem = [] then (None, s)
      else let (pairs, s') = alloc_each alloc rem s
           in (Some \<lparr>remaining = rem, load_ids = bt_collect pairs\<rparr>, s'))"

definition loaded :: "pending_loads \<Rightarrow> home_req_id \<Rightarrow> load_progress" where
  "loaded p i =
     (case bt_get (load_ids p) i of
        None \<Rightarrow> Ignore p
      | Some session \<Rightarrow>
          let p' = p\<lparr>load_ids := bt_remove i (load_ids p),
                     remaining := filter (\<lambda>s. s \<noteq> session) (remaining p)\<rparr>
          in if remaining p' = [] then Done else More p')"

definition requests :: "pending_loads \<Rightarrow> (home_req_id \<times> session_id) list" where
  "requests p = load_ids p"

section \<open>Replacement\<close>

record replace =
  incumbent :: live
  incoming :: incoming

record armed =
  armed_incumbent :: live
  successor :: live

definition abort :: "replace \<Rightarrow> live \<times> effect list" where
  "abort r = (incumbent r, drop_incoming (incoming r))"

definition arm :: "replace \<Rightarrow> replace + armed" where
  "arm r =
     (case into_live (incoming r) of
        Inr s \<Rightarrow> Inr \<lparr>armed_incumbent = incumbent r, successor = s\<rparr>
      | Inl i \<Rightarrow> Inl \<lparr>incumbent = incumbent r, incoming = i\<rparr>)"

definition cutover :: "armed \<Rightarrow> live \<times> effect list" where
  "cutover a = (successor a, drop_live (armed_incumbent a))"

datatype home =
    Away
  | BringingUp incoming
  | Sole live
  | Dual replace

fun away :: "home \<Rightarrow> bool" where
  "away Away = True"
| "away (BringingUp _) = True"
| "away _ = False"

section \<open>Phones, waits, claims\<close>

datatype phone =
    Connected (phone_out: chan)
  | Ready (phone_out: chan)

datatype wait =
    Forwarded phone_id json_id
  | HubInitialize
  | HubLoad

datatype claim =
    Open json_id
  | Taken

text \<open>\<open>Claim::take\<close> leaves \<open>Taken\<close> behind and gives what was there.\<close>

definition claim_take :: "claim \<Rightarrow> json_id option \<times> claim" where
  "claim_take c = (case c of Open i \<Rightarrow> (Some i, Taken) | Taken \<Rightarrow> (None, Taken))"

end
