(* ===== verification/Hub.thy ===== *)
theory Hub
  imports Home
begin

text \<open>
  \<open>crates/topside/src/hub.rs\<close>, \<open>impl Hub\<close>: the hub's state and every handler, in the order of
  the source where definitions allow it (a handler stands after the ones it calls). A handler is a
  function on \<open>world\<close>: the fields of \<open>struct Hub\<close>, the effects so far in the order they happened,
  and whether a handler panicked. What \<open>eprintln!\<close> writes is left out.
\<close>

section \<open>State\<close>

datatype to_hub =
    Accepted chan chan chan
  | HomeFrame home_gen leader_server
  | HomeEof home_gen
  | PhoneHello chan chan
  | PhoneText phone_id string
  | PhoneEof phone_id
  | Shutdown

record hub =
  home :: home
  phones :: "(phone_id, phone) hmap"
  watchers :: "(session_id, phone_id hset) hmap"
  driver :: "(session_id, phone_id) hmap"
  outstanding :: "(home_req_id, wait) hmap"
  reverse :: "(phone_id \<times> json_id, home_req_id) hmap"
  claims :: "(home_req_id, claim) hmap"
  next_phone :: phone_id
  next_req :: home_req_id
  next_gen :: home_gen
  reverse_seq :: u64
  refused_version :: "u32 option"

record world = hub +
  effects :: "effect list"
  panicked :: bool

definition new :: world where
  "new = \<lparr>home = Away, phones = [], watchers = [], driver = [], outstanding = [], reverse = [],
     claims = [], next_phone = PhoneId 0, next_req = HomeReqId 0, next_gen = HomeGen 0,
     reverse_seq = 0, refused_version = None, effects = [], panicked = False\<rparr>"

text \<open>
  What the hub uses of its surroundings: the JSON parser and printer, and the order in which a
  \<open>HashSet\<close> or a \<open>HashMap\<close> keyed by phone is iterated.
\<close>

record env = serde +
  hash_order :: "phone_id list \<Rightarrow> phone_id list"

definition REGISTER_WAIT :: duration where
  "REGISTER_WAIT = from_secs 10"

definition READY_WAIT :: duration where
  "READY_WAIT = from_secs 120"

definition emit :: "effect list \<Rightarrow> world \<Rightarrow> world" where
  "emit es w = w\<lparr>effects := effects w @ es\<rparr>"

definition panic :: "world \<Rightarrow> world" where
  "panic w = w\<lparr>panicked := True\<rparr>"

section \<open>Roles and candidates\<close>

datatype role =
    Mux
  | Candidate
  | Unknown

record candidate_slot =
  slot_incumbent :: "live option"

definition role_of :: "world \<Rightarrow> home_gen \<Rightarrow> role" where
  "role_of w g =
     (case home w of
        Sole l \<Rightarrow> if home_gen (link l) = g then Mux else role.Unknown
      | BringingUp i \<Rightarrow> if home_gen (incoming_link i) = g then Candidate else role.Unknown
      | Dual r \<Rightarrow>
          if home_gen (link (incumbent r)) = g then Mux
          else if home_gen (incoming_link (incoming r)) = g then Candidate
          else role.Unknown
      | Away \<Rightarrow> role.Unknown)"

definition take_candidate :: "home_gen \<Rightarrow> world \<Rightarrow> (incoming \<times> candidate_slot) option \<times> world" where
  "take_candidate g w =
     (case home w of
        BringingUp i \<Rightarrow>
          if home_gen (incoming_link i) = g
          then (Some (i, \<lparr>slot_incumbent = None\<rparr>), w\<lparr>home := Away\<rparr>)
          else (None, w)
      | Dual r \<Rightarrow>
          if home_gen (incoming_link (incoming r)) = g
          then (Some (incoming r, \<lparr>slot_incumbent = Some (incumbent r)\<rparr>), w\<lparr>home := Away\<rparr>)
          else (None, w)
      | _ \<Rightarrow> (None, w))"

definition put_candidate :: "incoming \<Rightarrow> candidate_slot \<Rightarrow> world \<Rightarrow> world" where
  "put_candidate i slot w =
     (case slot_incumbent slot of
        None \<Rightarrow> w\<lparr>home := BringingUp i\<rparr>
      | Some inc \<Rightarrow> w\<lparr>home := Dual \<lparr>incumbent = inc, incoming = i\<rparr>\<rparr>)"

section \<open>Small operations\<close>

definition alloc_req :: "world \<Rightarrow> home_req_id \<times> world" where
  "alloc_req w = (let i = HomeReqId (req_num (next_req w) + 1) in (i, w\<lparr>next_req := i\<rparr>))"

definition reverse_name :: "u64 \<Rightarrow> string" where
  "reverse_name n = ''aq:'' @ show_nat (unat n)"

definition alloc_reverse_id :: "world \<Rightarrow> json_id \<times> world" where
  "alloc_reverse_id w =
     (let n = reverse_seq w + 1 in (JsonId (String (reverse_name n)), w\<lparr>reverse_seq := n\<rparr>))"

definition send_phone :: "phone_id \<Rightarrow> string \<Rightarrow> world \<Rightarrow> world" where
  "send_phone p text w =
     (case hm_get (phones w) p of
        Some slot \<Rightarrow> emit [ToPhone (phone_out slot) text] w
      | None \<Rightarrow> w)"

definition broadcast_away :: "env \<Rightarrow> bool \<Rightarrow> world \<Rightarrow> world" where
  "broadcast_away E is_away w =
     fold (\<lambda>p w. case hm_get (phones w) p of
                   Some (phone.Ready out_ch) \<Rightarrow> emit [ToPhone out_ch (host_away_note E is_away)] w
                 | _ \<Rightarrow> w)
       (hash_order E (hm_keys (phones w))) w"

definition away_error :: "env \<Rightarrow> world \<Rightarrow> json \<Rightarrow> string" where
  "away_error E w i =
     rpc_error E i (word_of_int (- 32003))
       (case refused_version w of
          Some version \<Rightarrow>
            ''host is away (unsupported leader protocol version '' @ show_nat (unat version) @ '')''
        | None \<Rightarrow> ''host is away'')"

definition mux_link :: "world \<Rightarrow> link option" where
  "mux_link w =
     (case home w of
        Sole l \<Rightarrow> Some (link l)
      | Dual r \<Rightarrow> Some (link (incumbent r))
      | _ \<Rightarrow> None)"

definition mux_out :: "world \<Rightarrow> chan option" where
  "mux_out w = map_option out (mux_link w)"

definition phone_ready :: "world \<Rightarrow> phone_id \<Rightarrow> bool" where
  "phone_ready w p = (case hm_get (phones w) p of Some (phone.Ready _) \<Rightarrow> True | _ \<Rightarrow> False)"

definition hash_first :: "env \<Rightarrow> phone_id hset \<Rightarrow> phone_id option" where
  "hash_first E s = (case hash_order E s of p # _ \<Rightarrow> Some p | [] \<Rightarrow> None)"

definition watch :: "phone_id \<Rightarrow> session_id \<Rightarrow> world \<Rightarrow> (unit + unit) \<times> world" where
  "watch p session w =
     (case hm_get (phones w) p of
        Some (phone.Ready _) \<Rightarrow>
          let old = (case hm_get (watchers w) session of Some s \<Rightarrow> s | None \<Rightarrow> []);
              w1 = w\<lparr>watchers := hm_insert session (hs_insert p old) (watchers w)\<rparr>;
              w2 = (case hm_get (driver w1) session of
                      Some _ \<Rightarrow> w1
                    | None \<Rightarrow> w1\<lparr>driver := hm_insert session p (driver w1)\<rparr>)
          in (Inr (), w2)
      | _ \<Rightarrow> (Inl (), w))"

definition unwatch :: "env \<Rightarrow> phone_id \<Rightarrow> session_id \<Rightarrow> world \<Rightarrow> world" where
  "unwatch E p session w =
     (case hm_get (watchers w) session of
        None \<Rightarrow> w
      | Some old \<Rightarrow>
          let s = hs_remove p old;
              w1 = w\<lparr>watchers := hm_insert session s (watchers w)\<rparr>
          in if s = [] then
               w1\<lparr>watchers := hm_remove session (watchers w1),
                  driver := hm_remove session (driver w1)\<rparr>
             else if hm_get (driver w1) session = Some p then
               (case hash_first E s of
                  Some q \<Rightarrow> w1\<lparr>driver := hm_insert session q (driver w1)\<rparr>
                | None \<Rightarrow> w1)
             else w1)"

section \<open>Losing a connection\<close>

definition fail_incoming :: "home_gen \<Rightarrow> world \<Rightarrow> world" where
  "fail_incoming g w =
     (case home w of
        BringingUp i \<Rightarrow>
          if home_gen (incoming_link i) = g
          then (emit (drop_incoming i) w)\<lparr>home := Away\<rparr> else w
      | Dual r \<Rightarrow>
          if home_gen (incoming_link (incoming r)) = g
          then (let (inc, es) = abort r in (emit es w)\<lparr>home := Sole inc\<rparr>) else w
      | _ \<Rightarrow> w)"

definition on_home_eof :: "env \<Rightarrow> home_gen \<Rightarrow> world \<Rightarrow> world" where
  "on_home_eof E g w =
     (case role_of w g of
        role.Unknown \<Rightarrow> w
      | Mux \<Rightarrow>
          (case home w of
             Sole l \<Rightarrow>
               if home_gen (link l) = g
               then broadcast_away E True ((emit (drop_live l) w)\<lparr>home := Away\<rparr>) else w
           | Dual r \<Rightarrow>
               if home_gen (link (incumbent r)) = g
               then broadcast_away E True
                      ((emit (drop_live (incumbent r)) w)\<lparr>home := BringingUp (incoming r)\<rparr>)
               else w
           | _ \<Rightarrow> w)
      | Candidate \<Rightarrow> fail_incoming g w)"

definition on_deadline :: "world \<Rightarrow> world" where
  "on_deadline w =
     (case home w of
        BringingUp i \<Rightarrow>
          if deadline i \<noteq> None then (emit (drop_incoming i) w)\<lparr>home := Away\<rparr> else w
      | Dual r \<Rightarrow>
          if deadline (incoming r) \<noteq> None
          then (let (inc, es) = abort r in (emit es w)\<lparr>home := Sole inc\<rparr>) else w
      | _ \<Rightarrow> w)"

definition current_deadline :: "world \<Rightarrow> instant option" where
  "current_deadline w =
     (case home w of
        BringingUp i \<Rightarrow> deadline i
      | Dual r \<Rightarrow> deadline (incoming r)
      | _ \<Rightarrow> None)"

section \<open>Bringing a connection up\<close>

definition on_accepted :: "instant \<Rightarrow> chan \<Rightarrow> chan \<Rightarrow> chan \<Rightarrow> world \<Rightarrow> world" where
  "on_accepted now out_ch halt_ch bind_ch w =
     (let g = HomeGen (gen_num (next_gen w) + 1);
          w1 = emit [BindHome bind_ch g] (w\<lparr>next_gen := g\<rparr>);
          l = \<lparr>home_gen = g, out = out_ch, halt = Some halt_ch\<rparr>;
          i = WaitRegistered l (now + REGISTER_WAIT)
      in case home w1 of
           Away \<Rightarrow> w1\<lparr>home := BringingUp i\<rparr>
         | Sole inc \<Rightarrow> w1\<lparr>home := Dual \<lparr>incumbent = inc, incoming = i\<rparr>\<rparr>
         | Dual rep \<Rightarrow>
             (let (inc, es) = abort rep
              in (emit es w1)\<lparr>home := Dual \<lparr>incumbent = inc, incoming = i\<rparr>\<rparr>)
         | BringingUp old \<Rightarrow> (emit (drop_incoming old) w1)\<lparr>home := BringingUp i\<rparr>)"

definition send_follower_initialize :: "env \<Rightarrow> link \<Rightarrow> world \<Rightarrow> world" where
  "send_follower_initialize E l w =
     (let (i, w1) = alloc_req w;
          w2 = w1\<lparr>outstanding := hm_insert i HubInitialize (outstanding w1)\<rparr>
      in emit (link_send l (acp (follower_initialize E (req_num i)))) w2)"

definition on_registered :: "env \<Rightarrow> instant \<Rightarrow> home_gen \<Rightarrow> bool \<Rightarrow> u32 \<Rightarrow> world \<Rightarrow> world" where
  "on_registered E now g ready version w =
     (if version \<noteq> LEADER_PROTOCOL_VERSION
      then fail_incoming g (w\<lparr>refused_version := Some version\<rparr>)
      else
        (case take_candidate g (w\<lparr>refused_version := None\<rparr>) of
           (None, w1) \<Rightarrow> w1
         | (Some (i, slot), w1) \<Rightarrow>
             (case i of
                WaitRegistered _ _ \<Rightarrow>
                  let l = take_link i in
                  if ready
                  then put_candidate (WaitInitialize l) slot (send_follower_initialize E l w1)
                  else put_candidate (WaitReady l (now + READY_WAIT)) slot w1
              | _ \<Rightarrow> put_candidate i slot w1)))"

definition on_leader_ready :: "env \<Rightarrow> home_gen \<Rightarrow> world \<Rightarrow> world" where
  "on_leader_ready E g w =
     (case take_candidate g w of
        (None, w1) \<Rightarrow> w1
      | (Some (i, slot), w1) \<Rightarrow>
          (case i of
             WaitReady _ _ \<Rightarrow>
               let l = take_link i in
               put_candidate (WaitInitialize l) slot (send_follower_initialize E l w1)
           | _ \<Rightarrow> put_candidate i slot w1))"

definition finish_successor :: "env \<Rightarrow> live \<Rightarrow> candidate_slot \<Rightarrow> world \<Rightarrow> world" where
  "finish_successor E succ slot w =
     (case slot_incumbent slot of
        None \<Rightarrow> broadcast_away E False (w\<lparr>home := Sole succ\<rparr>)
      | Some inc \<Rightarrow>
          (case arm \<lparr>incumbent = inc, incoming = incoming.Ready (link succ)\<rparr> of
             Inr armed \<Rightarrow> (let (l, es) = cutover armed in (emit es w)\<lparr>home := Sole l\<rparr>)
           | Inl rep \<Rightarrow> w\<lparr>home := Dual rep\<rparr>))"

text \<open>The closure that \<open>PendingLoads::start\<close> gets: it bumps a copy of \<open>next_req\<close>.\<close>

definition bump_req :: "home_req_id \<Rightarrow> home_req_id \<times> home_req_id" where
  "bump_req n = (let i = HomeReqId (req_num n + 1) in (i, i))"

text \<open>One turn of the loop that asks the candidate to load a session.\<close>

definition load_session :: "env \<Rightarrow> link \<Rightarrow> home_req_id \<times> session_id \<Rightarrow> world \<Rightarrow> world" where
  "load_session E l = (\<lambda>(i, session) w.
     emit (link_send l (acp (session_load E (req_num i) (session_name session))))
       (w\<lparr>outstanding := hm_insert i HubLoad (outstanding w)\<rparr>))"

definition after_follower_initialize :: "env \<Rightarrow> home_gen \<Rightarrow> world \<Rightarrow> world" where
  "after_follower_initialize E g w =
     (case take_candidate g w of
        (None, w1) \<Rightarrow> w1
      | (Some (i, slot), w1) \<Rightarrow>
          (case i of
             WaitInitialize _ \<Rightarrow>
               let l = take_link i;
                   (pending, n) = start_loads (hm_keys (watchers w1)) bump_req (next_req w1);
                   w2 = w1\<lparr>next_req := n\<rparr>
               in (case pending of
                     None \<Rightarrow> finish_successor E \<lparr>link = l\<rparr> slot w2
                   | Some p \<Rightarrow>
                       put_candidate (WaitLoads l p) slot
                         (fold (load_session E l)
                           (requests p) w2))
           | _ \<Rightarrow> put_candidate i slot w1))"

definition after_load_result :: "env \<Rightarrow> home_gen \<Rightarrow> home_req_id \<Rightarrow> world \<Rightarrow> world" where
  "after_load_result E g i w =
     (case take_candidate g w of
        (None, w1) \<Rightarrow> w1
      | (Some (inc, slot), w1) \<Rightarrow>
          (case inc of
             WaitLoads l pending \<Rightarrow>
               (case loaded pending i of
                  More p \<Rightarrow> put_candidate (WaitLoads l p) slot w1
                | Ignore p \<Rightarrow> put_candidate (WaitLoads l p) slot w1
                | Done \<Rightarrow> finish_successor E \<lparr>link = l\<rparr> slot w1)
           | _ \<Rightarrow> put_candidate inc slot w1))"

section \<open>What home sends\<close>

definition on_home_result :: "env \<Rightarrow> home_gen \<Rightarrow> json \<Rightarrow> world \<Rightarrow> world" where
  "on_home_result E g obj w =
     (case map_option HomeReqId (Option.bind (value_get obj ''id'') as_u64) of
        None \<Rightarrow> w
      | Some i \<Rightarrow>
          (case hm_get (outstanding w) i of
             None \<Rightarrow> w
           | Some wait \<Rightarrow>
               let w1 = w\<lparr>outstanding := hm_remove i (outstanding w)\<rparr> in
               (case wait of
                  Forwarded p origin \<Rightarrow>
                    if role_of w1 g \<noteq> Mux then w1
                    else
                      (let w2 = (case session_id_in obj of
                                   Some s \<Rightarrow> snd (watch p (SessionId s) w1)
                                 | None \<Rightarrow> w1)
                       in case index_set obj ''id'' (json_of_id origin) of
                            None \<Rightarrow> panic w2
                          | Some reply \<Rightarrow> send_phone p (to_text E reply) w2)
                | HubInitialize \<Rightarrow>
                    if role_of w1 g \<noteq> Candidate then w1
                    else if value_get obj ''error'' \<noteq> None then fail_incoming g w1
                    else after_follower_initialize E g w1
                | HubLoad \<Rightarrow>
                    if role_of w1 g \<noteq> Candidate then w1
                    else after_load_result E g i w1)))"

definition on_home_notification :: "env \<Rightarrow> json \<Rightarrow> world \<Rightarrow> world" where
  "on_home_notification E obj w =
     (case Option.bind (value_get obj ''method'') as_str of
        None \<Rightarrow> w
      | Some meth \<Rightarrow>
          if method_of meth \<noteq> ''session/update'' then w
          else (case map_option SessionId (session_id_in obj) of
                  None \<Rightarrow> w
                | Some session \<Rightarrow>
                    (case hm_get (watchers w) session of
                       None \<Rightarrow> w
                     | Some ws \<Rightarrow>
                         fold (\<lambda>p. send_phone p (to_text E obj)) (hash_order E ws) w)))"

definition reverse_targets :: "env \<Rightarrow> string \<Rightarrow> session_id \<Rightarrow> world \<Rightarrow> phone_id list" where
  "reverse_targets E meth session w =
     (if is_interaction meth
      then (case hm_get (watchers w) session of Some ws \<Rightarrow> hash_order E ws | None \<Rightarrow> [])
      else (case hm_get (driver w) session of Some p \<Rightarrow> [p] | None \<Rightarrow> []))"

text \<open>One turn of the loop that hands a reverse request to a phone.\<close>

definition ask_phone :: "env \<Rightarrow> json \<Rightarrow> home_req_id \<Rightarrow> phone_id \<Rightarrow> world \<Rightarrow> world" where
  "ask_phone E obj claim_key p w =
     (let (pid, w1) = alloc_reverse_id w;
          w2 = w1\<lparr>reverse := hm_insert (p, pid) claim_key (reverse w1)\<rparr>
      in case index_set obj ''id'' (json_of_id pid) of
           None \<Rightarrow> panic w2
         | Some for_phone \<Rightarrow> send_phone p (to_text E for_phone) w2)"

definition on_reverse_request :: "env \<Rightarrow> json \<Rightarrow> world \<Rightarrow> world" where
  "on_reverse_request E obj w =
     (case Option.bind (value_get obj ''method'') as_str of
        None \<Rightarrow> w
      | Some meth \<Rightarrow>
          (case value_get obj ''id'' of
             None \<Rightarrow> w
           | Some home_id \<Rightarrow>
               (case map_option SessionId (session_id_in obj) of
                  None \<Rightarrow> w
                | Some session \<Rightarrow>
                    let targets = reverse_targets E meth session w in
                    if targets = [] then w
                    else
                      (let (claim_key, w1) = alloc_req w;
                           w2 = w1\<lparr>claims := hm_insert claim_key (Open (JsonId home_id)) (claims w1)\<rparr>
                       in fold (ask_phone E obj claim_key) targets w2))))"

definition on_home_acp :: "env \<Rightarrow> home_gen \<Rightarrow> string \<Rightarrow> world \<Rightarrow> world" where
  "on_home_acp E g payload w =
     (case parse_rpc_text E payload of
        Inl _ \<Rightarrow> w
      | Inr obj \<Rightarrow>
          let has_method = Option.bind (value_get obj ''method'') as_str \<noteq> None;
              has_id = value_get obj ''id'' \<noteq> None
          in if has_method \<and> has_id
             then (if role_of w g = Mux then on_reverse_request E obj w else w)
             else if has_method
             then (if role_of w g = Mux then on_home_notification E obj w else w)
             else if has_id then on_home_result E g obj w
             else w)"

definition on_home_frame :: "env \<Rightarrow> instant \<Rightarrow> home_gen \<Rightarrow> leader_server \<Rightarrow> world \<Rightarrow> world" where
  "on_home_frame E now g msg w =
     (if role_of w g = role.Unknown then w
      else (case msg of
              Registered ready version \<Rightarrow>
                if role_of w g = Candidate then on_registered E now g ready version w else w
            | LeaderReady \<Rightarrow> if role_of w g = Candidate then on_leader_ready E g w else w
            | Acp payload \<Rightarrow> on_home_acp E g payload w
            | Pong \<Rightarrow> w
            | leader_server.Unknown \<Rightarrow> w
            | Error _ \<Rightarrow>
                if role_of w g = Candidate then fail_incoming g w else on_home_eof E g w))"

section \<open>What phones send\<close>

definition on_phone_hello :: "chan \<Rightarrow> chan \<Rightarrow> world \<Rightarrow> world" where
  "on_phone_hello out_ch bind_ch w =
     (let p = PhoneId (phone_num (next_phone w) + 1);
          w1 = emit [BindPhone bind_ch p] (w\<lparr>next_phone := p\<rparr>)
      in w1\<lparr>phones := hm_insert p (Connected out_ch) (phones w1)\<rparr>)"

definition answer_initialize :: "env \<Rightarrow> phone_id \<Rightarrow> json \<Rightarrow> world \<Rightarrow> world" where
  "answer_initialize E p i w =
     (case hm_get (phones w) p of
        None \<Rightarrow> w
      | Some slot \<Rightarrow>
          let w1 = w\<lparr>phones := hm_remove p (phones w)\<rparr>;
              out_ch = phone_out slot;
              w2 = emit [ToPhone out_ch (initialize_result E i)] w1;
              w3 = (if away (home w2) then emit [ToPhone out_ch (host_away_note E True)] w2 else w2)
          in w3\<lparr>phones := hm_insert p (phone.Ready out_ch) (phones w3)\<rparr>)"

definition forward_request :: "env \<Rightarrow> phone_id \<Rightarrow> json \<Rightarrow> json \<Rightarrow> world \<Rightarrow> world" where
  "forward_request E p origin obj w =
     (case mux_out w of
        None \<Rightarrow> send_phone p (away_error E w origin) w
      | Some out_ch \<Rightarrow>
          let (home_id, w1) = alloc_req w;
              w2 = w1\<lparr>outstanding := hm_insert home_id (Forwarded p (JsonId origin)) (outstanding w1)\<rparr>
          in (case index_set obj ''id'' (json_of_u64 (req_num home_id)) of
                None \<Rightarrow> panic w2
              | Some obj' \<Rightarrow> emit [ToHome out_ch (acp (to_text E obj'))] w2))"

definition forward_notification :: "env \<Rightarrow> json \<Rightarrow> world \<Rightarrow> world" where
  "forward_notification E obj w =
     (case mux_out w of
        None \<Rightarrow> w
      | Some out_ch \<Rightarrow> emit [ToHome out_ch (acp (to_text E obj))] w)"

definition starts_with :: "string \<Rightarrow> string \<Rightarrow> bool" where
  "starts_with prefix s \<longleftrightarrow> take (length prefix) s = prefix"

definition on_phone_request :: "env \<Rightarrow> phone_id \<Rightarrow> string \<Rightarrow> json \<Rightarrow> json \<Rightarrow> world \<Rightarrow> world" where
  "on_phone_request E p meth i obj w =
     (if meth = ''initialize'' then answer_initialize E p i w
      else if meth = ''authenticate'' then
        send_phone p (rpc_error E i (word_of_int (- 32601)) ''Method not found'') w
      else if meth = ''session/load'' \<or> meth = ''session/resume'' then
        (if \<not> phone_ready w p
         then send_phone p (rpc_error E i (word_of_int (- 32600)) ''phone has not initialized'') w
         else
           (let w1 = (case session_id_in obj of
                        Some s \<Rightarrow> snd (watch p (SessionId s) w)
                      | None \<Rightarrow> w)
            in forward_request E p i obj w1))
      else if meth = ''session/close'' then
        (let w1 = (case session_id_in obj of
                     Some s \<Rightarrow> unwatch E p (SessionId s) w
                   | None \<Rightarrow> w)
         in forward_request E p i obj w1)
      else
        (if starts_with ''session/'' meth \<and> \<not> phone_ready w p
         then send_phone p (rpc_error E i (word_of_int (- 32600)) ''phone has not initialized'') w
         else forward_request E p i obj w))"

definition on_phone_reply :: "env \<Rightarrow> phone_id \<Rightarrow> json_id \<Rightarrow> json \<Rightarrow> world \<Rightarrow> world" where
  "on_phone_reply E p origin obj w =
     (case hm_get (reverse w) (p, origin) of
        None \<Rightarrow> w
      | Some claim_key \<Rightarrow>
          let w1 = w\<lparr>reverse := hm_remove (p, origin) (reverse w)\<rparr> in
          (case hm_get (claims w1) claim_key of
             None \<Rightarrow> w1
           | Some claim \<Rightarrow>
               let (taken, claim') = claim_take claim;
                   w2 = w1\<lparr>claims := hm_insert claim_key claim' (claims w1)\<rparr>
               in (case taken of
                     None \<Rightarrow> w2
                   | Some home_id \<Rightarrow>
                       (case index_set obj ''id'' (json_of_id home_id) of
                          None \<Rightarrow> panic w2
                        | Some obj' \<Rightarrow>
                            (case mux_out w2 of
                               Some out_ch \<Rightarrow> emit [ToHome out_ch (acp (to_text E obj'))] w2
                             | None \<Rightarrow> w2)))))"

definition on_rpc :: "env \<Rightarrow> phone_id \<Rightarrow> json \<Rightarrow> world \<Rightarrow> world" where
  "on_rpc E p obj w =
     (case Option.bind (value_get obj ''method'') as_str of
        Some meth \<Rightarrow>
          (case value_get obj ''id'' of
             Some i \<Rightarrow> on_phone_request E p meth i obj w
           | None \<Rightarrow> forward_notification E obj w)
      | None \<Rightarrow>
          if value_get obj ''result'' \<noteq> None \<or> value_get obj ''error'' \<noteq> None
          then (case value_get obj ''id'' of
                  Some i \<Rightarrow> on_phone_reply E p (JsonId i) obj w
                | None \<Rightarrow> w)
          else w)"

definition on_phone_text :: "env \<Rightarrow> phone_id \<Rightarrow> string \<Rightarrow> world \<Rightarrow> world" where
  "on_phone_text E p text w =
     (if hm_get (phones w) p = None then w
      else (case parse_rpc_text E text of
              Inr obj \<Rightarrow> on_rpc E p obj w
            | Inl _ \<Rightarrow> send_phone p (rpc_error E Null (word_of_int (- 32700)) ''Parse error'') w))"

text \<open>The hand-over of one session whose driver left.\<close>

definition pass_on :: "env \<Rightarrow> session_id \<Rightarrow> world \<Rightarrow> world" where
  "pass_on E session w =
     (case hm_get (watchers w) session of
        Some s \<Rightarrow>
          (case hash_first E s of
             Some next \<Rightarrow> w\<lparr>driver := hm_insert session next (driver w)\<rparr>
           | None \<Rightarrow> w\<lparr>driver := hm_remove session (driver w)\<rparr>)
      | None \<Rightarrow> w\<lparr>driver := hm_remove session (driver w)\<rparr>)"

definition on_phone_eof :: "env \<Rightarrow> phone_id \<Rightarrow> world \<Rightarrow> world" where
  "on_phone_eof E p w =
     (let w1 = w\<lparr>phones := hm_remove p (phones w)\<rparr>;
          w2 = w1\<lparr>watchers := hm_retain
                 (\<lambda>_ s. let s' = hs_remove p s in if s' = [] then None else Some s')
                 (watchers w1)\<rparr>;
          orphaned = map fst (filter (\<lambda>(session, owner). owner = p) (driver w2));
          w3 = fold (pass_on E) orphaned w2
      in w3\<lparr>reverse := hm_retain (\<lambda>(q, _) v. if q \<noteq> p then Some v else None) (reverse w3)\<rparr>)"

section \<open>The loop\<close>

definition shutdown :: "world \<Rightarrow> world" where
  "shutdown w =
     (let w1 = (case home w of
                  Away \<Rightarrow> w
                | BringingUp i \<Rightarrow> (emit (drop_incoming i) w)\<lparr>home := Away\<rparr>
                | Sole l \<Rightarrow> (emit (drop_live l) w)\<lparr>home := Away\<rparr>
                | Dual r \<Rightarrow>
                    (let (inc, es) = abort r in (emit (es @ drop_live inc) w)\<lparr>home := Away\<rparr>))
      in w1\<lparr>phones := []\<rparr>)"

fun handle :: "env \<Rightarrow> instant \<Rightarrow> to_hub \<Rightarrow> world \<Rightarrow> world" where
  "handle E now (Accepted out_ch halt_ch bind_ch) w = on_accepted now out_ch halt_ch bind_ch w"
| "handle E now (HomeFrame g msg) w = on_home_frame E now g msg w"
| "handle E now (HomeEof g) w = on_home_eof E g w"
| "handle E now (PhoneHello out_ch bind_ch) w = on_phone_hello out_ch bind_ch w"
| "handle E now (PhoneText p text) w = on_phone_text E p text w"
| "handle E now (PhoneEof p) w = on_phone_eof E p w"
| "handle E now Shutdown w = shutdown w"

text \<open>
  \<open>run\<close> waits for a message or, when the connection coming up has a deadline, for that instant.
  Time never goes back. A state of the loop is running, with the time of the last turn, or stopped.
\<close>

datatype loop_state =
    Running instant world
  | Stopped world

datatype wake =
    Recv instant "to_hub option"
  | Timer instant

inductive hub_step :: "env \<Rightarrow> loop_state \<Rightarrow> wake \<Rightarrow> loop_state \<Rightarrow> bool" for E where
  recv: "t \<le> now \<Longrightarrow> msg \<noteq> Shutdown \<Longrightarrow>
    hub_step E (Running t w) (Recv now (Some msg)) (Running now (handle E now msg w))"
| stop: "t \<le> now \<Longrightarrow>
    hub_step E (Running t w) (Recv now (Some Shutdown)) (Stopped (shutdown w))"
| closed: "t \<le> now \<Longrightarrow>
    hub_step E (Running t w) (Recv now None) (Stopped (shutdown w))"
| timer: "t \<le> now \<Longrightarrow> current_deadline w = Some d \<Longrightarrow> d \<le> now \<Longrightarrow>
    hub_step E (Running t w) (Timer now) (Running now (on_deadline w))"

text \<open>The same steps as a function, for concrete runs.\<close>

fun hub_next :: "env \<Rightarrow> loop_state \<Rightarrow> wake \<Rightarrow> loop_state option" where
  "hub_next E (Stopped w) k = None"
| "hub_next E (Running t w) (Recv now (Some msg)) =
     (if t \<le> now
      then Some (if msg = Shutdown then Stopped (shutdown w) else Running now (handle E now msg w))
      else None)"
| "hub_next E (Running t w) (Recv now None) = (if t \<le> now then Some (Stopped (shutdown w)) else None)"
| "hub_next E (Running t w) (Timer now) =
     (case current_deadline w of
        Some d \<Rightarrow> if t \<le> now \<and> d \<le> now then Some (Running now (on_deadline w)) else None
      | None \<Rightarrow> None)"

lemma hub_step_iff: "hub_step E s k s' \<longleftrightarrow> hub_next E s k = Some s'"
  by (cases "(E, s, k)" rule: hub_next.cases)
    (auto simp: hub_step.simps split: option.splits)

end
