(* ===== verification/Hub_Frame.thy ===== *)
theory Hub_Frame
  imports Hub
begin

text \<open>
  What the handlers leave alone, and the effects of the sending operations in closed form:
  \<open>send_phone\<close> and \<open>broadcast_away\<close> are an \<open>emit\<close>, so every field but the effects passes through
  them. The bundles \<open>frame_simps\<close> and \<open>hub_defs\<close> feed the invariant and protocol proofs.
\<close>

section \<open>Iteration order\<close>

text \<open>Iterating a hash set visits every element exactly once, in some order.\<close>

definition order_ok :: "env \<Rightarrow> bool" where
  "order_ok E \<longleftrightarrow> (\<forall>xs. mset (hash_order E xs) = mset xs)"

lemma mset_hash_order: "order_ok E \<Longrightarrow> mset (hash_order E xs) = mset xs"
  by (simp add: order_ok_def)

lemma set_hash_order: "order_ok E \<Longrightarrow> set (hash_order E xs) = set xs"
  by (metis mset_hash_order set_mset_mset)

lemma distinct_hash_order: "order_ok E \<Longrightarrow> distinct (hash_order E xs) = distinct xs"
  by (metis mset_hash_order mset_eq_imp_distinct_iff)

lemma length_hash_order: "order_ok E \<Longrightarrow> length (hash_order E xs) = length xs"
  by (metis mset_hash_order size_mset)

lemma hash_first_Some: "order_ok E \<Longrightarrow> hash_first E s = Some p \<Longrightarrow> p \<in> set s"
  using set_hash_order [of E s] by (auto simp: hash_first_def split: list.splits)

lemma hash_first_None: "order_ok E \<Longrightarrow> hash_first E s = None \<longleftrightarrow> s = []"
  using length_hash_order [of E s] by (auto simp: hash_first_def split: list.splits)

section \<open>Emitting\<close>

lemma emit_fields [simp]:
  "home (emit es w) = home w" "phones (emit es w) = phones w" "watchers (emit es w) = watchers w"
  "driver (emit es w) = driver w" "outstanding (emit es w) = outstanding w"
  "reverse (emit es w) = reverse w" "claims (emit es w) = claims w"
  "next_phone (emit es w) = next_phone w" "next_req (emit es w) = next_req w"
  "next_gen (emit es w) = next_gen w" "reverse_seq (emit es w) = reverse_seq w"
  "refused_version (emit es w) = refused_version w" "panicked (emit es w) = panicked w"
  "effects (emit es w) = effects w @ es"
  by (simp_all add: emit_def)

lemma emit_emit [simp]: "emit es (emit ds w) = emit (ds @ es) w"
  by (simp add: emit_def)

lemma emit_Nil [simp]: "emit [] w = w"
  by (simp add: emit_def)

lemma fold_emit: "fold (\<lambda>x. emit (f x)) xs w = emit (concat (map f xs)) w"
  by (induction xs arbitrary: w) auto

definition phone_effects :: "(phone_id, phone) hmap \<Rightarrow> phone_id \<Rightarrow> string \<Rightarrow> effect list" where
  "phone_effects ps p text =
     (case hm_get ps p of Some slot \<Rightarrow> [ToPhone (phone_out slot) text] | None \<Rightarrow> [])"

definition away_effects :: "env \<Rightarrow> bool \<Rightarrow> (phone_id, phone) hmap \<Rightarrow> effect list" where
  "away_effects E is_away ps =
     concat (map (\<lambda>p. case hm_get ps p of
         Some (phone.Ready out_ch) \<Rightarrow> [ToPhone out_ch (host_away_note E is_away)] | _ \<Rightarrow> [])
       (hash_order E (hm_keys ps)))"

lemma send_phone_emit: "send_phone p text w = emit (phone_effects (phones w) p text) w"
  by (simp add: send_phone_def phone_effects_def split: option.splits)

lemma fold_send_phone:
  "fold (\<lambda>p. send_phone p text) ps w = emit (concat (map (\<lambda>p. phone_effects (phones w) p text) ps)) w"
  by (induction ps arbitrary: w) (simp_all add: send_phone_emit)

lemma broadcast_away_emit: "broadcast_away E b w = emit (away_effects E b (phones w)) w"
proof -
  define f where "f = (\<lambda>(ps :: (phone_id, phone) hmap) p. case hm_get ps p of
      Some (phone.Ready out_ch) \<Rightarrow> [ToPhone out_ch (host_away_note E b)] | _ \<Rightarrow> [])"
  have step: "(\<lambda>p w. case hm_get (phones w) p of
        Some (phone.Ready out_ch) \<Rightarrow> emit [ToPhone out_ch (host_away_note E b)] w | _ \<Rightarrow> w) =
      (\<lambda>p w. emit (f (phones w) p) w)"
    by (simp add: fun_eq_iff f_def split: option.splits phone.splits)
  have "fold (\<lambda>p w. emit (f (phones w) p) w) ps w = emit (concat (map (f (phones w)) ps)) w" for ps
    by (induction ps arbitrary: w) simp_all
  then show ?thesis
    by (simp add: broadcast_away_def step away_effects_def f_def)
qed

lemma send_phone_fields [simp]:
  "home (send_phone p t w) = home w" "phones (send_phone p t w) = phones w"
  "watchers (send_phone p t w) = watchers w" "driver (send_phone p t w) = driver w"
  "outstanding (send_phone p t w) = outstanding w" "reverse (send_phone p t w) = reverse w"
  "claims (send_phone p t w) = claims w" "next_phone (send_phone p t w) = next_phone w"
  "next_req (send_phone p t w) = next_req w" "next_gen (send_phone p t w) = next_gen w"
  "reverse_seq (send_phone p t w) = reverse_seq w"
  "refused_version (send_phone p t w) = refused_version w"
  "panicked (send_phone p t w) = panicked w"
  by (simp_all add: send_phone_emit)

lemma broadcast_away_fields [simp]:
  "home (broadcast_away E b w) = home w" "phones (broadcast_away E b w) = phones w"
  "watchers (broadcast_away E b w) = watchers w" "driver (broadcast_away E b w) = driver w"
  "outstanding (broadcast_away E b w) = outstanding w" "reverse (broadcast_away E b w) = reverse w"
  "claims (broadcast_away E b w) = claims w" "next_phone (broadcast_away E b w) = next_phone w"
  "next_req (broadcast_away E b w) = next_req w" "next_gen (broadcast_away E b w) = next_gen w"
  "reverse_seq (broadcast_away E b w) = reverse_seq w"
  "refused_version (broadcast_away E b w) = refused_version w"
  "panicked (broadcast_away E b w) = panicked w"
  by (simp_all add: broadcast_away_emit)

section \<open>Allocation and watching\<close>

lemma alloc_req_eq:
  "alloc_req w = (let i = HomeReqId (req_num (next_req w) + 1) in (i, w\<lparr>next_req := i\<rparr>))"
  by (fact alloc_req_def)

lemma watch_fields [simp]:
  "home (snd (watch p s w)) = home w" "phones (snd (watch p s w)) = phones w"
  "outstanding (snd (watch p s w)) = outstanding w" "reverse (snd (watch p s w)) = reverse w"
  "claims (snd (watch p s w)) = claims w" "next_phone (snd (watch p s w)) = next_phone w"
  "next_req (snd (watch p s w)) = next_req w" "next_gen (snd (watch p s w)) = next_gen w"
  "reverse_seq (snd (watch p s w)) = reverse_seq w"
  "refused_version (snd (watch p s w)) = refused_version w"
  "panicked (snd (watch p s w)) = panicked w" "effects (snd (watch p s w)) = effects w"
  by (simp_all add: watch_def Let_def split: option.splits phone.splits)

lemma unwatch_fields [simp]:
  "home (unwatch E p s w) = home w" "phones (unwatch E p s w) = phones w"
  "outstanding (unwatch E p s w) = outstanding w" "reverse (unwatch E p s w) = reverse w"
  "claims (unwatch E p s w) = claims w" "next_phone (unwatch E p s w) = next_phone w"
  "next_req (unwatch E p s w) = next_req w" "next_gen (unwatch E p s w) = next_gen w"
  "reverse_seq (unwatch E p s w) = reverse_seq w"
  "refused_version (unwatch E p s w) = refused_version w"
  "panicked (unwatch E p s w) = panicked w" "effects (unwatch E p s w) = effects w"
  by (simp_all add: unwatch_def Let_def split: option.splits)

lemma pass_on_fields [simp]:
  "home (pass_on E s w) = home w" "phones (pass_on E s w) = phones w"
  "watchers (pass_on E s w) = watchers w"
  "outstanding (pass_on E s w) = outstanding w" "reverse (pass_on E s w) = reverse w"
  "claims (pass_on E s w) = claims w" "next_phone (pass_on E s w) = next_phone w"
  "next_req (pass_on E s w) = next_req w" "next_gen (pass_on E s w) = next_gen w"
  "reverse_seq (pass_on E s w) = reverse_seq w"
  "refused_version (pass_on E s w) = refused_version w"
  "panicked (pass_on E s w) = panicked w" "effects (pass_on E s w) = effects w"
  by (simp_all add: pass_on_def split: option.splits)

lemma fold_pass_on_fields [simp]:
  "home (fold (pass_on E) ss w) = home w" "phones (fold (pass_on E) ss w) = phones w"
  "watchers (fold (pass_on E) ss w) = watchers w"
  "outstanding (fold (pass_on E) ss w) = outstanding w" "reverse (fold (pass_on E) ss w) = reverse w"
  "claims (fold (pass_on E) ss w) = claims w" "next_phone (fold (pass_on E) ss w) = next_phone w"
  "next_req (fold (pass_on E) ss w) = next_req w" "next_gen (fold (pass_on E) ss w) = next_gen w"
  "reverse_seq (fold (pass_on E) ss w) = reverse_seq w"
  "refused_version (fold (pass_on E) ss w) = refused_version w"
  "panicked (fold (pass_on E) ss w) = panicked w" "effects (fold (pass_on E) ss w) = effects w"
  by (induction ss arbitrary: w) simp_all

section \<open>Home-side handlers\<close>

text \<open>None of them touches the phones, what they watch or drive, or the reverse requests.\<close>

lemmas home_defs [hub_defs] =
  fail_incoming_def on_home_eof_def on_deadline_def on_accepted_def send_follower_initialize_def
  on_registered_def on_leader_ready_def finish_successor_def
  take_candidate_def put_candidate_def alloc_req_def

lemma take_candidate_fields [simp]:
  "phones (snd (take_candidate g w)) = phones w" "watchers (snd (take_candidate g w)) = watchers w"
  "driver (snd (take_candidate g w)) = driver w"
  "outstanding (snd (take_candidate g w)) = outstanding w"
  "reverse (snd (take_candidate g w)) = reverse w" "claims (snd (take_candidate g w)) = claims w"
  "next_phone (snd (take_candidate g w)) = next_phone w"
  "next_req (snd (take_candidate g w)) = next_req w"
  "next_gen (snd (take_candidate g w)) = next_gen w"
  "reverse_seq (snd (take_candidate g w)) = reverse_seq w"
  "panicked (snd (take_candidate g w)) = panicked w"
  "effects (snd (take_candidate g w)) = effects w"
  by (simp_all add: take_candidate_def split: home.splits)

lemma put_candidate_fields [simp]:
  "phones (put_candidate i s w) = phones w" "watchers (put_candidate i s w) = watchers w"
  "driver (put_candidate i s w) = driver w" "outstanding (put_candidate i s w) = outstanding w"
  "reverse (put_candidate i s w) = reverse w" "claims (put_candidate i s w) = claims w"
  "next_phone (put_candidate i s w) = next_phone w" "next_req (put_candidate i s w) = next_req w"
  "next_gen (put_candidate i s w) = next_gen w" "reverse_seq (put_candidate i s w) = reverse_seq w"
  "panicked (put_candidate i s w) = panicked w" "effects (put_candidate i s w) = effects w"
  by (simp_all add: put_candidate_def split: option.splits)

lemma put_candidate_home:
  "home (put_candidate i s w) = (case slot_incumbent s of
     None \<Rightarrow> BringingUp i | Some inc \<Rightarrow> Dual \<lparr>incumbent = inc, incoming = i\<rparr>)"
  by (simp add: put_candidate_def split: option.splits)

lemma fail_incoming_fields [simp, frame_simps]:
  "phones (fail_incoming g w) = phones w"
  "watchers (fail_incoming g w) = watchers w"
  "driver (fail_incoming g w) = driver w"
  "reverse (fail_incoming g w) = reverse w"
  "claims (fail_incoming g w) = claims w"
  "next_phone (fail_incoming g w) = next_phone w"
  "reverse_seq (fail_incoming g w) = reverse_seq w"
  "panicked (fail_incoming g w) = panicked w"
  by (simp_all add: fail_incoming_def abort_def split: home.splits option.splits role.splits sum.splits incoming.splits
      prod.splits load_progress.splits)

lemma on_home_eof_fields [simp, frame_simps]:
  "phones (on_home_eof E g w) = phones w"
  "watchers (on_home_eof E g w) = watchers w"
  "driver (on_home_eof E g w) = driver w"
  "reverse (on_home_eof E g w) = reverse w"
  "claims (on_home_eof E g w) = claims w"
  "next_phone (on_home_eof E g w) = next_phone w"
  "reverse_seq (on_home_eof E g w) = reverse_seq w"
  "panicked (on_home_eof E g w) = panicked w"
  by (simp_all add: on_home_eof_def split: home.splits option.splits role.splits sum.splits incoming.splits
      prod.splits load_progress.splits)

lemma on_deadline_fields [simp, frame_simps]:
  "phones (on_deadline w) = phones w"
  "watchers (on_deadline w) = watchers w"
  "driver (on_deadline w) = driver w"
  "reverse (on_deadline w) = reverse w"
  "claims (on_deadline w) = claims w"
  "next_phone (on_deadline w) = next_phone w"
  "reverse_seq (on_deadline w) = reverse_seq w"
  "panicked (on_deadline w) = panicked w"
  by (simp_all add: on_deadline_def abort_def split: home.splits option.splits role.splits sum.splits incoming.splits
      prod.splits load_progress.splits)

lemma on_accepted_fields [simp, frame_simps]:
  "phones (on_accepted now o' h b w) = phones w"
  "watchers (on_accepted now o' h b w) = watchers w"
  "driver (on_accepted now o' h b w) = driver w"
  "reverse (on_accepted now o' h b w) = reverse w"
  "claims (on_accepted now o' h b w) = claims w"
  "next_phone (on_accepted now o' h b w) = next_phone w"
  "reverse_seq (on_accepted now o' h b w) = reverse_seq w"
  "panicked (on_accepted now o' h b w) = panicked w"
  by (simp_all add: on_accepted_def abort_def Let_def split: home.splits option.splits role.splits sum.splits incoming.splits
      prod.splits load_progress.splits)

lemma send_follower_initialize_fields [simp, frame_simps]:
  "phones (send_follower_initialize E l w) = phones w"
  "watchers (send_follower_initialize E l w) = watchers w"
  "driver (send_follower_initialize E l w) = driver w"
  "reverse (send_follower_initialize E l w) = reverse w"
  "claims (send_follower_initialize E l w) = claims w"
  "next_phone (send_follower_initialize E l w) = next_phone w"
  "reverse_seq (send_follower_initialize E l w) = reverse_seq w"
  "panicked (send_follower_initialize E l w) = panicked w"
  by (simp_all add: send_follower_initialize_def alloc_req_def Let_def split: home.splits option.splits role.splits sum.splits incoming.splits
      prod.splits load_progress.splits)

lemma finish_successor_fields [simp, frame_simps]:
  "phones (finish_successor E l s w) = phones w"
  "watchers (finish_successor E l s w) = watchers w"
  "driver (finish_successor E l s w) = driver w"
  "reverse (finish_successor E l s w) = reverse w"
  "claims (finish_successor E l s w) = claims w"
  "next_phone (finish_successor E l s w) = next_phone w"
  "reverse_seq (finish_successor E l s w) = reverse_seq w"
  "panicked (finish_successor E l s w) = panicked w"
  by (simp_all add: finish_successor_def cutover_def split: home.splits option.splits role.splits sum.splits incoming.splits
      prod.splits load_progress.splits)

lemma on_registered_fields [simp, frame_simps]:
  "phones (on_registered E now g r v w) = phones w"
  "watchers (on_registered E now g r v w) = watchers w"
  "driver (on_registered E now g r v w) = driver w"
  "reverse (on_registered E now g r v w) = reverse w"
  "claims (on_registered E now g r v w) = claims w"
  "next_phone (on_registered E now g r v w) = next_phone w"
  "reverse_seq (on_registered E now g r v w) = reverse_seq w"
  "panicked (on_registered E now g r v w) = panicked w"
  by (simp_all add: on_registered_def Let_def take_candidate_def split: home.splits option.splits role.splits sum.splits incoming.splits
      prod.splits load_progress.splits)

lemma on_leader_ready_fields [simp, frame_simps]:
  "phones (on_leader_ready E g w) = phones w"
  "watchers (on_leader_ready E g w) = watchers w"
  "driver (on_leader_ready E g w) = driver w"
  "reverse (on_leader_ready E g w) = reverse w"
  "claims (on_leader_ready E g w) = claims w"
  "next_phone (on_leader_ready E g w) = next_phone w"
  "reverse_seq (on_leader_ready E g w) = reverse_seq w"
  "panicked (on_leader_ready E g w) = panicked w"
  by (simp_all add: on_leader_ready_def Let_def take_candidate_def split: home.splits option.splits role.splits sum.splits incoming.splits
      prod.splits load_progress.splits)

text \<open>The loop over the loads is one \<open>emit\<close> and one batch of insertions.\<close>

definition load_effects :: "env \<Rightarrow> link \<Rightarrow> (home_req_id \<times> session_id) list \<Rightarrow> effect list" where
  "load_effects E l rs =
     map (\<lambda>(i, session). ToHome (out l) (acp (session_load E (req_num i) (session_name session)))) rs"

lemma fold_load_session:
  "fold (load_session E l) rs w =
     (emit (load_effects E l rs) w)
       \<lparr>outstanding := fold (\<lambda>r. hm_insert (fst r) HubLoad) rs (outstanding w)\<rparr>"
  by (induction rs arbitrary: w)
    (auto simp: load_session_def load_effects_def link_send_def emit_def)

lemma fold_load_session_fields [simp]:
  "home (fold (load_session E l) rs w) = home w" "phones (fold (load_session E l) rs w) = phones w"
  "watchers (fold (load_session E l) rs w) = watchers w"
  "driver (fold (load_session E l) rs w) = driver w"
  "reverse (fold (load_session E l) rs w) = reverse w"
  "claims (fold (load_session E l) rs w) = claims w"
  "next_phone (fold (load_session E l) rs w) = next_phone w"
  "next_req (fold (load_session E l) rs w) = next_req w"
  "next_gen (fold (load_session E l) rs w) = next_gen w"
  "reverse_seq (fold (load_session E l) rs w) = reverse_seq w"
  "refused_version (fold (load_session E l) rs w) = refused_version w"
  "panicked (fold (load_session E l) rs w) = panicked w"
  by (simp_all add: fold_load_session)

lemma after_follower_initialize_fields [simp, frame_simps]:
  "phones (after_follower_initialize E g w) = phones w"
  "watchers (after_follower_initialize E g w) = watchers w"
  "driver (after_follower_initialize E g w) = driver w"
  "reverse (after_follower_initialize E g w) = reverse w"
  "claims (after_follower_initialize E g w) = claims w"
  "next_phone (after_follower_initialize E g w) = next_phone w"
  "reverse_seq (after_follower_initialize E g w) = reverse_seq w"
  "panicked (after_follower_initialize E g w) = panicked w"
  by (simp_all add: after_follower_initialize_def Let_def take_candidate_def split: home.splits option.splits role.splits sum.splits incoming.splits
      prod.splits load_progress.splits)

lemma after_load_result_fields [simp, frame_simps]:
  "phones (after_load_result E g i w) = phones w"
  "watchers (after_load_result E g i w) = watchers w"
  "driver (after_load_result E g i w) = driver w"
  "reverse (after_load_result E g i w) = reverse w"
  "claims (after_load_result E g i w) = claims w"
  "next_phone (after_load_result E g i w) = next_phone w"
  "reverse_seq (after_load_result E g i w) = reverse_seq w"
  "panicked (after_load_result E g i w) = panicked w"
  by (simp_all add: after_load_result_def Let_def take_candidate_def split: home.splits option.splits role.splits sum.splits incoming.splits
      prod.splits load_progress.splits)

end
