(* ===== verification/Hub_Sessions.thy ===== *)
theory Hub_Sessions
  imports Hub_Frame
begin

text \<open>
  Who watches and who drives a session. The invariant \<open>session_inv\<close>: every watched session has a
  non-empty set of watchers, all of them initialized phones, and exactly one driver, who is one of
  the watchers; an unwatched session has none. Each operation that touches the three tables keeps
  it, and the tables after \<open>watch\<close>, \<open>unwatch\<close> and a phone's end are given entry by entry.
\<close>

section \<open>The invariant\<close>

definition ready_in :: "(phone_id, phone) hmap \<Rightarrow> phone_id \<Rightarrow> bool" where
  "ready_in ps p \<longleftrightarrow> (\<exists>c. hm_get ps p = Some (phone.Ready c))"

definition watch_ok :: "(phone_id, phone) hmap \<Rightarrow> phone_id hset \<Rightarrow> bool" where
  "watch_ok ps s \<longleftrightarrow> s \<noteq> [] \<and> distinct s \<and> (\<forall>p \<in> set s. ready_in ps p)"

definition drive_ok :: "phone_id hset option \<Rightarrow> phone_id option \<Rightarrow> bool" where
  "drive_ok ws d \<longleftrightarrow>
     (case ws of None \<Rightarrow> d = None | Some s \<Rightarrow> (case d of None \<Rightarrow> False | Some p \<Rightarrow> p \<in> set s))"

definition session_inv :: "world \<Rightarrow> bool" where
  "session_inv w \<longleftrightarrow>
     hm_wf (phones w) \<and> hm_wf (watchers w) \<and> hm_wf (driver w) \<and>
     (\<forall>s ws. hm_get (watchers w) s = Some ws \<longrightarrow> watch_ok (phones w) ws) \<and>
     (\<forall>s. drive_ok (hm_get (watchers w) s) (hm_get (driver w) s))"

lemma session_invI:
  assumes "hm_wf (phones w)" "hm_wf (watchers w)" "hm_wf (driver w)"
    and "\<And>s ws. hm_get (watchers w) s = Some ws \<Longrightarrow> watch_ok (phones w) ws"
    and "\<And>s. drive_ok (hm_get (watchers w) s) (hm_get (driver w) s)"
  shows "session_inv w"
  using assms by (simp add: session_inv_def)

lemma session_invD:
  assumes "session_inv w"
  shows "hm_wf (phones w)" "hm_wf (watchers w)" "hm_wf (driver w)"
    and "\<And>s ws. hm_get (watchers w) s = Some ws \<Longrightarrow> watch_ok (phones w) ws"
    and "\<And>s. drive_ok (hm_get (watchers w) s) (hm_get (driver w) s)"
  using assms by (simp_all add: session_inv_def)

text \<open>The invariant reads three tables only.\<close>

lemma session_inv_cong:
  "phones w' = phones w \<Longrightarrow> watchers w' = watchers w \<Longrightarrow> driver w' = driver w \<Longrightarrow>
   session_inv w' = session_inv w"
  by (simp add: session_inv_def)

lemma phone_ready_in: "phone_ready w p \<longleftrightarrow> ready_in (phones w) p"
  by (auto simp: phone_ready_def ready_in_def split: option.splits phone.splits)

lemma session_inv_new: "session_inv new"
  by (simp add: session_inv_def new_def drive_ok_def)

section \<open>Watching\<close>

lemma watch_not_ready: "\<not> phone_ready w p \<Longrightarrow> watch p s w = (Inl (), w)"
  by (auto simp: watch_def phone_ready_def split: option.splits phone.splits)

lemma watch_ready:
  assumes "phone_ready w p"
  shows "watch p s w = (Inr (), w
    \<lparr>watchers := hm_insert s (hs_insert p (case hm_get (watchers w) s of Some ws \<Rightarrow> ws | None \<Rightarrow> []))
        (watchers w),
     driver := (if hm_get (driver w) s = None then hm_insert s p (driver w) else driver w)\<rparr>)"
  using assms
  by (auto simp: watch_def phone_ready_def Let_def split: option.splits phone.splits)

lemma watch_watchers:
  "hm_get (watchers (snd (watch p s w))) t =
     (if t = s \<and> phone_ready w p
      then Some (hs_insert p (case hm_get (watchers w) s of Some ws \<Rightarrow> ws | None \<Rightarrow> []))
      else hm_get (watchers w) t)"
  by (cases "phone_ready w p") (simp_all add: watch_ready watch_not_ready)

lemma watch_driver:
  "hm_get (driver (snd (watch p s w))) t =
     (if t = s \<and> phone_ready w p \<and> hm_get (driver w) s = None then Some p
      else hm_get (driver w) t)"
  by (cases "phone_ready w p") (simp_all add: watch_ready watch_not_ready)

lemma watch_wf:
  "hm_wf (watchers w) \<Longrightarrow> hm_wf (watchers (snd (watch p s w)))"
  "hm_wf (driver w) \<Longrightarrow> hm_wf (driver (snd (watch p s w)))"
  by (cases "phone_ready w p"; simp add: watch_ready watch_not_ready)+

lemma drive_ok_insert:
  "drive_ok ws d \<Longrightarrow>
   drive_ok (Some (hs_insert p (case ws of Some s \<Rightarrow> s | None \<Rightarrow> []))) (if d = None then Some p else d)"
  by (cases ws; cases d) (simp_all add: drive_ok_def)

lemma watch_ok_insert:
  "ready_in ps p \<Longrightarrow> (\<And>s. ws = Some s \<Longrightarrow> watch_ok ps s) \<Longrightarrow>
   watch_ok ps (hs_insert p (case ws of Some s \<Rightarrow> s | None \<Rightarrow> []))"
  by (cases ws) (auto simp: watch_ok_def)

lemma watch_session_inv:
  assumes inv: "session_inv w"
  shows "session_inv (snd (watch p s w))"
proof (rule session_invI)
  let ?w = "snd (watch p s w)"
  note D = session_invD [OF inv]
  show "hm_wf (phones ?w)" "hm_wf (watchers ?w)" "hm_wf (driver ?w)"
    using D by (simp_all add: watch_wf)
  show "watch_ok (phones ?w) ws" if "hm_get (watchers ?w) t = Some ws" for t ws
    using that D(4) watch_ok_insert [of "phones w" p "hm_get (watchers w) s"]
    by (simp add: watch_watchers phone_ready_in split: if_splits)
  show "drive_ok (hm_get (watchers ?w) t) (hm_get (driver ?w) t)" for t
    using D(5) [of t] drive_ok_insert [OF D(5) [of s], of p]
    by (auto simp: watch_watchers watch_driver)
qed

lemma hs_remove_Nil_iff: "hs_remove p s = [] \<longleftrightarrow> (\<forall>q \<in> set s. q = p)"
  using hs.del_empty_iff [of p s] by (auto simp: hs_member_def)

lemma unwatch_other:
  "s' \<noteq> s \<Longrightarrow> hm_get (watchers (unwatch E p s w)) s' = hm_get (watchers w) s'"
  "s' \<noteq> s \<Longrightarrow> hm_get (driver (unwatch E p s w)) s' = hm_get (driver w) s'"
  by (simp_all add: unwatch_def Let_def split: option.splits)

lemma unwatch_watchers:
  "hm_get (watchers (unwatch E p s w)) s =
     Option.bind (hm_get (watchers w) s)
       (\<lambda>ws. if hs_remove p ws = [] then None else Some (hs_remove p ws))"
  by (simp add: unwatch_def Let_def split: option.splits)

lemma unwatch_driver:
  assumes "order_ok E" and "drive_ok (hm_get (watchers w) s) (hm_get (driver w) s)"
  shows "hm_get (driver (unwatch E p s w)) s =
     (if hm_get (driver w) s = Some p
      then Option.bind (hm_get (watchers w) s) (\<lambda>ws. hash_first E (hs_remove p ws))
      else hm_get (driver w) s)"
proof (cases "hm_get (watchers w) s")
  case None
  then show ?thesis using assms(2) by (simp add: unwatch_def drive_ok_def)
next
  case (Some ws)
  then obtain q where q: "hm_get (driver w) s = Some q" "q \<in> set ws"
    using assms(2) by (auto simp: drive_ok_def split: option.splits)
  show ?thesis
  proof (cases "hs_remove p ws = []")
    case True
    then have "q = p" using q(2) by (simp add: hs_remove_Nil_iff)
    moreover have "hash_first E (hs_remove p ws) = None"
      using True hash_first_None [OF assms(1)] by simp
    ultimately show ?thesis using Some True q(1) by (simp add: unwatch_def)
  next
    case False
    then obtain r where "hash_first E (hs_remove p ws) = Some r"
      using hash_first_None [OF assms(1)] by (metis not_None_eq)
    with Some False q(1) show ?thesis by (simp add: unwatch_def Let_def)
  qed
qed

lemma unwatch_wf:
  "hm_wf (watchers w) \<Longrightarrow> hm_wf (watchers (unwatch E p s w))"
  "hm_wf (driver w) \<Longrightarrow> hm_wf (driver (unwatch E p s w))"
  by (simp_all add: unwatch_def Let_def split: option.splits)

text \<open>
  Taking one phone out of the watchers of a session, and handing the session on if that phone
  drove it, is the same change in \<open>unwatch\<close> and in a phone's end.
\<close>

lemma drive_ok_remove:
  assumes "order_ok E" and "drive_ok ws d"
  shows "drive_ok
     (Option.bind ws (\<lambda>ws. if hs_remove p ws = [] then None else Some (hs_remove p ws)))
     (if d = Some p then Option.bind ws (\<lambda>ws. hash_first E (hs_remove p ws)) else d)"
proof (cases ws)
  case None
  then show ?thesis using assms(2) by (simp add: drive_ok_def)
next
  case (Some xs)
  then obtain q where q: "d = Some q" "q \<in> set xs"
    using assms(2) by (auto simp: drive_ok_def split: option.splits)
  show ?thesis
  proof (cases "hs_remove p xs = []")
    case True
    then have "q = p" using q(2) by (simp add: hs_remove_Nil_iff)
    moreover have "hash_first E (hs_remove p xs) = None"
      using True hash_first_None [OF assms(1)] by simp
    ultimately show ?thesis using Some True q(1) by (simp add: drive_ok_def)
  next
    case False
    then obtain r where "hash_first E (hs_remove p xs) = Some r" "r \<in> set (hs_remove p xs)"
      using hash_first_None [OF assms(1)] hash_first_Some [OF assms(1)] by (metis not_None_eq)
    with Some False q show ?thesis by (simp add: drive_ok_def)
  qed
qed

lemma watch_ok_remove:
  "watch_ok ps ws \<Longrightarrow> hs_remove p ws \<noteq> [] \<Longrightarrow> watch_ok ps (hs_remove p ws)"
  by (auto simp: watch_ok_def)

lemma unwatch_session_inv:
  assumes inv: "session_inv w" and ord: "order_ok E"
  shows "session_inv (unwatch E p s w)"
proof (rule session_invI)
  let ?w = "unwatch E p s w"
  note D = session_invD [OF inv]
  show "hm_wf (phones ?w)" "hm_wf (watchers ?w)" "hm_wf (driver ?w)"
    using D by (simp_all add: unwatch_wf)
  show "watch_ok (phones ?w) ws" if "hm_get (watchers ?w) t = Some ws" for t ws
    using that D(4) watch_ok_remove
    by (cases "t = s") (auto simp: unwatch_other unwatch_watchers split: bind_splits if_splits)
  show "drive_ok (hm_get (watchers ?w) t) (hm_get (driver ?w) t)" for t
    using D(5) [of t] drive_ok_remove [OF ord D(5) [of s], of p]
    by (cases "t = s") (simp_all add: unwatch_other unwatch_watchers unwatch_driver [OF ord D(5)])
qed

section \<open>Phones coming, initializing and going\<close>

lemma watch_ok_mono: "watch_ok ps s \<Longrightarrow> (\<And>p. ready_in ps p \<Longrightarrow> ready_in ps' p) \<Longrightarrow> watch_ok ps' s"
  by (auto simp: watch_ok_def)

lemma session_inv_phones:
  assumes inv: "session_inv w" and wf: "hm_wf (phones w')"
    and same: "watchers w' = watchers w" "driver w' = driver w"
    and keep: "\<And>p. ready_in (phones w) p \<Longrightarrow> ready_in (phones w') p"
  shows "session_inv w'"
proof (rule session_invI)
  show "watch_ok (phones w') ws" if "hm_get (watchers w') s = Some ws" for s ws
    using watch_ok_mono [OF session_invD(4) [OF inv]] keep that by (simp add: same)
qed (use session_invD [OF inv] wf same in simp_all)

lemma on_phone_hello_fields [simp]:
  "watchers (on_phone_hello o' b w) = watchers w" "driver (on_phone_hello o' b w) = driver w"
  "home (on_phone_hello o' b w) = home w" "outstanding (on_phone_hello o' b w) = outstanding w"
  "reverse (on_phone_hello o' b w) = reverse w" "claims (on_phone_hello o' b w) = claims w"
  "next_req (on_phone_hello o' b w) = next_req w" "next_gen (on_phone_hello o' b w) = next_gen w"
  "reverse_seq (on_phone_hello o' b w) = reverse_seq w" "panicked (on_phone_hello o' b w) = panicked w"
  "refused_version (on_phone_hello o' b w) = refused_version w"
  by (simp_all add: on_phone_hello_def Let_def)

lemma on_phone_hello_phones:
  "phones (on_phone_hello o' b w) =
   hm_insert (PhoneId (phone_num (next_phone w) + 1)) (Connected o') (phones w)"
  by (simp add: on_phone_hello_def Let_def)

lemma on_phone_hello_session_inv:
  assumes inv: "session_inv w"
    and fresh: "hm_get (phones w) (PhoneId (phone_num (next_phone w) + 1)) = None"
  shows "session_inv (on_phone_hello o' b w)"
proof -
  have "ready_in (phones (on_phone_hello o' b w)) p" if "ready_in (phones w) p" for p
    using that fresh by (auto simp: ready_in_def on_phone_hello_phones)
  moreover have "hm_wf (phones (on_phone_hello o' b w))"
    using session_invD(1) [OF inv] by (simp add: on_phone_hello_phones)
  ultimately show ?thesis by (intro session_inv_phones [OF inv]) simp_all
qed

lemma answer_initialize_fields [simp]:
  "watchers (answer_initialize E p i w) = watchers w" "driver (answer_initialize E p i w) = driver w"
  "home (answer_initialize E p i w) = home w"
  "outstanding (answer_initialize E p i w) = outstanding w"
  "reverse (answer_initialize E p i w) = reverse w" "claims (answer_initialize E p i w) = claims w"
  "next_phone (answer_initialize E p i w) = next_phone w"
  "next_req (answer_initialize E p i w) = next_req w"
  "next_gen (answer_initialize E p i w) = next_gen w"
  "reverse_seq (answer_initialize E p i w) = reverse_seq w"
  "panicked (answer_initialize E p i w) = panicked w"
  "refused_version (answer_initialize E p i w) = refused_version w"
  by (simp_all add: answer_initialize_def Let_def split: option.splits)

lemma answer_initialize_phones:
  "hm_get (phones (answer_initialize E p i w)) q =
     (if q = p then map_option (\<lambda>slot. phone.Ready (phone_out slot)) (hm_get (phones w) p)
      else hm_get (phones w) q)"
  by (simp add: answer_initialize_def Let_def split: option.splits)

lemma answer_initialize_wf:
  "hm_wf (phones w) \<Longrightarrow> hm_wf (phones (answer_initialize E p i w))"
  by (simp add: answer_initialize_def Let_def split: option.splits)

lemma answer_initialize_session_inv:
  assumes inv: "session_inv w"
  shows "session_inv (answer_initialize E p i w)"
proof -
  have "ready_in (phones (answer_initialize E p i w)) q" if "ready_in (phones w) q" for q
    using that by (auto simp: ready_in_def answer_initialize_phones)
  moreover have "hm_wf (phones (answer_initialize E p i w))"
    by (rule answer_initialize_wf [OF session_invD(1) [OF inv]])
  ultimately show ?thesis by (intro session_inv_phones [OF inv]) simp_all
qed

lemma hm_get_fold_pass_on:
  "hm_get (driver (fold (pass_on E) ss w)) s =
     (if s \<in> set ss then Option.bind (hm_get (watchers w) s) (hash_first E) else hm_get (driver w) s)"
proof (induction ss arbitrary: w)
  case (Cons t ts)
  then show ?case by (auto simp: pass_on_def split: option.splits)
qed simp

lemma hm_wf_fold_pass_on: "hm_wf (driver w) \<Longrightarrow> hm_wf (driver (fold (pass_on E) ss w))"
  by (induction ss arbitrary: w) (auto simp: pass_on_def split: option.splits)

lemma orphaned_iff:
  "hm_wf m \<Longrightarrow> s \<in> set (map fst (filter (\<lambda>(s, q). q = p) m)) \<longleftrightarrow> hm_get m s = Some p"
  by (force simp: hm_wf_def hm_get_def)

text \<open>What a phone's end leaves in the tables.\<close>

lemma on_phone_eof_fields [simp]:
  "home (on_phone_eof E p w) = home w" "phones (on_phone_eof E p w) = hm_remove p (phones w)"
  "outstanding (on_phone_eof E p w) = outstanding w" "claims (on_phone_eof E p w) = claims w"
  "next_phone (on_phone_eof E p w) = next_phone w" "next_req (on_phone_eof E p w) = next_req w"
  "next_gen (on_phone_eof E p w) = next_gen w" "reverse_seq (on_phone_eof E p w) = reverse_seq w"
  "panicked (on_phone_eof E p w) = panicked w" "effects (on_phone_eof E p w) = effects w"
  "refused_version (on_phone_eof E p w) = refused_version w"
  by (simp_all add: on_phone_eof_def Let_def)

lemma on_phone_eof_reverse:
  "hm_wf (reverse w) \<Longrightarrow> hm_get (reverse (on_phone_eof E p w)) (q, j) =
     (if q = p then None else hm_get (reverse w) (q, j))"
  by (cases "hm_get (reverse w) (q, j)") (simp_all add: on_phone_eof_def Let_def hm.get_retain)

lemma on_phone_eof_watchers:
  "hm_wf (watchers w) \<Longrightarrow> hm_get (watchers (on_phone_eof E p w)) s =
     Option.bind (hm_get (watchers w) s)
       (\<lambda>ws. if hs_remove p ws = [] then None else Some (hs_remove p ws))"
  by (simp add: on_phone_eof_def Let_def hm.get_retain)

lemma on_phone_eof_driver:
  assumes "hm_wf (watchers w)" and "hm_wf (driver w)"
  shows "hm_get (driver (on_phone_eof E p w)) s =
     (if hm_get (driver w) s = Some p
      then Option.bind (hm_get (watchers (on_phone_eof E p w)) s) (hash_first E)
      else hm_get (driver w) s)"
  using orphaned_iff [OF assms(2), of s p]
  by (simp add: on_phone_eof_def Let_def hm_get_fold_pass_on)

lemma on_phone_eof_wf:
  assumes "hm_wf (watchers w)" and "hm_wf (driver w)" and "hm_wf (reverse w)"
  shows "hm_wf (watchers (on_phone_eof E p w))" "hm_wf (driver (on_phone_eof E p w))"
    "hm_wf (reverse (on_phone_eof E p w))"
  using assms by (simp_all add: on_phone_eof_def Let_def hm_wf_fold_pass_on)

lemma on_phone_eof_session_inv:
  assumes inv: "session_inv w" and ord: "order_ok E"
  shows "session_inv (on_phone_eof E p w)"
proof (rule session_invI)
  let ?w = "on_phone_eof E p w"
  note wf = session_invD(1-3) [OF inv]
  note ws_eq = on_phone_eof_watchers [OF wf(2), where E = E and p = p]
  show "hm_wf (phones ?w)" using wf by simp
  show "hm_wf (watchers ?w)" and "hm_wf (driver ?w)"
    using wf by (simp_all add: on_phone_eof_def Let_def hm_wf_fold_pass_on)
  show "watch_ok (phones ?w) ws" if "hm_get (watchers ?w) s = Some ws" for s ws
    using that session_invD(4) [OF inv, of s]
    by (auto simp: ws_eq watch_ok_def ready_in_def split: bind_splits if_splits)
  have "hm_get (driver ?w) s = (if hm_get (driver w) s = Some p
      then Option.bind (hm_get (watchers w) s) (\<lambda>ws. hash_first E (hs_remove p ws))
      else hm_get (driver w) s)" for s
    using hash_first_None [OF ord, of "[]"]
    by (cases "hm_get (watchers w) s") (simp_all add: on_phone_eof_driver wf ws_eq)
  then show "drive_ok (hm_get (watchers ?w) s) (hm_get (driver ?w) s)" for s
    using drive_ok_remove [OF ord session_invD(5) [OF inv, of s], of p] by (simp add: ws_eq)
qed

end
