(* ===== verification/Loads.thy ===== *)
theory Loads
  imports Hub
begin

text \<open>
  \<open>PendingLoads\<close>: the session loads a successor still has to answer. \<open>start\<close> asks for every watched
  session once under fresh, increasing ids; \<open>loaded\<close> crosses one session off per answered id and
  reports \<open>Done\<close> exactly when the last one is answered.
\<close>

section \<open>Allocating ids\<close>

lemma alloc_each_bump:
  assumes "has_room (req_num n) (length xs)"
  shows "map snd (fst (alloc_each bump_req xs n)) = xs"
    and "map fst (fst (alloc_each bump_req xs n)) =
           map (\<lambda>k. HomeReqId (req_num n + word_of_nat (Suc k))) [0..<length xs]"
    and "snd (alloc_each bump_req xs n) = HomeReqId (req_num n + word_of_nat (length xs))"
  using assms
proof (induction xs arbitrary: n)
  case Nil
  { case 1 then show ?case by simp }
  { case 2 then show ?case by simp }
  { case 3 then show ?case by (cases n) simp }
next
  case (Cons x xs)
  have up: "[0..<Suc (length xs)] = 0 # map Suc [0..<length xs]"
    by (simp only: upt_conv_Cons zero_less_Suc map_Suc_upt)
  have room: "has_room (req_num (HomeReqId (req_num n + 1))) (length xs)"
    if "has_room (req_num n) (length (x # xs))" for n
    using that by (simp add: has_room_bump)
  { case 1
    from Cons.IH(1) [OF room [OF this]] show ?case
      by (simp add: bump_req_def Let_def case_prod_beta) }
  { case 2
    from Cons.IH(2) [OF room [OF this]] show ?case
      by (simp add: bump_req_def Let_def case_prod_beta up add.assoc del: upt_Suc) }
  { case 3
    from Cons.IH(3) [OF room [OF this]] show ?case
      by (simp add: bump_req_def Let_def case_prod_beta add.assoc) }
qed

lemma bumped_less:
  assumes "has_room c m" and "i < j" and "j \<le> m"
  shows "c + word_of_nat i < c + word_of_nat j"
  using assms unat_add_room [of c m i] unat_add_room [of c m j]
  by (simp add: word_less_nat_alt)

lemma bumped_sorted:
  assumes "has_room c m"
  shows "sorted_wrt (<) (map (\<lambda>k. HomeReqId (c + word_of_nat (Suc k))) [0..<m])"
  using bumped_less [OF assms, of "Suc _" "Suc _"]
  by (auto simp: sorted_wrt_iff_nth_less simp del: of_nat_Suc)

section \<open>The loads of a successor\<close>

definition pending_ok :: "pending_loads \<Rightarrow> bool" where
  "pending_ok p \<longleftrightarrow>
     remaining p \<noteq> [] \<and> distinct (remaining p) \<and> bt_wf (load_ids p) \<and>
     distinct (map snd (load_ids p)) \<and> set (map snd (load_ids p)) = set (remaining p)"

lemma start_loads_None: "fst (start_loads ws alloc s) = None \<longleftrightarrow> ws = []"
  by (simp add: start_loads_def Let_def split: prod.split)

lemma start_loads_Nil: "start_loads [] alloc s = (None, s)"
  by (simp add: start_loads_def bts_collect_def)

lemma length_bts_collect: "length (bts_collect xs) \<le> length xs"
  by (simp add: bts_collect_def length_remdups_leq)

lemma start_loads_bump:
  assumes room: "has_room (req_num n) (length ws)" and ne: "ws \<noteq> []"
  shows "\<exists>p. start_loads ws bump_req n = (Some p, HomeReqId (req_num n + word_of_nat (length (remaining p)))) \<and>
     pending_ok p \<and> remaining p = bts_collect ws \<and> map snd (load_ids p) = bts_collect ws \<and>
     map fst (load_ids p) =
       map (\<lambda>k. HomeReqId (req_num n + word_of_nat (Suc k))) [0..<length (bts_collect ws)]"
proof -
  let ?rem = "bts_collect ws"
  from room have room': "has_room (req_num n) (length ?rem)"
    using has_room_mono length_bts_collect by blast
  obtain pairs n' where a: "alloc_each bump_req ?rem n = (pairs, n')" by fastforce
  note A = alloc_each_bump [OF room', unfolded a fst_conv snd_conv]
  have keys: "sorted_wrt (<) (map fst pairs)"
    unfolding A(2) by (rule bumped_sorted [OF room'])
  then have ids: "bt_collect pairs = pairs" by (rule bt_collect_sorted)
  let ?p = "\<lparr>remaining = ?rem, load_ids = pairs\<rparr>"
  have "start_loads ws bump_req n = (Some ?p, n')"
    using ne by (simp add: start_loads_def a ids)
  moreover have "pending_ok ?p"
    using A(1) keys ne by (simp add: pending_ok_def bt_wf_def)
  ultimately show ?thesis using A by auto
qed

lemma loaded_Ignore: "bt_get (load_ids p) i = None \<Longrightarrow> loaded p i = Ignore p"
  by (simp add: loaded_def)

text \<open>A \<open>BTreeMap\<close> without one of its keys.\<close>

lemma remove_split:
  assumes "bt_wf m" and "bt_get m i = Some s"
  shows "\<exists>xs ys. m = xs @ (i, s) # ys \<and> bt_remove i m = xs @ ys"
proof -
  from assms(2) have "(i, s) \<in> set m" by (simp add: bt_get_def map_of_SomeD)
  then obtain xs ys where m: "m = xs @ (i, s) # ys" by (auto dest: split_list)
  with assms(1) have "i \<notin> fst ` set xs" and "i \<notin> fst ` set ys"
    by (auto simp: bt_wf_def sorted_wrt_append)
  moreover have "filter (\<lambda>(k, v). k \<noteq> i) zs = zs" if "i \<notin> fst ` set zs" for zs :: "('a \<times> 'b) list"
    using that by (force simp: filter_id_conv)
  ultimately have "bt_remove i m = xs @ ys" by (simp add: bt_remove_def m)
  with m show ?thesis by blast
qed

lemma loaded_Some:
  assumes ok: "pending_ok p" and got: "bt_get (load_ids p) i = Some s"
  shows "s \<in> set (remaining p)"
    and "loaded p i = (if length (load_ids p) = 1 then Done
           else More (p\<lparr>load_ids := bt_remove i (load_ids p),
                        remaining := filter (\<lambda>t. t \<noteq> s) (remaining p)\<rparr>))"
    and "length (load_ids p) \<noteq> 1 \<Longrightarrow>
           pending_ok (p\<lparr>load_ids := bt_remove i (load_ids p),
                         remaining := filter (\<lambda>t. t \<noteq> s) (remaining p)\<rparr>)"
    and "length (bt_remove i (load_ids p)) = length (load_ids p) - 1"
proof -
  from ok have wf: "bt_wf (load_ids p)" by (simp add: pending_ok_def)
  from remove_split [OF wf got] obtain xs ys
    where m: "load_ids p = xs @ (i, s) # ys" and r: "bt_remove i (load_ids p) = xs @ ys" by blast
  from ok have rem: "set (remaining p) = insert s (set (map snd (xs @ ys)))"
    and new: "s \<notin> set (map snd (xs @ ys))" and dist: "distinct (map snd (xs @ ys))"
    by (auto simp: pending_ok_def m)
  show "s \<in> set (remaining p)" by (simp add: rem)
  have left: "set (filter (\<lambda>t. t \<noteq> s) (remaining p)) = set (map snd (xs @ ys))"
    using rem new by auto
  then have empty: "filter (\<lambda>t. t \<noteq> s) (remaining p) = [] \<longleftrightarrow> xs @ ys = []"
    by (metis list.map_disc_iff set_empty)
  moreover have "length (load_ids p) = 1 \<longleftrightarrow> xs @ ys = []" by (simp add: m)
  ultimately show "loaded p i = (if length (load_ids p) = 1 then Done
      else More (p\<lparr>load_ids := bt_remove i (load_ids p),
                   remaining := filter (\<lambda>t. t \<noteq> s) (remaining p)\<rparr>))"
    by (simp add: loaded_def got)
  show "length (bt_remove i (load_ids p)) = length (load_ids p) - 1"
    by (simp add: r) (simp add: m)
  show "pending_ok (p\<lparr>load_ids := bt_remove i (load_ids p),
      remaining := filter (\<lambda>t. t \<noteq> s) (remaining p)\<rparr>)" if "length (load_ids p) \<noteq> 1"
  proof -
    from that have "xs @ ys \<noteq> []" by (simp add: m)
    moreover have "bt_wf (bt_remove i (load_ids p))" using wf by simp
    moreover have "distinct (filter (\<lambda>t. t \<noteq> s) (remaining p))"
      using ok by (simp add: pending_ok_def)
    ultimately show ?thesis using empty left dist by (simp add: pending_ok_def r)
  qed
qed

lemma loaded_More_ok: "pending_ok p \<Longrightarrow> loaded p i = More p' \<Longrightarrow> pending_ok p'"
  by (cases "bt_get (load_ids p) i") (auto simp: loaded_Some loaded_Ignore split: if_splits)

lemma loaded_Ignore_same: "loaded p i = Ignore p' \<Longrightarrow> p' = p"
  by (auto simp: loaded_def Let_def split: option.splits if_splits)

end
