(* ===== verification/Hub_Ids.thy ===== *)
theory Hub_Ids
  imports Hub_Sessions Loads
begin

text \<open>
  The numbers the hub hands out. While its counters have room (\<open>counters_room\<close>) a new request id,
  phone id or reverse id is in none of the tables, every key of a table is at most the counter it
  came from, and an entry of \<open>reverse\<close> points at a claim and belongs to a connected phone.
\<close>

section \<open>Reverse ids\<close>

lemma reverse_name_eq_iff [simp]: "reverse_name m = reverse_name n \<longleftrightarrow> m = n"
  by (simp add: reverse_name_def flip: word_unat_eq_iff)

definition reverse_id :: "u64 \<Rightarrow> json_id" where
  "reverse_id n = JsonId (String (reverse_name n))"

lemma reverse_id_eq_iff [simp]: "reverse_id m = reverse_id n \<longleftrightarrow> m = n"
  by (simp add: reverse_id_def)

section \<open>The invariant\<close>

definition reverse_ok :: "world \<Rightarrow> phone_id \<Rightarrow> json_id \<Rightarrow> home_req_id \<Rightarrow> bool" where
  "reverse_ok w p j k \<longleftrightarrow>
     (\<exists>n \<le> reverse_seq w. j = reverse_id n) \<and> hm_get (claims w) k \<noteq> None \<and> hm_get (phones w) p \<noteq> None"

definition ids_inv :: "world \<Rightarrow> bool" where
  "ids_inv w \<longleftrightarrow>
     hm_wf (outstanding w) \<and> hm_wf (claims w) \<and> hm_wf (reverse w) \<and>
     (\<forall>i. hm_get (outstanding w) i \<noteq> None \<longrightarrow> i \<le> next_req w) \<and>
     (\<forall>i. hm_get (claims w) i \<noteq> None \<longrightarrow> i \<le> next_req w) \<and>
     (\<forall>p j k. hm_get (reverse w) (p, j) = Some k \<longrightarrow> reverse_ok w p j k) \<and>
     (\<forall>p q j. hm_get (reverse w) (p, j) \<noteq> None \<longrightarrow> hm_get (reverse w) (q, j) \<noteq> None \<longrightarrow> p = q) \<and>
     (\<forall>p. hm_get (phones w) p \<noteq> None \<longrightarrow> phone_num p \<le> phone_num (next_phone w))"

lemma ids_invI:
  assumes "hm_wf (outstanding w)" "hm_wf (claims w)" "hm_wf (reverse w)"
    and "\<And>i. hm_get (outstanding w) i \<noteq> None \<Longrightarrow> i \<le> next_req w"
    and "\<And>i. hm_get (claims w) i \<noteq> None \<Longrightarrow> i \<le> next_req w"
    and "\<And>p j k. hm_get (reverse w) (p, j) = Some k \<Longrightarrow> reverse_ok w p j k"
    and "\<And>p q j. hm_get (reverse w) (p, j) \<noteq> None \<Longrightarrow> hm_get (reverse w) (q, j) \<noteq> None \<Longrightarrow> p = q"
    and "\<And>p. hm_get (phones w) p \<noteq> None \<Longrightarrow> phone_num p \<le> phone_num (next_phone w)"
  shows "ids_inv w"
  using assms unfolding ids_inv_def by blast

lemma ids_invD:
  assumes "ids_inv w"
  shows "hm_wf (outstanding w)" "hm_wf (claims w)" "hm_wf (reverse w)"
    and "\<And>i. hm_get (outstanding w) i \<noteq> None \<Longrightarrow> i \<le> next_req w"
    and "\<And>i. hm_get (claims w) i \<noteq> None \<Longrightarrow> i \<le> next_req w"
    and "\<And>p j k. hm_get (reverse w) (p, j) = Some k \<Longrightarrow> reverse_ok w p j k"
    and "\<And>p q j. hm_get (reverse w) (p, j) \<noteq> None \<Longrightarrow> hm_get (reverse w) (q, j) \<noteq> None \<Longrightarrow> p = q"
    and "\<And>p. hm_get (phones w) p \<noteq> None \<Longrightarrow> phone_num p \<le> phone_num (next_phone w)"
  using assms unfolding ids_inv_def by blast+

lemma ids_inv_new: "ids_inv new"
  by (simp add: ids_inv_def new_def)

text \<open>The room the counters need for any one event.\<close>

definition counters_room :: "world \<Rightarrow> bool" where
  "counters_room w \<longleftrightarrow>
     has_room (gen_num (next_gen w)) 1 \<and> has_room (phone_num (next_phone w)) 1 \<and>
     has_room (req_num (next_req w)) (length (watchers w) + 1) \<and>
     has_room (reverse_seq w) 1 \<and>
     (\<forall>x \<in> set (watchers w). has_room (reverse_seq w) (length (snd x)))"

lemma counters_roomD:
  assumes "counters_room w"
  shows "has_room (gen_num (next_gen w)) 1" "has_room (phone_num (next_phone w)) 1"
    "has_room (req_num (next_req w)) 1" "has_room (req_num (next_req w)) (length (watchers w))"
    "has_room (reverse_seq w) 1"
    "hm_get (watchers w) s = Some ws \<Longrightarrow> has_room (reverse_seq w) (length ws)"
proof -
  show "has_room (reverse_seq w) (length ws)" if "hm_get (watchers w) s = Some ws"
    using assms map_of_SomeD [of "watchers w" s ws] that
    by (auto simp: counters_room_def hm_get_def dest!: bspec [of _ _ "(s, ws)"])
qed (use assms in \<open>auto simp: counters_room_def intro: has_room_mono\<close>)

section \<open>Fresh numbers\<close>

lemma next_req_less:
  "has_room (req_num n) 1 \<Longrightarrow> n < HomeReqId (req_num n + 1)"
  by (simp add: less_home_req_id_def less_bump)

lemma fresh_req:
  assumes "ids_inv w" and "has_room (req_num (next_req w)) 1"
  shows "hm_get (outstanding w) (HomeReqId (req_num (next_req w) + 1)) = None"
    and "hm_get (claims w) (HomeReqId (req_num (next_req w) + 1)) = None"
  using ids_invD(4,5) [OF assms(1)] next_req_less [OF assms(2)] by (meson leD)+

lemma fresh_phone:
  assumes "ids_inv w" and "has_room (phone_num (next_phone w)) 1"
  shows "hm_get (phones w) (PhoneId (phone_num (next_phone w) + 1)) = None"
  using ids_invD(8) [OF assms(1), of "PhoneId (phone_num (next_phone w) + 1)"]
    less_bump [OF assms(2)] by force

lemma fresh_reverse:
  assumes "ids_inv w" and "has_room (reverse_seq w) 1"
  shows "hm_get (reverse w) (p, reverse_id (reverse_seq w + 1)) = None"
proof (rule ccontr)
  assume "hm_get (reverse w) (p, reverse_id (reverse_seq w + 1)) \<noteq> None"
  then obtain n where "n \<le> reverse_seq w" "n = reverse_seq w + 1"
    using ids_invD(6) [OF assms(1), of p "reverse_id (reverse_seq w + 1)"]
    by (auto simp: reverse_ok_def)
  with less_bump [OF assms(2)] show False by auto
qed

section \<open>Requests towards home\<close>

text \<open>
  A step that only adds fresh ids to \<open>outstanding\<close> (or removes some) and leaves the rest of what
  the invariant reads alone.
\<close>

definition req_step :: "world \<Rightarrow> world \<Rightarrow> bool" where
  "req_step w w' \<longleftrightarrow>
     (hm_wf (outstanding w) \<longrightarrow> hm_wf (outstanding w')) \<and> next_req w \<le> next_req w' \<and>
     (\<forall>i. hm_get (outstanding w') i \<noteq> None \<longrightarrow>
          hm_get (outstanding w) i \<noteq> None \<or> next_req w < i \<and> i \<le> next_req w') \<and>
     claims w' = claims w \<and> reverse w' = reverse w \<and> reverse_seq w' = reverse_seq w \<and>
     phones w' = phones w \<and> next_phone w' = next_phone w"

lemma req_step_refl: "req_step w w"
  by (simp add: req_step_def)

lemma req_step_trans:
  assumes "req_step u v" and "req_step v w"
  shows "req_step u w"
proof -
  from assms have le: "next_req u \<le> next_req v" "next_req v \<le> next_req w"
    by (simp_all add: req_step_def)
  have "hm_get (outstanding u) i \<noteq> None \<or> next_req u < i \<and> i \<le> next_req w"
    if "hm_get (outstanding w) i \<noteq> None" for i
  proof -
    from that assms(2) have "hm_get (outstanding v) i \<noteq> None \<or> next_req v < i \<and> i \<le> next_req w"
      unfolding req_step_def by blast
    moreover have "hm_get (outstanding v) i \<noteq> None \<Longrightarrow>
        hm_get (outstanding u) i \<noteq> None \<or> next_req u < i \<and> i \<le> next_req v"
      using assms(1) unfolding req_step_def by blast
    ultimately show ?thesis using le by force
  qed
  with assms le show ?thesis unfolding req_step_def by (intro conjI) simp_all
qed

lemma req_step_ids_inv:
  assumes "req_step w w'" and "ids_inv w"
  shows "ids_inv w'"
proof (rule ids_invI)
  note D = ids_invD [OF assms(2)]
  from assms(1) have le: "next_req w \<le> next_req w'"
    and same: "claims w' = claims w" "reverse w' = reverse w" "reverse_seq w' = reverse_seq w"
      "phones w' = phones w" "next_phone w' = next_phone w"
    by (simp_all add: req_step_def)
  show "hm_wf (outstanding w')" using assms(1) D(1) by (simp add: req_step_def)
  show "hm_wf (claims w')" and "hm_wf (reverse w')" using D by (simp_all add: same)
  show "i \<le> next_req w'" if "hm_get (outstanding w') i \<noteq> None" for i
    using that assms(1) D(4) [of i] le by (auto simp: req_step_def)
  show "i \<le> next_req w'" if "hm_get (claims w') i \<noteq> None" for i
    using that D(5) [of i] le by (simp add: same)
  show "reverse_ok w' p j k" if "hm_get (reverse w') (p, j) = Some k" for p j k
    using that D(6) [of p j k] by (simp add: same reverse_ok_def)
  show "p = q" if "hm_get (reverse w') (p, j) \<noteq> None" "hm_get (reverse w') (q, j) \<noteq> None" for p q j
    using that D(7) [of p j q] by (simp add: same)
  show "phone_num p \<le> phone_num (next_phone w')" if "hm_get (phones w') p \<noteq> None" for p
    using that D(8) [of p] by (simp add: same)
qed

text \<open>Steps that do not touch the tables at all.\<close>

lemma req_step_same:
  assumes "outstanding w' = outstanding w" "next_req w' = next_req w" "claims w' = claims w"
    "reverse w' = reverse w" "reverse_seq w' = reverse_seq w" "phones w' = phones w"
    "next_phone w' = next_phone w"
  shows "req_step w w'"
  using assms by (simp add: req_step_def)

lemma req_step_remove: "req_step w (w\<lparr>outstanding := hm_remove i (outstanding w)\<rparr>)"
  by (auto simp: req_step_def)

lemma req_step_alloc:
  assumes "has_room (req_num (next_req w)) 1"
  shows "req_step w (w\<lparr>next_req := HomeReqId (req_num (next_req w) + 1),
    outstanding := hm_insert (HomeReqId (req_num (next_req w) + 1)) x (outstanding w)\<rparr>)"
  using next_req_less [OF assms] by (auto simp: req_step_def)

lemma req_step_bump:
  assumes "has_room (req_num (next_req w)) 1"
  shows "req_step w (w\<lparr>next_req := HomeReqId (req_num (next_req w) + 1)\<rparr>)"
  using next_req_less [OF assms] by (auto simp: req_step_def)

lemma send_follower_initialize_step:
  assumes "has_room (req_num (next_req w)) 1"
  shows "req_step w (send_follower_initialize E l w)"
  using req_step_trans [OF req_step_alloc [OF assms] req_step_same]
  by (simp add: send_follower_initialize_def alloc_req_def Let_def)


text \<open>The home-side handlers are such steps.\<close>

lemma req_step_home:
  assumes "outstanding w' = outstanding w" "next_req w' = next_req w" "claims w' = claims w"
    "reverse w' = reverse w" "reverse_seq w' = reverse_seq w" "phones w' = phones w"
    "next_phone w' = next_phone w" "req_step w' w''"
  shows "req_step w w''"
  using req_step_trans [OF req_step_same] assms by blast

lemma home_handlers_same [simp]:
  "outstanding (fail_incoming g w) = outstanding w" "next_req (fail_incoming g w) = next_req w"
  "outstanding (on_home_eof E g w) = outstanding w" "next_req (on_home_eof E g w) = next_req w"
  "outstanding (on_deadline w) = outstanding w" "next_req (on_deadline w) = next_req w"
  "outstanding (on_accepted now o' h b w) = outstanding w"
  "next_req (on_accepted now o' h b w) = next_req w"
  "outstanding (finish_successor E l s w) = outstanding w"
  "next_req (finish_successor E l s w) = next_req w"
  "outstanding (after_load_result E g i w) = outstanding w"
  "next_req (after_load_result E g i w) = next_req w"
  by (simp_all add: fail_incoming_def on_home_eof_def on_deadline_def on_accepted_def
      finish_successor_def after_load_result_def abort_def cutover_def Let_def take_candidate_def
      split: home.splits option.splits role.splits sum.splits incoming.splits prod.splits
        load_progress.splits)

lemma take_candidate_step: "req_step w (snd (take_candidate g w))"
  by (rule req_step_same) simp_all

lemma on_registered_step:
  assumes "has_room (req_num (next_req w)) 1"
  shows "req_step w (on_registered E now g r v w)"
proof -
  have put: "req_step u (put_candidate i slot u')" if "req_step u u'" for u u' i slot
    using req_step_trans [OF that req_step_same] by simp
  let ?t = "take_candidate g (w\<lparr>refused_version := None\<rparr>)"
  have take: "req_step w (snd ?t)" by (rule req_step_same) simp_all
  have init: "req_step w (send_follower_initialize E l (snd ?t))" for l
    by (rule req_step_trans [OF take send_follower_initialize_step]) (use assms in simp)
  obtain c u where t: "?t = (c, u)" by fastforce
  have "req_step w (fail_incoming g (w\<lparr>refused_version := Some v\<rparr>))"
    by (rule req_step_same) simp_all
  moreover have "req_step w (put_candidate i slot u)" for i slot
    using put [OF take] by (simp add: t)
  moreover have "req_step w (put_candidate i slot (send_follower_initialize E l u))" for i slot l
    using put [OF init] by (simp add: t)
  ultimately show ?thesis
    using take by (auto simp: on_registered_def t Let_def split: option.splits incoming.splits prod.splits)
qed

lemma on_leader_ready_step:
  assumes "has_room (req_num (next_req w)) 1"
  shows "req_step w (on_leader_ready E g w)"
proof -
  have put: "req_step u (put_candidate i slot u')" if "req_step u u'" for u u' i slot
    using req_step_trans [OF that req_step_same] by simp
  let ?t = "take_candidate g w"
  have take: "req_step w (snd ?t)" by (rule req_step_same) simp_all
  have init: "req_step w (send_follower_initialize E l (snd ?t))" for l
    by (rule req_step_trans [OF take send_follower_initialize_step]) (use assms in simp)
  obtain c u where t: "?t = (c, u)" by fastforce
  have "req_step w (put_candidate i slot u)" for i slot
    using put [OF take] by (simp add: t)
  moreover have "req_step w (put_candidate i slot (send_follower_initialize E l u))" for i slot l
    using put [OF init] by (simp add: t)
  ultimately show ?thesis
    using take by (auto simp: on_leader_ready_def t Let_def split: option.splits incoming.splits prod.splits)
qed

text \<open>The loads take the numbers right after the counter.\<close>

lemma load_ids_new:
  assumes room: "has_room (req_num (next_req w)) (length (watchers w))"
    and start: "start_loads (hm_keys (watchers w)) bump_req (next_req w) = (Some p, n)"
  shows "next_req w \<le> n" and "i \<in> set (map fst (load_ids p)) \<Longrightarrow> next_req w < i \<and> i \<le> n"
proof -
  let ?ws = "hm_keys (watchers w)"
  let ?k = "length (bts_collect ?ws)"
  have len: "?k \<le> length (watchers w)"
    using length_bts_collect [of ?ws] by (simp add: hm_keys_def)
  have ne: "?ws \<noteq> []"
    using start start_loads_None [of ?ws bump_req "next_req w"] by simp
  have room': "has_room (req_num (next_req w)) (length ?ws)" using room by (simp add: hm_keys_def)
  from start_loads_bump [OF room' ne] start
  have n: "n = HomeReqId (req_num (next_req w) + word_of_nat ?k)"
    and ids: "map fst (load_ids p) = map (\<lambda>k. HomeReqId (req_num (next_req w) + word_of_nat (Suc k))) [0..<?k]"
    by auto
  have roomk: "has_room (req_num (next_req w)) ?k" by (rule has_room_mono [OF room len])
  show "next_req w \<le> n"
    using unat_add_room [OF roomk, of ?k] by (simp add: n less_eq_home_req_id_def word_le_nat_alt)
  assume "i \<in> set (map fst (load_ids p))"
  then obtain k where "k < ?k" "i = HomeReqId (req_num (next_req w) + word_of_nat (Suc k))"
    by (auto simp: ids simp del: of_nat_Suc)
  then show "next_req w < i \<and> i \<le> n"
    using unat_add_room [OF roomk, of "Suc k"] unat_add_room [OF roomk, of ?k]
    by (simp add: n less_home_req_id_def less_eq_home_req_id_def word_less_nat_alt word_le_nat_alt
        del: of_nat_Suc)
qed

text \<open>Asking for the loads leaves the entries of other numbers alone.\<close>

lemma fold_load_session_other:
  "i \<notin> set (map fst rs) \<Longrightarrow>
   hm_get (outstanding (fold (load_session E l) rs w)) i = hm_get (outstanding w) i"
  using hm.get_fold_insert_other [of i fst rs "\<lambda>_. HubLoad"] by (simp add: fold_load_session)

lemma load_requests_step:
  assumes room: "has_room (req_num (next_req w)) (length (watchers w))"
    and start: "start_loads (hm_keys (watchers w)) bump_req (next_req w) = (Some p, n)"
  shows "req_step w (fold (load_session E l) (requests p) (w\<lparr>next_req := n\<rparr>))"
  unfolding req_step_def
proof (intro conjI allI impI)
  fix i
  assume "hm_get (outstanding (fold (load_session E l) (requests p) (w\<lparr>next_req := n\<rparr>))) i \<noteq> None"
  then show "hm_get (outstanding w) i \<noteq> None \<or> next_req w < i \<and>
      i \<le> next_req (fold (load_session E l) (requests p) (w\<lparr>next_req := n\<rparr>))"
    using load_ids_new(2) [OF assms, of i] fold_load_session_other [of i "requests p" E l "w\<lparr>next_req := n\<rparr>"]
    by (cases "i \<in> set (map fst (load_ids p))") (simp_all add: requests_def)
qed (use load_ids_new(1) [OF assms] in \<open>simp_all add: fold_load_session hm.wf_fold_insert\<close>)

lemma after_follower_initialize_step:
  assumes "has_room (req_num (next_req w)) (length (watchers w))"
  shows "req_step w (after_follower_initialize E g w)"
proof -
  obtain c u where t: "take_candidate g w = (c, u)" by fastforce
  have take: "req_step w u"
    using take_candidate_step [of w g] by (simp add: t)
  have u: "watchers u = watchers w" "next_req u = next_req w"
    using take_candidate_fields(2,8) [of g w] by (simp_all add: t)
  have put: "req_step w (put_candidate i slot v)" if "req_step u v" for i slot v
    using req_step_trans [OF take req_step_trans [OF that req_step_same]] by simp
  obtain pending n where st: "start_loads (hm_keys (watchers u)) bump_req (next_req u) = (pending, n)"
    by fastforce
  show ?thesis
  proof (cases pending)
    case None
    then have "n = next_req u"
      using st start_loads_None [of "hm_keys (watchers u)" bump_req "next_req u"]
      by (auto simp: start_loads_Nil)
    then have "req_step w (finish_successor E l slot (u\<lparr>next_req := n\<rparr>))" for l slot
      by (intro req_step_trans [OF take req_step_same]) simp_all
    with None take put [OF req_step_refl] st show ?thesis
      by (auto simp: after_follower_initialize_def t Let_def split: option.splits incoming.splits prod.splits)
  next
    case (Some p)
    have "req_step u (fold (load_session E l) (requests p) (u\<lparr>next_req := n\<rparr>))" for l
      using load_requests_step [of u p n] assms st Some by (simp add: u)
    with Some take put [OF req_step_refl] put st show ?thesis
      by (auto simp: after_follower_initialize_def t Let_def split: option.splits incoming.splits prod.splits)
  qed
qed


section \<open>What phones and home do to the tables\<close>

lemma panic_fields [simp]:
  "home (panic w) = home w" "phones (panic w) = phones w" "watchers (panic w) = watchers w"
  "driver (panic w) = driver w" "outstanding (panic w) = outstanding w"
  "reverse (panic w) = reverse w" "claims (panic w) = claims w"
  "next_phone (panic w) = next_phone w" "next_req (panic w) = next_req w"
  "next_gen (panic w) = next_gen w" "reverse_seq (panic w) = reverse_seq w"
  "refused_version (panic w) = refused_version w" "effects (panic w) = effects w"
  by (simp_all add: panic_def)

lemma forward_request_fields [simp]:
  "home (forward_request E p i obj w) = home w" "phones (forward_request E p i obj w) = phones w"
  "watchers (forward_request E p i obj w) = watchers w"
  "driver (forward_request E p i obj w) = driver w"
  "reverse (forward_request E p i obj w) = reverse w" "claims (forward_request E p i obj w) = claims w"
  "next_phone (forward_request E p i obj w) = next_phone w"
  "next_gen (forward_request E p i obj w) = next_gen w"
  "reverse_seq (forward_request E p i obj w) = reverse_seq w"
  by (simp_all add: forward_request_def alloc_req_def Let_def split: option.splits)

lemma forward_request_step:
  assumes "has_room (req_num (next_req w)) 1"
  shows "req_step w (forward_request E p i obj w)"
proof (cases "mux_out w")
  case None
  then show ?thesis by (intro req_step_same) (simp_all add: forward_request_def)
next
  case (Some c)
  show ?thesis
    by (rule req_step_trans [OF req_step_alloc [OF assms, where x = "Forwarded p (JsonId i)"]
          req_step_same])
      (simp_all add: forward_request_def Some alloc_req_def Let_def split: option.splits)
qed

lemma forward_notification_fields [simp]:
  "home (forward_notification E obj w) = home w" "phones (forward_notification E obj w) = phones w"
  "watchers (forward_notification E obj w) = watchers w"
  "driver (forward_notification E obj w) = driver w"
  "outstanding (forward_notification E obj w) = outstanding w"
  "reverse (forward_notification E obj w) = reverse w"
  "claims (forward_notification E obj w) = claims w"
  "next_phone (forward_notification E obj w) = next_phone w"
  "next_req (forward_notification E obj w) = next_req w"
  "next_gen (forward_notification E obj w) = next_gen w"
  "reverse_seq (forward_notification E obj w) = reverse_seq w"
  by (simp_all add: forward_notification_def split: option.splits)

lemma on_phone_hello_ids:
  assumes inv: "ids_inv w" and room: "has_room (phone_num (next_phone w)) 1"
  shows "ids_inv (on_phone_hello o' b w)"
proof (rule ids_invI)
  note D = ids_invD [OF inv]
  have le: "phone_num (next_phone w) \<le> phone_num (next_phone w) + 1"
    using less_bump [OF room] by simp
  show "phone_num p \<le> phone_num (next_phone (on_phone_hello o' b w))"
    if "hm_get (phones (on_phone_hello o' b w)) p \<noteq> None" for p
    using that D(8) [of p] le by (auto simp: on_phone_hello_def Let_def split: if_splits)
  show "reverse_ok (on_phone_hello o' b w) p j k"
    if "hm_get (reverse (on_phone_hello o' b w)) (p, j) = Some k" for p j k
    using that D(6) [of p j k] by (auto simp: reverse_ok_def on_phone_hello_phones)
qed (use ids_invD [OF inv] in simp_all)

lemma answer_initialize_ids:
  assumes inv: "ids_inv w"
  shows "ids_inv (answer_initialize E p i w)"
proof (rule ids_invI)
  note D = ids_invD [OF inv]
  show "phone_num q \<le> phone_num (next_phone (answer_initialize E p i w))"
    if "hm_get (phones (answer_initialize E p i w)) q \<noteq> None" for q
    using that D(8) [of q] by (auto simp: answer_initialize_phones split: if_splits)
  show "reverse_ok (answer_initialize E p i w) q j k"
    if "hm_get (reverse (answer_initialize E p i w)) (q, j) = Some k" for q j k
    using that D(6) [of q j k] by (auto simp: reverse_ok_def answer_initialize_phones)
qed (use ids_invD [OF inv] in simp_all)

lemma on_phone_eof_ids:
  assumes inv: "ids_inv w" and sess: "session_inv w"
  shows "ids_inv (on_phone_eof E p w)"
proof (rule ids_invI)
  note D = ids_invD [OF inv]
  note rev = on_phone_eof_reverse [OF D(3), where E = E and p = p]
  show "hm_wf (reverse (on_phone_eof E p w))"
    using on_phone_eof_wf(3) session_invD [OF sess] D(3) by blast
  show "reverse_ok (on_phone_eof E p w) q j k"
    if "hm_get (reverse (on_phone_eof E p w)) (q, j) = Some k" for q j k
    using that D(6) [of q j k] by (auto simp: reverse_ok_def rev split: if_splits)
  show "q = r" if "hm_get (reverse (on_phone_eof E p w)) (q, j) \<noteq> None"
      "hm_get (reverse (on_phone_eof E p w)) (r, j) \<noteq> None" for q r j
    using that D(7) [of q j r] by (auto simp: rev split: if_splits)
  show "phone_num q \<le> phone_num (next_phone (on_phone_eof E p w))"
    if "hm_get (phones (on_phone_eof E p w)) q \<noteq> None" for q
    using that D(8) [of q] by (auto split: if_splits)
qed (use ids_invD [OF inv] in simp_all)

lemma on_phone_reply_fields [simp]:
  "home (on_phone_reply E p j obj w) = home w" "phones (on_phone_reply E p j obj w) = phones w"
  "watchers (on_phone_reply E p j obj w) = watchers w" "driver (on_phone_reply E p j obj w) = driver w"
  "outstanding (on_phone_reply E p j obj w) = outstanding w"
  "next_phone (on_phone_reply E p j obj w) = next_phone w"
  "next_req (on_phone_reply E p j obj w) = next_req w"
  "next_gen (on_phone_reply E p j obj w) = next_gen w"
  "reverse_seq (on_phone_reply E p j obj w) = reverse_seq w"
  by (simp_all add: on_phone_reply_def Let_def case_prod_beta split: option.splits)

lemma on_phone_reply_reverse:
  "reverse (on_phone_reply E p j obj w) = hm_remove (p, j) (reverse w) \<or>
   reverse (on_phone_reply E p j obj w) = reverse w"
  by (simp add: on_phone_reply_def Let_def case_prod_beta split: option.splits)

lemma on_phone_reply_claims:
  "hm_get (claims (on_phone_reply E p j obj w)) k = None \<longleftrightarrow> hm_get (claims w) k = None"
  "hm_wf (claims w) \<Longrightarrow> hm_wf (claims (on_phone_reply E p j obj w))"
  by (auto simp: on_phone_reply_def Let_def case_prod_beta split: option.splits)

lemma on_phone_reply_ids:
  assumes inv: "ids_inv w"
  shows "ids_inv (on_phone_reply E p j obj w)"
proof (rule ids_invI)
  note D = ids_invD [OF inv]
  let ?w = "on_phone_reply E p j obj w"
  have rev: "hm_get (reverse ?w) x = Some k \<Longrightarrow> hm_get (reverse w) x = Some k" for x k
    using on_phone_reply_reverse [of E p j obj w] by (auto split: if_splits)
  show "hm_wf (claims ?w)" using D(2) by (rule on_phone_reply_claims)
  show "hm_wf (reverse ?w)" using D(3) on_phone_reply_reverse [of E p j obj w] by auto
  show "i \<le> next_req ?w" if "hm_get (claims ?w) i \<noteq> None" for i
    using that D(5) [of i] on_phone_reply_claims(1) [of E p j obj w i] by auto
  show "reverse_ok ?w q x k" if "hm_get (reverse ?w) (q, x) = Some k" for q x k
    using D(6) [OF rev [OF that]] on_phone_reply_claims(1) [of E p j obj w k]
    by (auto simp: reverse_ok_def)
  show "q = r" if "hm_get (reverse ?w) (q, x) \<noteq> None" "hm_get (reverse ?w) (r, x) \<noteq> None" for q r x
    using that rev D(7) [of q x r] by (metis option.exhaust option.discI)
qed (use ids_invD [OF inv] in simp_all)

section \<open>Reverse requests\<close>

lemma ask_phone_fields [simp]:
  "home (ask_phone E obj k p w) = home w" "phones (ask_phone E obj k p w) = phones w"
  "watchers (ask_phone E obj k p w) = watchers w" "driver (ask_phone E obj k p w) = driver w"
  "outstanding (ask_phone E obj k p w) = outstanding w" "claims (ask_phone E obj k p w) = claims w"
  "next_phone (ask_phone E obj k p w) = next_phone w" "next_req (ask_phone E obj k p w) = next_req w"
  "next_gen (ask_phone E obj k p w) = next_gen w"
  "refused_version (ask_phone E obj k p w) = refused_version w"
  "reverse_seq (ask_phone E obj k p w) = reverse_seq w + 1"
  "reverse (ask_phone E obj k p w) = hm_insert (p, reverse_id (reverse_seq w + 1)) k (reverse w)"
  by (simp_all add: ask_phone_def alloc_reverse_id_def Let_def reverse_id_def split: option.splits)

lemma fold_ask_phone_fields [simp]:
  "home (fold (ask_phone E obj k) ps w) = home w" "phones (fold (ask_phone E obj k) ps w) = phones w"
  "watchers (fold (ask_phone E obj k) ps w) = watchers w"
  "driver (fold (ask_phone E obj k) ps w) = driver w"
  "outstanding (fold (ask_phone E obj k) ps w) = outstanding w"
  "claims (fold (ask_phone E obj k) ps w) = claims w"
  "next_phone (fold (ask_phone E obj k) ps w) = next_phone w"
  "next_req (fold (ask_phone E obj k) ps w) = next_req w"
  "next_gen (fold (ask_phone E obj k) ps w) = next_gen w"
  "refused_version (fold (ask_phone E obj k) ps w) = refused_version w"
  by (induction ps arbitrary: w) simp_all

lemma ask_phone_ids:
  assumes inv: "ids_inv w" and room: "has_room (reverse_seq w) 1"
    and k: "hm_get (claims w) k \<noteq> None" and p: "hm_get (phones w) p \<noteq> None"
  shows "ids_inv (ask_phone E obj k p w)"
proof (rule ids_invI)
  note D = ids_invD [OF inv]
  have le: "reverse_seq w \<le> reverse_seq w + 1" using less_bump [OF room] by simp
  have new: "hm_get (reverse w) (q, reverse_id (reverse_seq w + 1)) = None" for q
    by (rule fresh_reverse [OF inv room])
  show "reverse_ok (ask_phone E obj k p w) q j l"
    if "hm_get (reverse (ask_phone E obj k p w)) (q, j) = Some l" for q j l
    using that D(6) [of q j l] k p le by (auto simp: reverse_ok_def split: if_splits)
  show "q = r" if "hm_get (reverse (ask_phone E obj k p w)) (q, j) \<noteq> None"
      "hm_get (reverse (ask_phone E obj k p w)) (r, j) \<noteq> None" for q r j
    using that D(7) [of q j r] new by (auto split: if_splits)
qed (use ids_invD [OF inv] in simp_all)

lemma fold_ask_phone_ids:
  assumes "ids_inv w" and "has_room (reverse_seq w) (length ps)"
    and "hm_get (claims w) k \<noteq> None" and "\<forall>p \<in> set ps. hm_get (phones w) p \<noteq> None"
  shows "ids_inv (fold (ask_phone E obj k) ps w)"
  using assms
proof (induction ps arbitrary: w)
  case (Cons p ps)
  then have "ids_inv (ask_phone E obj k p w)"
    by (intro ask_phone_ids) (auto intro: has_room_mono)
  moreover have "has_room (reverse_seq w + 1) (length ps)"
    using Cons.prems(2) has_room_bump [of "reverse_seq w" "length ps"] by simp
  ultimately show ?case using Cons.prems(3,4) by (simp add: Cons.IH)
qed simp

lemma reverse_targets_ok:
  assumes sess: "session_inv w" and ord: "order_ok E"
  shows "\<forall>p \<in> set (reverse_targets E meth s w). hm_get (phones w) p \<noteq> None"
    and "counters_room w \<Longrightarrow> has_room (reverse_seq w) (length (reverse_targets E meth s w))"
proof -
  note D = session_invD [OF sess]
  have watcher: "hm_get (phones w) p \<noteq> None" if "hm_get (watchers w) s = Some ws" "p \<in> set ws" for ws p
    using D(4) [OF that(1)] that(2) by (auto simp: watch_ok_def ready_in_def)
  have "hm_get (phones w) p \<noteq> None" if "hm_get (driver w) s = Some p" for p
    using D(5) [of s] that watcher by (auto simp: drive_ok_def split: option.splits)
  with watcher show "\<forall>p \<in> set (reverse_targets E meth s w). hm_get (phones w) p \<noteq> None"
    by (cases "hm_get (watchers w) s"; cases "hm_get (driver w) s")
      (auto simp: reverse_targets_def set_hash_order [OF ord])
  show "has_room (reverse_seq w) (length (reverse_targets E meth s w))" if "counters_room w"
    using counters_roomD(5,6) [OF that]
    by (auto simp: reverse_targets_def length_hash_order [OF ord] intro: has_room_mono split: option.splits)
qed

lemma on_reverse_request_fields [simp]:
  "home (on_reverse_request E obj w) = home w" "phones (on_reverse_request E obj w) = phones w"
  "watchers (on_reverse_request E obj w) = watchers w"
  "driver (on_reverse_request E obj w) = driver w"
  "outstanding (on_reverse_request E obj w) = outstanding w"
  "next_phone (on_reverse_request E obj w) = next_phone w"
  "next_gen (on_reverse_request E obj w) = next_gen w"
  "refused_version (on_reverse_request E obj w) = refused_version w"
  by (simp_all add: on_reverse_request_def alloc_req_def Let_def split: option.splits)

lemma on_reverse_request_ids:
  assumes inv: "ids_inv w" and sess: "session_inv w" and ord: "order_ok E" and room: "counters_room w"
  shows "ids_inv (on_reverse_request E obj w)"
proof -
  let ?k = "HomeReqId (req_num (next_req w) + 1)"
  have roomr: "has_room (req_num (next_req w)) 1" by (rule counters_roomD(3) [OF room])
  have start: "ids_inv (w\<lparr>next_req := ?k, claims := hm_insert ?k c (claims w)\<rparr>)" for c
  proof (rule ids_invI)
    note D = ids_invD [OF inv]
    let ?w = "w\<lparr>next_req := ?k, claims := hm_insert ?k c (claims w)\<rparr>"
    have le: "next_req w \<le> ?k" using next_req_less [OF roomr] by simp
    show "i \<le> next_req ?w" if "hm_get (outstanding ?w) i \<noteq> None" for i
      using D(4) [of i] that le by auto
    show "i \<le> next_req ?w" if "hm_get (claims ?w) i \<noteq> None" for i
      using D(5) [of i] that le by (auto split: if_splits)
    show "reverse_ok ?w p j k" if "hm_get (reverse ?w) (p, j) = Some k" for p j k
      using D(6) [of p j k] that by (auto simp: reverse_ok_def)
  qed (use ids_invD [OF inv] in simp_all)
  have "ids_inv (fold (ask_phone E obj ?k) (reverse_targets E meth s w)
      (w\<lparr>next_req := ?k, claims := hm_insert ?k c (claims w)\<rparr>))" for meth s c
    using reverse_targets_ok [OF sess ord] room by (intro fold_ask_phone_ids start) simp_all
  with inv show ?thesis
    by (auto simp: on_reverse_request_def alloc_req_def Let_def split: option.splits)
qed

end
