(* ===== verification/Replacement.thy ===== *)
theory Replacement
  imports Home
begin

text \<open>
  What the hub promises about home connections, free of ids, phones and JSON: at most one link
  serves, at most one is a candidate, and a candidate takes over only after it has registered with
  the right version, been initialized, and answered a load for every session that was watched when
  it was initialized. A step names the links it drops. \<open>W\<close> is the set of watched sessions.
\<close>

datatype stage =
    Registering
  | Preparing
  | Initializing
  | Loading "session_id set"

record service =
  serving :: "link option"
  candidate :: "(link \<times> stage) option"

datatype cause =
    NewConnection link
  | FrameFrom home_gen leader_server
  | EofOf home_gen
  | DeadlinePassed
  | OtherEvent

inductive advances :: "session_id set \<Rightarrow> stage \<Rightarrow> leader_server \<Rightarrow> stage \<Rightarrow> bool" for W where
  reg_ready: "advances W Registering (Registered True LEADER_PROTOCOL_VERSION) Initializing"
| reg_wait: "advances W Registering (Registered False LEADER_PROTOCOL_VERSION) Preparing"
| now_ready: "advances W Preparing LeaderReady Initializing"
| initialized: "W \<noteq> {} \<Longrightarrow> advances W Initializing (leader_server.Acp payload) (Loading W)"
| one_loaded: "s \<in> S \<Longrightarrow> S \<noteq> {s} \<Longrightarrow>
    advances W (Loading S) (leader_server.Acp payload) (Loading (S - {s}))"

inductive completes :: "session_id set \<Rightarrow> stage \<Rightarrow> leader_server \<Rightarrow> bool" for W where
  nothing_to_load: "W = {} \<Longrightarrow> completes W Initializing (leader_server.Acp payload)"
| last_loaded: "completes W (Loading {s}) (leader_server.Acp payload)"

inductive refuses :: "stage \<Rightarrow> leader_server \<Rightarrow> bool" where
  wrong_version: "v \<noteq> LEADER_PROTOCOL_VERSION \<Longrightarrow> refuses t (Registered r v)"
| leader_error: "refuses t (Error m)"
| initialize_error: "refuses t (leader_server.Acp payload)"

fun timed :: "stage \<Rightarrow> bool" where
  "timed Registering = True"
| "timed Preparing = True"
| "timed _ = False"

definition gens :: "service \<Rightarrow> home_gen set" where
  "gens x = home_gen ` (set_option (serving x) \<union> fst ` set_option (candidate x))"

text \<open>The links of both, the candidate first.\<close>

definition held :: "service \<Rightarrow> link list" where
  "held x = (case candidate x of None \<Rightarrow> [] | Some (b, t) \<Rightarrow> [b]) @
     (case serving x of None \<Rightarrow> [] | Some a \<Rightarrow> [a])"

text \<open>What may pass without a change.\<close>

fun ignorable :: "service \<Rightarrow> cause \<Rightarrow> bool" where
  "ignorable x (NewConnection l) \<longleftrightarrow> False"
| "ignorable x (EofOf g) \<longleftrightarrow> g \<notin> gens x"
| "ignorable x (FrameFrom g (Error m)) \<longleftrightarrow> g \<notin> gens x"
| "ignorable x (FrameFrom g (Registered r v)) \<longleftrightarrow>
     (case candidate x of
        None \<Rightarrow> True
      | Some (b, t) \<Rightarrow> home_gen b = g \<longrightarrow> v = LEADER_PROTOCOL_VERSION \<and> t \<noteq> Registering)"
| "ignorable x (FrameFrom g LeaderReady) \<longleftrightarrow>
     (case candidate x of None \<Rightarrow> True | Some (b, t) \<Rightarrow> home_gen b = g \<longrightarrow> t \<noteq> Preparing)"
| "ignorable x (FrameFrom g _) \<longleftrightarrow> True"
| "ignorable x DeadlinePassed \<longleftrightarrow>
     (case candidate x of None \<Rightarrow> True | Some (b, t) \<Rightarrow> \<not> timed t)"
| "ignorable x OtherEvent \<longleftrightarrow> True"

inductive service_step :: "session_id set \<Rightarrow> service \<Rightarrow> cause \<Rightarrow> link list \<Rightarrow> service \<Rightarrow> bool" for W where
  arrive: "dropped = (case candidate x of None \<Rightarrow> [] | Some (b, t) \<Rightarrow> [b]) \<Longrightarrow>
    service_step W x (NewConnection n) dropped (x\<lparr>candidate := Some (n, Registering)\<rparr>)"
| advance: "candidate x = Some (b, t) \<Longrightarrow> home_gen b = g \<Longrightarrow> advances W t msg t' \<Longrightarrow>
    service_step W x (FrameFrom g msg) [] (x\<lparr>candidate := Some (b, t')\<rparr>)"
| take_over: "candidate x = Some (b, t) \<Longrightarrow> home_gen b = g \<Longrightarrow> completes W t msg \<Longrightarrow>
    dropped = (case serving x of None \<Rightarrow> [] | Some a \<Rightarrow> [a]) \<Longrightarrow>
    service_step W x (FrameFrom g msg) dropped \<lparr>serving = Some b, candidate = None\<rparr>"
| refuse: "candidate x = Some (b, t) \<Longrightarrow> home_gen b = g \<Longrightarrow> refuses t msg \<Longrightarrow>
    service_step W x (FrameFrom g msg) [b] (x\<lparr>candidate := None\<rparr>)"
| candidate_gone: "candidate x = Some (b, t) \<Longrightarrow> home_gen b = g \<Longrightarrow>
    service_step W x (EofOf g) [b] (x\<lparr>candidate := None\<rparr>)"
| expire: "candidate x = Some (b, t) \<Longrightarrow> timed t \<Longrightarrow>
    service_step W x DeadlinePassed [b] (x\<lparr>candidate := None\<rparr>)"
| serving_error: "serving x = Some a \<Longrightarrow> home_gen a = g \<Longrightarrow>
    service_step W x (FrameFrom g (Error m)) [a] (x\<lparr>serving := None\<rparr>)"
| serving_gone: "serving x = Some a \<Longrightarrow> home_gen a = g \<Longrightarrow>
    service_step W x (EofOf g) [a] (x\<lparr>serving := None\<rparr>)"
| stay: "ignorable x c \<Longrightarrow> service_step W x c [] x"

inductive_cases service_step_elim: "service_step W x c dropped x'"

inductive_simps advances_Loading: "advances W (Loading S) msg t"
inductive_simps completes_Loading: "completes W (Loading S) msg"

section \<open>What the steps guarantee\<close>

text \<open>
  A link that serves is only ever dropped by a step of its own (its end or its error), or by a
  candidate that has answered every load it was asked for.
\<close>

lemma serving_dropped:
  assumes "service_step W x c dropped x'" and "serving x = Some a" and "a \<in> set dropped"
    and "\<forall>b t. candidate x = Some (b, t) \<longrightarrow> b \<noteq> a"
  shows "c = EofOf (home_gen a) \<or> (\<exists>m. c = FrameFrom (home_gen a) (Error m)) \<or>
    (\<exists>b t msg. candidate x = Some (b, t) \<and> c = FrameFrom (home_gen b) msg \<and> completes W t msg \<and>
       serving x' = Some b)"
  using assms by (cases rule: service_step.cases) (auto split: option.splits)

text \<open>Service is never interrupted by a replacement.\<close>

lemma serving_lost:
  assumes "service_step W x c dropped x'" and "serving x = Some a" and "serving x' = None"
  shows "c = EofOf (home_gen a) \<or> (\<exists>m. c = FrameFrom (home_gen a) (Error m))"
  using assms by (cases rule: service_step.cases) auto

text \<open>Whoever serves after a step served before it or was the candidate that just completed.\<close>

lemma serving_changes:
  assumes "service_step W x c dropped x'" and "serving x' = Some b"
  shows "serving x = Some b \<or>
    (\<exists>t msg. candidate x = Some (b, t) \<and> c = FrameFrom (home_gen b) msg \<and> completes W t msg)"
  using assms by (cases rule: service_step.cases) auto

text \<open>A new connection is always let in, whatever the state of the others.\<close>

lemma newcomer_let_in:
  "service_step W x (NewConnection n) dropped x' \<Longrightarrow>
     candidate x' = Some (n, Registering) \<and> serving x' = serving x"
  by (cases rule: service_step.cases) auto

end
