(* ===== verification/Hub_Home.thy ===== *)
theory Hub_Home
  imports Hub_Ids Replacement
begin

text \<open>
  The hub implements \<open>Replacement\<close>: the abstraction of its \<open>home\<close> makes a \<open>service_step\<close> on every
  message and on every deadline, and fires exactly the halt channels of the links that step drops.
  The invariant \<open>home_inv\<close> it needs is kept by the same handlers.
\<close>

section \<open>Abstraction and invariant\<close>

fun stage_of :: "incoming \<Rightarrow> stage" where
  "stage_of (WaitRegistered _ _) = Registering"
| "stage_of (WaitReady _ _) = Preparing"
| "stage_of (WaitInitialize _) = Initializing"
| "stage_of (WaitLoads _ p) = Loading (set (remaining p))"
| "stage_of (incoming.Ready _) = Loading {}"

fun service_of :: "home \<Rightarrow> service" where
  "service_of Away = \<lparr>serving = None, candidate = None\<rparr>"
| "service_of (BringingUp i) = \<lparr>serving = None, candidate = Some (incoming_link i, stage_of i)\<rparr>"
| "service_of (Sole l) = \<lparr>serving = Some (link l), candidate = None\<rparr>"
| "service_of (Dual r) =
     \<lparr>serving = Some (link (incumbent r)),
      candidate = Some (incoming_link (incoming r), stage_of (incoming r))\<rparr>"

definition watched :: "world \<Rightarrow> session_id set" where
  "watched w = set (hm_keys (watchers w))"

fun is_halt :: "effect \<Rightarrow> bool" where
  "is_halt (Halt _) = True"
| "is_halt _ = False"

definition halts :: "world \<Rightarrow> effect list" where
  "halts w = filter is_halt (effects w)"

fun incoming_ok :: "home_gen \<Rightarrow> incoming \<Rightarrow> bool" where
  "incoming_ok n (WaitLoads l p) \<longleftrightarrow> gen_num (home_gen l) \<le> gen_num n \<and> pending_ok p"
| "incoming_ok n (incoming.Ready l) \<longleftrightarrow> False"
| "incoming_ok n i \<longleftrightarrow> gen_num (home_gen (incoming_link i)) \<le> gen_num n"

fun home_ok :: "home_gen \<Rightarrow> home \<Rightarrow> bool" where
  "home_ok n Away \<longleftrightarrow> True"
| "home_ok n (BringingUp i) \<longleftrightarrow> incoming_ok n i"
| "home_ok n (Sole l) \<longleftrightarrow> gen_num (home_gen (link l)) \<le> gen_num n"
| "home_ok n (Dual r) \<longleftrightarrow> incoming_ok n (incoming r) \<and>
     gen_num (home_gen (link (incumbent r))) < gen_num (home_gen (incoming_link (incoming r)))"

definition home_inv :: "world \<Rightarrow> bool" where
  "home_inv w \<longleftrightarrow> home_ok (next_gen w) (home w)"

lemma home_inv_new: "home_inv new"
  by (simp add: home_inv_def new_def)

lemma incoming_ok_gen: "incoming_ok n i \<Longrightarrow> gen_num (home_gen (incoming_link i)) \<le> gen_num n"
  by (cases i) auto

lemma incoming_ok_mono: "incoming_ok n i \<Longrightarrow> gen_num n \<le> gen_num m \<Longrightarrow> incoming_ok m i"
  by (cases i) auto

section \<open>Halts\<close>

lemma drop_link_halts [simp]: "filter is_halt (drop_link l) = drop_link l"
  by (simp add: drop_link_def split: option.splits)

lemma link_send_halts [simp]: "filter is_halt (link_send l m) = []"
  by (simp add: link_send_def)

lemma phone_effects_halts [simp]: "filter is_halt (phone_effects ps p t) = []"
  by (simp add: phone_effects_def split: option.splits)

lemma away_effects_halts [simp]: "filter is_halt (away_effects E b ps) = []"
  by (auto simp: away_effects_def filter_empty_conv split: option.splits phone.splits)

lemma load_effects_halts [simp]: "filter is_halt (load_effects E l rs) = []"
  by (auto simp: load_effects_def filter_empty_conv)

lemma halts_emit [simp]: "halts (emit es w) = halts w @ filter is_halt es"
  by (simp add: halts_def)

lemma halts_cong: "effects w' = effects w \<Longrightarrow> halts w' = halts w"
  by (simp add: halts_def)

lemma halts_update [simp]:
  "halts (w\<lparr>home := h\<rparr>) = halts w" "halts (w\<lparr>phones := a\<rparr>) = halts w"
  "halts (w\<lparr>watchers := b\<rparr>) = halts w" "halts (w\<lparr>driver := c\<rparr>) = halts w"
  "halts (w\<lparr>outstanding := d\<rparr>) = halts w" "halts (w\<lparr>reverse := e\<rparr>) = halts w"
  "halts (w\<lparr>claims := f\<rparr>) = halts w" "halts (w\<lparr>next_phone := np\<rparr>) = halts w"
  "halts (w\<lparr>next_req := nr\<rparr>) = halts w" "halts (w\<lparr>next_gen := ng\<rparr>) = halts w"
  "halts (w\<lparr>reverse_seq := rs\<rparr>) = halts w" "halts (w\<lparr>refused_version := v\<rparr>) = halts w"
  by (simp_all add: halts_def)

lemma halts_simps [simp]:
  "halts (send_phone p t w) = halts w" "halts (broadcast_away E b w) = halts w"
  "halts (put_candidate i s w) = halts w" "halts (snd (watch p s' w)) = halts w"
  "halts (unwatch E p s' w) = halts w" "halts (panic w) = halts w"
  "halts (snd (take_candidate g w)) = halts w"
  by (simp_all add: send_phone_emit broadcast_away_emit) (simp_all add: halts_def)

lemma halts_send_follower_initialize [simp]: "halts (send_follower_initialize E l w) = halts w"
  by (simp add: send_follower_initialize_def alloc_req_def Let_def)

lemma halts_fold_load_session [simp]: "halts (fold (load_session E l) rs w) = halts w"
  by (simp add: fold_load_session)

section \<open>One handler, one step\<close>

text \<open>The hub's state after a handler, compared with the state before it.\<close>

definition serves_as :: "cause \<Rightarrow> world \<Rightarrow> world \<Rightarrow> bool" where
  "serves_as c w w' \<longleftrightarrow> home_inv w' \<and>
     (\<exists>dropped. service_step (watched w) (service_of (home w)) c dropped (service_of (home w')) \<and>
        halts w' = halts w @ concat (map drop_link dropped))"

lemma serves_asI:
  "service_step (watched w) (service_of (home w)) c dropped (service_of (home w')) \<Longrightarrow>
   halts w' = halts w @ concat (map drop_link dropped) \<Longrightarrow> home_inv w' \<Longrightarrow> serves_as c w w'"
  by (auto simp: serves_as_def)

lemma serves_as_stay:
  assumes "home_inv w" "home w' = home w" "next_gen w' = next_gen w" "halts w' = halts w"
    and "ignorable (service_of (home w)) c"
  shows "serves_as c w w'"
  using assms by (intro serves_asI [where dropped = "[]"]) (auto simp: home_inv_def intro: service_step.stay)

text \<open>The step rules with the state after the step as an equation.\<close>

lemma service_stepI:
  "dropped = (case candidate x of None \<Rightarrow> [] | Some (b, t) \<Rightarrow> [b]) \<Longrightarrow>
     x' = x\<lparr>candidate := Some (n, Registering)\<rparr> \<Longrightarrow> service_step W x (NewConnection n) dropped x'"
  "candidate x = Some (b, t) \<Longrightarrow> home_gen b = g \<Longrightarrow> advances W t msg t' \<Longrightarrow>
     x' = x\<lparr>candidate := Some (b, t')\<rparr> \<Longrightarrow> service_step W x (FrameFrom g msg) [] x'"
  "candidate x = Some (b, t) \<Longrightarrow> home_gen b = g \<Longrightarrow> completes W t msg \<Longrightarrow>
     dropped = (case serving x of None \<Rightarrow> [] | Some a \<Rightarrow> [a]) \<Longrightarrow>
     x' = \<lparr>serving = Some b, candidate = None\<rparr> \<Longrightarrow> service_step W x (FrameFrom g msg) dropped x'"
  "candidate x = Some (b, t) \<Longrightarrow> home_gen b = g \<Longrightarrow> refuses t msg \<Longrightarrow>
     x' = x\<lparr>candidate := None\<rparr> \<Longrightarrow> service_step W x (FrameFrom g msg) [b] x'"
  "candidate x = Some (b, t) \<Longrightarrow> home_gen b = g \<Longrightarrow>
     x' = x\<lparr>candidate := None\<rparr> \<Longrightarrow> service_step W x (EofOf g) [b] x'"
  "candidate x = Some (b, t) \<Longrightarrow> timed t \<Longrightarrow>
     x' = x\<lparr>candidate := None\<rparr> \<Longrightarrow> service_step W x DeadlinePassed [b] x'"
  "serving x = Some a \<Longrightarrow> home_gen a = g \<Longrightarrow>
     x' = x\<lparr>serving := None\<rparr> \<Longrightarrow> service_step W x (FrameFrom g (Error m)) [a] x'"
  "serving x = Some a \<Longrightarrow> home_gen a = g \<Longrightarrow>
     x' = x\<lparr>serving := None\<rparr> \<Longrightarrow> service_step W x (EofOf g) [a] x'"
  by (simp_all add: service_step.intros)

lemma on_accepted_serves:
  assumes inv: "home_inv w" and room: "has_room (gen_num (next_gen w)) 1"
  shows "serves_as
    (NewConnection \<lparr>home_gen = HomeGen (gen_num (next_gen w) + 1), out = o', halt = Some h\<rparr>)
    w (on_accepted now o' h b w)"
proof -
  note less = less_bump [OF room]
  show ?thesis
  proof (cases "home w")
    case Away
    then show ?thesis
      by (intro serves_asI [where dropped = "[]"] service_stepI(1))
        (simp_all add: on_accepted_def Let_def home_inv_def)
  next
    case (BringingUp i)
    then show ?thesis
      by (intro serves_asI [where dropped = "[incoming_link i]"] service_stepI(1))
        (simp_all add: on_accepted_def Let_def home_inv_def drop_incoming_def)
  next
    case (Sole l)
    then show ?thesis using inv less
      by (intro serves_asI [where dropped = "[]"] service_stepI(1))
        (auto simp: on_accepted_def Let_def home_inv_def)
  next
    case (Dual r)
    then show ?thesis using inv less
      by (intro serves_asI [where dropped = "[incoming_link (incoming r)]"] service_stepI(1))
        (auto simp: on_accepted_def Let_def home_inv_def abort_def drop_incoming_def
          dest!: incoming_ok_gen)
  qed
qed

text \<open>Losing the candidate, or the link that serves.\<close>

definition without_candidate :: "home \<Rightarrow> home" where
  "without_candidate h =
     (case h of Dual r \<Rightarrow> Sole (incumbent r) | BringingUp _ \<Rightarrow> Away | _ \<Rightarrow> h)"

definition without_serving :: "home \<Rightarrow> home" where
  "without_serving h =
     (case h of Dual r \<Rightarrow> BringingUp (incoming r) | Sole _ \<Rightarrow> Away | _ \<Rightarrow> h)"

lemma without_candidate_simps [simp]:
  "service_of (without_candidate h) = (service_of h)\<lparr>candidate := None\<rparr>"
  "home_ok n h \<Longrightarrow> home_ok n (without_candidate h)"
  by (cases h; auto simp: without_candidate_def dest!: incoming_ok_gen)+

lemma without_serving_simps [simp]:
  "service_of (without_serving h) = (service_of h)\<lparr>serving := None\<rparr>"
  "home_ok n h \<Longrightarrow> home_ok n (without_serving h)"
  by (cases h; auto simp: without_serving_def)+

lemma role_Candidate:
  "role_of w g = Candidate \<Longrightarrow>
   \<exists>b t. candidate (service_of (home w)) = Some (b, t) \<and> home_gen b = g"
  by (auto simp: role_of_def split: home.splits if_splits)

lemma role_Mux:
  "role_of w g = Mux \<Longrightarrow> \<exists>a. serving (service_of (home w)) = Some a \<and> home_gen a = g"
  by (auto simp: role_of_def split: home.splits if_splits)

lemma role_Unknown:
  "role_of w g = role.Unknown \<longleftrightarrow> g \<notin> gens (service_of (home w))"
  by (auto simp: role_of_def gens_def split: home.splits)

lemma fail_incoming_home:
  assumes "role_of w g = Candidate" and "candidate (service_of (home w)) = Some (b, t)"
  shows "home (fail_incoming g w) = without_candidate (home w)"
    and "halts (fail_incoming g w) = halts w @ drop_link b"
    and "next_gen (fail_incoming g w) = next_gen w"
  using assms
  by (auto simp: role_of_def fail_incoming_def without_candidate_def abort_def drop_incoming_def
      split: home.splits if_splits)

lemma on_home_eof_Mux:
  assumes "role_of w g = Mux" and "serving (service_of (home w)) = Some a"
  shows "home (on_home_eof E g w) = without_serving (home w)"
    and "halts (on_home_eof E g w) = halts w @ drop_link a"
    and "next_gen (on_home_eof E g w) = next_gen w"
  using assms
  by (auto simp: role_of_def on_home_eof_def without_serving_def drop_live_def
      split: home.splits if_splits)

lemma fail_incoming_serves:
  assumes inv: "home_inv w" and role: "role_of w g = Candidate"
    and step: "\<And>b t. candidate (service_of (home w)) = Some (b, t) \<Longrightarrow> home_gen b = g \<Longrightarrow>
      service_step (watched w) (service_of (home w)) c [b] ((service_of (home w))\<lparr>candidate := None\<rparr>)"
  shows "serves_as c w (fail_incoming g w)"
proof -
  obtain b t where b: "candidate (service_of (home w)) = Some (b, t)" "home_gen b = g"
    using role_Candidate [OF role] by blast
  show ?thesis
    using step [OF b] inv fail_incoming_home [OF role b(1)]
    by (intro serves_asI [where dropped = "[b]"]) (simp_all add: home_inv_def)
qed

lemma on_home_eof_serves:
  assumes inv: "home_inv w"
  shows "serves_as (EofOf g) w (on_home_eof E g w)"
proof (cases "role_of w g")
  case Mux
  then obtain a where a: "serving (service_of (home w)) = Some a" "home_gen a = g"
    using role_Mux by blast
  then show ?thesis using inv on_home_eof_Mux [OF Mux a(1)]
    by (intro serves_asI [where dropped = "[a]"] service_stepI(8)) (simp_all add: home_inv_def)
next
  case Candidate
  then show ?thesis
    using fail_incoming_serves [OF inv Candidate, of "EofOf g"] service_stepI(5)
    by (simp add: on_home_eof_def)
next
  case Unknown
  then show ?thesis
    using inv role_Unknown [of w g] by (intro serves_as_stay) (simp_all add: on_home_eof_def)
qed

lemma on_home_error_serves:
  assumes inv: "home_inv w" and role: "role_of w g = Mux"
  shows "serves_as (FrameFrom g (Error m)) w (on_home_eof E g w)"
proof -
  obtain a where a: "serving (service_of (home w)) = Some a" "home_gen a = g"
    using role_Mux [OF role] by blast
  then show ?thesis using inv on_home_eof_Mux [OF role a(1)]
    by (intro serves_asI [where dropped = "[a]"] service_stepI(7)) (simp_all add: home_inv_def)
qed

lemma timed_deadline: "timed (stage_of i) \<longleftrightarrow> deadline i \<noteq> None"
  by (cases i) auto

lemma on_deadline_serves:
  assumes inv: "home_inv w"
  shows "serves_as DeadlinePassed w (on_deadline w)"
proof (cases "current_deadline w")
  case None
  then show ?thesis using inv
    by (intro serves_as_stay)
      (auto simp: on_deadline_def current_deadline_def timed_deadline split: home.splits)
next
  case (Some d)
  then obtain b t where b: "candidate (service_of (home w)) = Some (b, t)" "timed t"
    and h: "home (on_deadline w) = without_candidate (home w)"
    and e: "halts (on_deadline w) = halts w @ drop_link b"
    and g: "next_gen (on_deadline w) = next_gen w"
    by (auto simp: on_deadline_def current_deadline_def timed_deadline without_candidate_def
        abort_def drop_incoming_def split: home.splits)
  then show ?thesis using inv
    by (intro serves_asI [where dropped = "[b]"] service_stepI(6)) (simp_all add: home_inv_def)
qed


section \<open>A candidate advancing\<close>

definition with_slot :: "incoming \<Rightarrow> candidate_slot \<Rightarrow> home" where
  "with_slot i slot = (case slot_incumbent slot of
     None \<Rightarrow> BringingUp i | Some inc \<Rightarrow> Dual \<lparr>incumbent = inc, incoming = i\<rparr>)"

lemma home_put_candidate [simp]: "home (put_candidate i slot w) = with_slot i slot"
  by (simp add: with_slot_def put_candidate_home)

lemma service_of_with_slot [simp]:
  "service_of (with_slot i slot) =
     \<lparr>serving = map_option link (slot_incumbent slot), candidate = Some (incoming_link i, stage_of i)\<rparr>"
  by (simp add: with_slot_def split: option.splits)

lemma home_ok_with_slot [simp]:
  "home_ok n (with_slot i slot) \<longleftrightarrow> incoming_ok n i \<and>
     (\<forall>l. slot_incumbent slot = Some l \<longrightarrow>
        gen_num (home_gen (link l)) < gen_num (home_gen (incoming_link i)))"
  by (auto simp: with_slot_def split: option.splits)

lemma take_candidate_role:
  assumes "role_of w g = Candidate"
  shows "\<exists>i slot. take_candidate g w = (Some (i, slot), w\<lparr>home := Away\<rparr>) \<and>
     home w = with_slot i slot \<and> home_gen (incoming_link i) = g"
  using assms
  by (auto simp: role_of_def take_candidate_def with_slot_def split: home.splits if_splits)

lemma candidate_advances:
  assumes inv: "home_inv w" and h: "home w = with_slot i slot" and g: "home_gen (incoming_link i) = g"
    and h': "home w' = with_slot i' slot" and same: "incoming_link i' = incoming_link i"
    and adv: "advances (watched w) (stage_of i) msg (stage_of i')"
    and ok: "incoming_ok (next_gen w) i'" and n: "next_gen w' = next_gen w"
    and e: "halts w' = halts w"
  shows "serves_as (FrameFrom g msg) w w'"
  using assms
  by (intro serves_asI [where dropped = "[]"] service_stepI(2) [where t = "stage_of i" and t' = "stage_of i'"])
    (auto simp: home_inv_def)

lemma candidate_stays:
  assumes "home_inv w" and "home w = with_slot i slot" and "home w' = with_slot i slot"
    and "next_gen w' = next_gen w" and "halts w' = halts w"
    and "ignorable (service_of (home w)) c"
  shows "serves_as c w w'"
  using assms by (intro serves_as_stay) simp_all

lemma candidate_done:
  assumes inv: "home_inv w" and h: "home w = with_slot i slot" and g: "home_gen (incoming_link i) = g"
    and compl: "completes (watched w) (stage_of i) msg"
    and u: "next_gen u = next_gen w" "halts u = halts w"
  shows "serves_as (FrameFrom g msg) w (finish_successor E \<lparr>link = incoming_link i\<rparr> slot u)"
proof (rule serves_asI)
  let ?w = "finish_successor E \<lparr>link = incoming_link i\<rparr> slot u"
  have h': "home ?w = Sole \<lparr>link = incoming_link i\<rparr>"
    by (simp add: finish_successor_def arm_def cutover_def split: option.splits)
  show "halts ?w = halts w @ concat (map drop_link
      (case serving (service_of (home w)) of None \<Rightarrow> [] | Some a \<Rightarrow> [a]))"
    by (simp add: h finish_successor_def arm_def cutover_def drop_live_def u split: option.splits)
  show "service_step (watched w) (service_of (home w)) (FrameFrom g msg)
      (case serving (service_of (home w)) of None \<Rightarrow> [] | Some a \<Rightarrow> [a]) (service_of (home ?w))"
    by (rule service_stepI(3)) (use h h' g compl in simp_all)
  have "next_gen ?w = next_gen w"
    by (simp add: finish_successor_def arm_def cutover_def u split: option.splits)
  then show "home_inv ?w"
    using inv h by (auto simp: home_inv_def h' dest: incoming_ok_gen)
qed

lemma send_follower_initialize_keeps [simp]:
  "next_gen (send_follower_initialize E l w) = next_gen w"
  "home (send_follower_initialize E l w) = home w"
  by (simp_all add: send_follower_initialize_def alloc_req_def Let_def)

lemma role_of_cong: "home w' = home w \<Longrightarrow> role_of w' g = role_of w g"
  by (simp add: role_of_def)

lemma take_link_eq: "take_link i = incoming_link i"
  by (cases i) simp_all

lemma serves_as_from:
  assumes "serves_as c w0 w'" "home w0 = home w" "watchers w0 = watchers w" "halts w0 = halts w"
  shows "serves_as c w w'"
  using assms by (simp add: serves_as_def watched_def)

lemma on_registered_serves:
  assumes inv: "home_inv w" and role: "role_of w g = Candidate"
  shows "serves_as (FrameFrom g (Registered r v)) w (on_registered E now g r v w)"
proof (cases "v = LEADER_PROTOCOL_VERSION")
  case False
  let ?u = "w\<lparr>refused_version := Some v\<rparr>"
  have "serves_as (FrameFrom g (Registered r v)) ?u (fail_incoming g ?u)"
  proof (rule fail_incoming_serves)
    show "home_inv ?u" using inv by (simp add: home_inv_def)
    show "role_of ?u g = Candidate" using role by (simp add: role_of_def)
    show "service_step (watched ?u) (service_of (home ?u)) (FrameFrom g (Registered r v)) [b]
        ((service_of (home ?u))\<lparr>candidate := None\<rparr>)"
      if "candidate (service_of (home ?u)) = Some (b, t)" "home_gen b = g" for b t
      by (rule service_stepI(4) [OF that wrong_version [OF False] refl])
  qed
  then have "serves_as (FrameFrom g (Registered r v)) w (fail_incoming g ?u)"
    by (rule serves_as_from) simp_all
  with False show ?thesis by (simp add: on_registered_def)
next
  case True
  let ?u = "w\<lparr>refused_version := None\<rparr>"
  have "role_of ?u g = Candidate" using role by (simp add: role_of_def)
  then obtain i slot where t: "take_candidate g ?u = (Some (i, slot), ?u\<lparr>home := Away\<rparr>)"
    and h: "home w = with_slot i slot" and g: "home_gen (incoming_link i) = g"
    using take_candidate_role [of ?u g] by auto
  have ok: "incoming_ok (next_gen w) i" using inv h by (simp add: home_inv_def)
  show ?thesis
  proof (cases "stage_of i = Registering")
    case False
    have "on_registered E now g r v w = put_candidate i slot (?u\<lparr>home := Away\<rparr>)"
      using True False t by (cases i) (simp_all add: on_registered_def)
    then show ?thesis using inv h g True False
      by (intro candidate_stays [OF inv h]) simp_all
  next
    case reg: True
    then obtain l d where i: "i = WaitRegistered l d" by (cases i) auto
    show ?thesis
    proof (cases r)
      case r: True
      have "on_registered E now g r v w =
          put_candidate (WaitInitialize l) slot (send_follower_initialize E l (?u\<lparr>home := Away\<rparr>))"
        using True t r by (simp add: on_registered_def i)
      then show ?thesis using ok True r reg_ready
        by (intro candidate_advances [OF inv h g, where i' = "WaitInitialize l"])
          (simp_all add: i)
    next
      case r: False
      have "on_registered E now g r v w =
          put_candidate (WaitReady l (now + READY_WAIT)) slot (?u\<lparr>home := Away\<rparr>)"
        using True t r by (simp add: on_registered_def i)
      then show ?thesis using ok True r reg_wait
        by (intro candidate_advances [OF inv h g, where i' = "WaitReady l (now + READY_WAIT)"])
          (simp_all add: i)
    qed
  qed
qed

lemma on_leader_ready_serves:
  assumes inv: "home_inv w" and role: "role_of w g = Candidate"
  shows "serves_as (FrameFrom g LeaderReady) w (on_leader_ready E g w)"
proof -
  obtain i slot where t: "take_candidate g w = (Some (i, slot), w\<lparr>home := Away\<rparr>)"
    and h: "home w = with_slot i slot" and g: "home_gen (incoming_link i) = g"
    using take_candidate_role [OF role] by auto
  have ok: "incoming_ok (next_gen w) i" using inv h by (simp add: home_inv_def)
  show ?thesis
  proof (cases "stage_of i = Preparing")
    case False
    have "on_leader_ready E g w = put_candidate i slot (w\<lparr>home := Away\<rparr>)"
      using False t by (cases i) (simp_all add: on_leader_ready_def)
    then show ?thesis using h g False
      by (intro candidate_stays [OF inv h]) simp_all
  next
    case True
    then obtain l d where i: "i = WaitReady l d" by (cases i) auto
    have "on_leader_ready E g w =
        put_candidate (WaitInitialize l) slot (send_follower_initialize E l (w\<lparr>home := Away\<rparr>))"
      using t by (simp add: on_leader_ready_def i)
    then show ?thesis using ok now_ready
      by (intro candidate_advances [OF inv h g, where i' = "WaitInitialize l"])
        (simp_all add: i)
  qed
qed

lemma watched_eq: "set (hm_keys (watchers w)) = watched w"
  by (simp add: watched_def)

lemma ignorable_Acp [simp]: "ignorable x (FrameFrom g (leader_server.Acp payload))"
  by simp

lemma after_follower_initialize_serves:
  assumes inv: "home_inv w" and role: "role_of w g = Candidate"
    and room: "has_room (req_num (next_req w)) (length (watchers w))"
  shows "serves_as (FrameFrom g (leader_server.Acp pl)) w (after_follower_initialize E g w)"
proof -
  obtain i slot where t: "take_candidate g w = (Some (i, slot), w\<lparr>home := Away\<rparr>)"
    and h: "home w = with_slot i slot" and g: "home_gen (incoming_link i) = g"
    using take_candidate_role [OF role] by auto
  have ok: "incoming_ok (next_gen w) i" using inv h by (simp add: home_inv_def)
  show ?thesis
  proof (cases "stage_of i = Initializing")
    case False
    have "after_follower_initialize E g w = put_candidate i slot (w\<lparr>home := Away\<rparr>)"
      using False t by (cases i) (simp_all add: after_follower_initialize_def)
    then show ?thesis using h
      by (intro candidate_stays [OF inv h]) simp_all
  next
    case True
    then obtain l where i: "i = WaitInitialize l" by (cases i) auto
    show ?thesis
    proof (cases "watchers w")
      case Nil
      then have "hm_keys (watchers w) = []" by (simp add: hm_keys_def)
      then have "after_follower_initialize E g w = finish_successor E \<lparr>link = l\<rparr> slot (w\<lparr>home := Away\<rparr>)"
        using t by (simp add: after_follower_initialize_def i start_loads_Nil)
      moreover have "completes (watched w) (stage_of i) (leader_server.Acp pl)"
        using Nil by (simp add: i watched_def hm_keys_def nothing_to_load)
      ultimately show ?thesis
        using candidate_done [OF inv h g, where u = "w\<lparr>home := Away\<rparr>"] by (simp add: i)
    next
      case (Cons x xs)
      then have ne: "hm_keys (watchers w) \<noteq> []" by (simp add: hm_keys_def)
      have room': "has_room (req_num (next_req w)) (length (hm_keys (watchers w)))"
        using room by (simp add: hm_keys_def)
      obtain p n where st: "start_loads (hm_keys (watchers w)) bump_req (next_req w) = (Some p, n)"
        and p: "pending_ok p" "remaining p = bts_collect (hm_keys (watchers w))"
        using start_loads_bump [OF room' ne] by blast
      have "after_follower_initialize E g w = put_candidate (WaitLoads l p) slot
          (fold (load_session E l) (requests p) (w\<lparr>home := Away, next_req := n\<rparr>))"
        using t st by (simp add: after_follower_initialize_def i)
      moreover have "advances (watched w) (stage_of i) (leader_server.Acp pl) (stage_of (WaitLoads l p))"
        using ne p(2) by (simp add: i watched_eq initialized flip: watched_eq)
      ultimately show ?thesis using ok p(1)
        by (intro candidate_advances [OF inv h g, where i' = "WaitLoads l p"])
          (simp_all add: i)
    qed
  qed
qed

lemma after_load_result_serves:
  assumes inv: "home_inv w" and role: "role_of w g = Candidate"
  shows "serves_as (FrameFrom g (leader_server.Acp pl)) w (after_load_result E g k w)"
proof -
  obtain i slot where t: "take_candidate g w = (Some (i, slot), w\<lparr>home := Away\<rparr>)"
    and h: "home w = with_slot i slot" and g: "home_gen (incoming_link i) = g"
    using take_candidate_role [OF role] by auto
  have ok: "incoming_ok (next_gen w) i" using inv h by (simp add: home_inv_def)
  have same: "serves_as (FrameFrom g (leader_server.Acp pl)) w (put_candidate i slot (w\<lparr>home := Away\<rparr>))"
    using h by (intro candidate_stays [OF inv h]) simp_all
  show ?thesis
  proof (cases i)
    case (WaitLoads l p)
    have p: "pending_ok p" using ok by (simp add: WaitLoads)
    show ?thesis
    proof (cases "bt_get (load_ids p) k")
      case None
      then have "after_load_result E g k w = put_candidate i slot (w\<lparr>home := Away\<rparr>)"
        using t by (simp add: after_load_result_def WaitLoads loaded_Ignore)
      with same show ?thesis by simp
    next
      case (Some s)
      note L = loaded_Some [OF p Some]
      show ?thesis
      proof (cases "length (load_ids p) = 1")
        case True
        then have "after_load_result E g k w = finish_successor E \<lparr>link = l\<rparr> slot (w\<lparr>home := Away\<rparr>)"
          using t L(2) by (simp add: after_load_result_def WaitLoads)
        moreover have "set (remaining p) = {s}"
        proof -
          obtain y where "load_ids p = [y]" using True by (auto simp: length_Suc_conv)
          then show ?thesis using p Some
            by (auto simp: pending_ok_def bt_get_def split: if_splits)
        qed
        then have "completes (watched w) (stage_of i) (leader_server.Acp pl)"
          by (simp add: WaitLoads last_loaded)
        ultimately show ?thesis
          using candidate_done [OF inv h g, where u = "w\<lparr>home := Away\<rparr>"] by (simp add: WaitLoads)
      next
        case False
        let ?p = "p\<lparr>load_ids := bt_remove k (load_ids p),
                    remaining := filter (\<lambda>t. t \<noteq> s) (remaining p)\<rparr>"
        have p': "pending_ok ?p" by (rule L(3) [OF False])
        have "after_load_result E g k w = put_candidate (WaitLoads l ?p) slot (w\<lparr>home := Away\<rparr>)"
          using t L(2) False by (simp add: after_load_result_def WaitLoads)
        moreover have "set (remaining ?p) = set (remaining p) - {s}" and "set (remaining ?p) \<noteq> {}"
          using p' by (auto simp: pending_ok_def)
        then have "advances (watched w) (stage_of i) (leader_server.Acp pl) (stage_of (WaitLoads l ?p))"
          using L(1) one_loaded [of s "set (remaining p)" "watched w" pl] by (auto simp: WaitLoads)
        ultimately show ?thesis using ok p'
          by (intro candidate_advances [OF inv h g, where i' = "WaitLoads l ?p"])
            (simp_all add: WaitLoads)
      qed
    qed
  qed (use same t in \<open>simp_all add: after_load_result_def\<close>)
qed

section \<open>Every event\<close>

lemma serves_as_outstanding:
  "serves_as c (w\<lparr>outstanding := d\<rparr>) w' \<Longrightarrow> serves_as c w w'"
  by (erule serves_as_from) simp_all

lemma home_inv_outstanding [simp]: "home_inv (w\<lparr>outstanding := d\<rparr>) = home_inv w"
  by (simp add: home_inv_def)

lemma role_of_outstanding [simp]: "role_of (w\<lparr>outstanding := d\<rparr>) g = role_of w g"
  by (rule role_of_cong) simp

lemma on_home_result_serves:
  assumes inv: "home_inv w" and room: "has_room (req_num (next_req w)) (length (watchers w))"
  shows "serves_as (FrameFrom g (leader_server.Acp pl)) w (on_home_result E g obj w)"
proof -
  have stay: "serves_as (FrameFrom g (leader_server.Acp pl)) w w'"
    if "home w' = home w" "next_gen w' = next_gen w" "halts w' = halts w" for w'
    using inv that by (intro serves_as_stay) simp_all
  show ?thesis
  proof (cases "Option.bind (value_get obj ''id'') as_u64")
    case None
    then show ?thesis using stay by (simp add: on_home_result_def)
  next
    case i: (Some n)
    let ?i = "HomeReqId n"
    show ?thesis
    proof (cases "hm_get (outstanding w) ?i")
      case None
      then show ?thesis using stay i by (simp add: on_home_result_def)
    next
      case x: (Some x)
      let ?u = "w\<lparr>outstanding := hm_remove ?i (outstanding w)\<rparr>"
      have same: "serves_as (FrameFrom g (leader_server.Acp pl)) w ?u"
        by (rule stay) simp_all
      show ?thesis
      proof (cases x)
        case (Forwarded p origin)
        then show ?thesis using i x
          by (intro stay) (simp_all add: on_home_result_def Let_def split: option.splits)
      next
        case HubInitialize
        then have eq: "on_home_result E g obj w =
            (if role_of w g \<noteq> Candidate then ?u
             else if value_get obj ''error'' \<noteq> None then fail_incoming g ?u
             else after_follower_initialize E g ?u)"
          using i x by (simp add: on_home_result_def Let_def)
        show ?thesis
        proof (cases "role_of w g = Candidate")
          case True
          have "serves_as (FrameFrom g (leader_server.Acp pl)) ?u (fail_incoming g ?u)"
            by (rule fail_incoming_serves) (auto simp: inv True intro: service_stepI(4) initialize_error)
          moreover have "serves_as (FrameFrom g (leader_server.Acp pl)) ?u (after_follower_initialize E g ?u)"
            by (rule after_follower_initialize_serves) (simp_all add: inv True room)
          ultimately show ?thesis using True unfolding eq by (auto intro: serves_as_outstanding)
        qed (use same in \<open>simp add: eq\<close>)
      next
        case HubLoad
        then have eq: "on_home_result E g obj w =
            (if role_of w g \<noteq> Candidate then ?u else after_load_result E g ?i ?u)"
          using i x by (simp add: on_home_result_def Let_def)
        have "serves_as (FrameFrom g (leader_server.Acp pl)) w (after_load_result E g ?i ?u)"
          if "role_of w g = Candidate"
          by (rule serves_as_outstanding, rule after_load_result_serves) (simp_all add: inv that)
        then show ?thesis using same by (simp add: eq)
      qed
    qed
  qed
qed

lemma halts_panic_emit [simp]: "halts (panic w) = halts w"
  by (simp add: halts_def panic_def)

lemma halts_ask_phone [simp]: "halts (ask_phone E obj k p w) = halts w"
  by (simp add: ask_phone_def alloc_reverse_id_def Let_def split: option.splits)

lemma halts_fold_ask_phone [simp]: "halts (fold (ask_phone E obj k) ps w) = halts w"
  by (rule fold_field) simp

lemma halts_home_messages [simp]:
  "halts (on_home_notification E obj w) = halts w" "halts (on_reverse_request E obj w) = halts w"
  by (simp_all add: on_home_notification_def fold_send_phone on_reverse_request_def alloc_req_def
      filter_concat comp_def concat_eq_Nil_conv Let_def split: option.splits)

lemma on_home_notification_home [simp]:
  "home (on_home_notification E obj w) = home w" "next_gen (on_home_notification E obj w) = next_gen w"
  by (simp_all add: on_home_notification_def fold_send_phone split: option.splits)

lemma on_home_acp_serves:
  assumes inv: "home_inv w" and room: "has_room (req_num (next_req w)) (length (watchers w))"
  shows "serves_as (FrameFrom g (leader_server.Acp pl)) w (on_home_acp E g pl w)"
proof -
  have stay: "serves_as (FrameFrom g (leader_server.Acp pl)) w w'"
    if "home w' = home w" "next_gen w' = next_gen w" "halts w' = halts w" for w'
    using inv that by (intro serves_as_stay) simp_all
  show ?thesis
    using on_home_result_serves [OF inv room]
    by (auto simp: on_home_acp_def Let_def intro: stay split: sum.splits)
qed

lemma on_home_frame_serves:
  assumes inv: "home_inv w" and room: "has_room (req_num (next_req w)) (length (watchers w))"
  shows "serves_as (FrameFrom g msg) w (on_home_frame E now g msg w)"
proof (cases "role_of w g")
  case Unknown
  then have "g \<notin> gens (service_of (home w))" by (simp add: role_Unknown)
  then have "ignorable (service_of (home w)) (FrameFrom g msg)"
    by (cases msg) (force simp: gens_def split: option.splits)+
  then show ?thesis using Unknown inv by (intro serves_as_stay) (simp_all add: on_home_frame_def)
next
  case Mux
  have ign: "ignorable (service_of (home w)) (FrameFrom g msg)" if "\<forall>m. msg \<noteq> Error m"
    using Mux inv that
    by (cases msg) (auto simp: role_of_def home_inv_def split: home.splits if_splits)
  show ?thesis using Mux ign inv on_home_acp_serves [OF inv room] on_home_error_serves [OF inv Mux]
    by (cases msg) (auto simp: on_home_frame_def intro!: serves_as_stay)
next
  case Candidate
  have err: "serves_as (FrameFrom g (Error m)) w (fail_incoming g w)" for m
    by (rule fail_incoming_serves [OF inv Candidate]) (auto intro: service_stepI(4) leader_error)
  show ?thesis
    using Candidate inv on_registered_serves [OF inv Candidate] on_leader_ready_serves [OF inv Candidate]
      on_home_acp_serves [OF inv room] err
    by (cases msg) (auto simp: on_home_frame_def intro!: serves_as_stay)
qed

text \<open>Phones leave the home connections alone.\<close>

lemma phone_handlers_halts [simp]:
  "halts (forward_request E p i obj w) = halts w" "halts (forward_notification E obj w) = halts w"
  "halts (answer_initialize E p i w) = halts w" "halts (on_phone_reply E p j obj w) = halts w"
  "halts (on_phone_hello o' b w) = halts w" "halts (on_phone_eof E p w) = halts w"
  by (simp_all add: forward_request_def forward_notification_def answer_initialize_def
      on_phone_reply_def on_phone_hello_def alloc_req_def Let_def case_prod_beta split: option.splits)
    (simp add: halts_def)

lemma on_phone_text_home [simp]:
  "home (on_phone_text E p text w) = home w" "next_gen (on_phone_text E p text w) = next_gen w"
  "halts (on_phone_text E p text w) = halts w"
  by (simp_all add: on_phone_text_def on_rpc_def on_phone_request_def Let_def
      split: sum.splits option.splits)

text \<open>What a message is to the abstract protocol.\<close>

fun cause_of :: "world \<Rightarrow> to_hub \<Rightarrow> cause" where
  "cause_of w (Accepted out_ch halt_ch bind_ch) =
     NewConnection \<lparr>home_gen = HomeGen (gen_num (next_gen w) + 1), out = out_ch, halt = Some halt_ch\<rparr>"
| "cause_of w (HomeFrame g msg) = FrameFrom g msg"
| "cause_of w (HomeEof g) = EofOf g"
| "cause_of w _ = OtherEvent"

lemma handle_serves:
  assumes inv: "home_inv w" and room: "counters_room w" and msg: "msg \<noteq> Shutdown"
  shows "serves_as (cause_of w msg) w (handle E now msg w)"
  using inv msg counters_roomD [OF room]
    on_accepted_serves [OF inv] on_home_frame_serves [OF inv] on_home_eof_serves [OF inv]
  by (cases msg) (auto intro!: serves_as_stay)

end
