(* ===== verification/Systems.thy ===== *)
theory Systems
  imports Prelude
begin

text \<open>
  Two contracts that the state machines of the program are held to: a system whose states stay
  safe, and a system whose steps are steps of an abstract one. Both are over a step relation, the
  events that drive it, and the side condition \<open>allowed\<close> under which an event is considered.
\<close>

inductive reached ::
  "'s \<Rightarrow> ('s \<Rightarrow> 'e \<Rightarrow> 's \<Rightarrow> bool) \<Rightarrow> ('s \<Rightarrow> 'e \<Rightarrow> bool) \<Rightarrow> 's \<Rightarrow> bool" for start step allowed where
  at_start: "reached start step allowed start"
| one_more: "reached start step allowed s \<Longrightarrow> step s e s' \<Longrightarrow> allowed s e \<Longrightarrow>
    reached start step allowed s'"

text \<open>A run over a list of events.\<close>

inductive runs :: "('s \<Rightarrow> 'e \<Rightarrow> 's \<Rightarrow> bool) \<Rightarrow> ('s \<Rightarrow> 'e \<Rightarrow> bool) \<Rightarrow> 's \<Rightarrow> 'e list \<Rightarrow> 's \<Rightarrow> bool"
  for step allowed where
  runs_Nil: "runs step allowed s [] s"
| runs_Cons: "step s e s' \<Longrightarrow> allowed s e \<Longrightarrow> runs step allowed s' es s'' \<Longrightarrow>
    runs step allowed s (e # es) s''"

inductive_simps runs_Nil_iff [simp]: "runs step allowed s [] s'"
inductive_simps runs_Cons_iff: "runs step allowed s (e # es) s'"

lemma reached_runs:
  "runs step allowed s es s' \<Longrightarrow> reached start step allowed s \<Longrightarrow> reached start step allowed s'"
  by (induction rule: runs.induct) (auto intro: one_more)

lemma reached_iff_runs: "reached start step allowed s \<longleftrightarrow> (\<exists>es. runs step allowed start es s)"
proof
  have app: "runs step allowed u (es @ [e]) v"
    if "runs step allowed u es s" "step s e v" "allowed s e" for u es s e v
    using that by (induction rule: runs.induct) (auto simp: runs_Cons_iff)
  show "\<exists>es. runs step allowed start es s" if "reached start step allowed s"
    using that by (induction rule: reached.induct) (auto intro: app runs_Nil)
  show "reached start step allowed s" if "\<exists>es. runs step allowed start es s"
    using that reached_runs [OF _ at_start] by metis
qed

locale safe_system =
  fixes start :: 's
    and step :: "'s \<Rightarrow> 'e \<Rightarrow> 's \<Rightarrow> bool"
    and allowed :: "'s \<Rightarrow> 'e \<Rightarrow> bool"
    and safe :: "'s \<Rightarrow> bool"
  assumes start_safe: "safe start"
    and step_safe: "safe s \<Longrightarrow> allowed s e \<Longrightarrow> step s e s' \<Longrightarrow> safe s'"
begin

lemma always_safe: "reached start step allowed s \<Longrightarrow> safe s"
  by (induction rule: reached.induct) (auto intro: start_safe step_safe)

lemma runs_safe: "runs step allowed s es s' \<Longrightarrow> safe s \<Longrightarrow> safe s'"
  by (induction rule: runs.induct) (auto intro: step_safe)

text \<open>A quantity that no step lowers is no lower at the end of a run.\<close>

lemma runs_mono:
  fixes m :: "'s \<Rightarrow> 'm::preorder"
  assumes "runs step allowed s es s'" and "safe s"
    and "\<And>s e s'. safe s \<Longrightarrow> allowed s e \<Longrightarrow> step s e s' \<Longrightarrow> m s \<le> m s'"
  shows "m s \<le> m s'"
  using assms(1,2)
proof (induction rule: runs.induct)
  case (runs_Cons s e s' es s'')
  then have "m s \<le> m s'" and "m s' \<le> m s''" using assms(3) step_safe by blast+
  then show ?case by (rule order_trans)
qed simp

text \<open>What holds of one state and is kept by every step that is not the last stays so.\<close>

lemma runs_keeps:
  assumes "runs step allowed s es s'" and "safe s" and "P s" and "\<forall>e \<in> set es. keep e"
    and "\<And>s e s'. safe s \<Longrightarrow> allowed s e \<Longrightarrow> keep e \<Longrightarrow> P s \<Longrightarrow> step s e s' \<Longrightarrow> P s'"
  shows "P s'"
  using assms(1-4)
proof (induction rule: runs.induct)
  case (runs_Cons s e s' es s'')
  then have "P s'" and "safe s'" using assms(5) [of s e s'] step_safe [of s e s'] by simp_all
  with runs_Cons show ?case by simp
qed simp

end

text \<open>
  The trace of a run: what each step shows of itself to an observer, as \<open>shows_as\<close> reads it off the
  states and the event.
\<close>

inductive traced ::
  "('s \<Rightarrow> 'e \<Rightarrow> 's \<Rightarrow> bool) \<Rightarrow> ('s \<Rightarrow> 'e \<Rightarrow> bool) \<Rightarrow> ('s \<Rightarrow> 'e \<Rightarrow> 's \<Rightarrow> 'b) \<Rightarrow>
   's \<Rightarrow> 'e list \<Rightarrow> 'b list \<Rightarrow> 's \<Rightarrow> bool" for step allowed shows_as where
  traced_Nil: "traced step allowed shows_as s [] [] s"
| traced_Cons: "step s e s' \<Longrightarrow> allowed s e \<Longrightarrow> traced step allowed shows_as s' es bs s'' \<Longrightarrow>
    traced step allowed shows_as s (e # es) (shows_as s e s' # bs) s''"

lemma traced_runs: "traced step allowed shows_as s es bs s' \<Longrightarrow> runs step allowed s es s'"
  by (induction rule: traced.induct) (auto intro: runs.intros)

lemma runs_traced: "runs step allowed s es s' \<Longrightarrow> \<exists>bs. traced step allowed shows_as s es bs s'"
  by (induction rule: runs.induct) (blast intro: traced.intros)+

text \<open>
  A refining system makes, at each of its steps, a step of the abstract system that shows exactly
  the same; so its traces are traces of the abstract system.
\<close>

locale refining_system = safe_system start step allowed safe
  for start :: 's and step :: "'s \<Rightarrow> 'e \<Rightarrow> 's \<Rightarrow> bool"
    and allowed :: "'s \<Rightarrow> 'e \<Rightarrow> bool" and safe :: "'s \<Rightarrow> bool" +
  fixes abs :: "'s \<Rightarrow> 'a"
    and astep :: "'a \<Rightarrow> 'b \<Rightarrow> 'a \<Rightarrow> bool"
    and shows_as :: "'s \<Rightarrow> 'e \<Rightarrow> 's \<Rightarrow> 'b"
  assumes simulates: "safe s \<Longrightarrow> allowed s e \<Longrightarrow> step s e s' \<Longrightarrow> astep (abs s) (shows_as s e s') (abs s')"
begin

lemma trace_included:
  "traced step allowed shows_as s es bs s' \<Longrightarrow> safe s \<Longrightarrow> runs astep (\<lambda>_ _. True) (abs s) bs (abs s')"
  by (induction rule: traced.induct) (auto intro: runs.intros simulates step_safe)

lemma trace_from_start:
  "traced step allowed shows_as start es bs s' \<Longrightarrow> runs astep (\<lambda>_ _. True) (abs start) bs (abs s')"
  by (rule trace_included [OF _ start_safe])

end

end
