(* ===== verification/Hub_Invariant.thy ===== *)
theory Hub_Invariant
  imports Hub_Home Systems
begin

text \<open>
  The three invariants together, kept by every message and every deadline; the hub's loop as an
  instance of the contracts of \<open>Systems\<close>: it is safe, and it refines \<open>Replacement\<close>.
\<close>

definition hub_inv :: "world \<Rightarrow> bool" where
  "hub_inv w \<longleftrightarrow> session_inv w \<and> ids_inv w \<and> home_inv w \<and> \<not> panicked w"

lemma hub_invD:
  assumes "hub_inv w"
  shows "session_inv w" "ids_inv w" "home_inv w" "\<not> panicked w"
  using assms by (simp_all add: hub_inv_def)

lemma hub_inv_new: "hub_inv new"
  using session_inv_new ids_inv_new home_inv_new by (simp add: hub_inv_def) (simp add: new_def)

section \<open>Sessions\<close>

text \<open>Operations that leave the tables of an invariant alone.\<close>

lemma session_inv_same [simp]:
  "session_inv (panic w) = session_inv w" "session_inv (send_phone p t w) = session_inv w"
  "session_inv (w\<lparr>outstanding := d\<rparr>) = session_inv w"
  "session_inv (fail_incoming g w) = session_inv w" "session_inv (on_home_eof E g w) = session_inv w"
  "session_inv (on_registered E now g r v w) = session_inv w"
  "session_inv (on_leader_ready E g w) = session_inv w"
  "session_inv (after_follower_initialize E g w) = session_inv w"
  "session_inv (after_load_result E g k w) = session_inv w"
  "session_inv (on_deadline w) = session_inv w"
  "session_inv (on_accepted now o' h b w) = session_inv w"
  "session_inv (on_reverse_request E obj w) = session_inv w"
  "session_inv (forward_request E q i obj w) = session_inv w"
  "session_inv (forward_notification E obj w) = session_inv w"
  "session_inv (on_phone_reply E q j obj w) = session_inv w"
  by (rule session_inv_cong; simp)+

lemma on_home_result_session_inv:
  assumes inv: "session_inv w"
  shows "session_inv (on_home_result E g obj w)"
proof (cases "Option.bind (value_get obj ''id'') as_u64")
  case (Some n)
  then show ?thesis using inv
    by (simp add: on_home_result_def Let_def watch_session_inv split: option.splits wait.splits)
qed (simp add: on_home_result_def inv)

lemma on_home_notification_fields [simp]:
  "phones (on_home_notification E obj w) = phones w" "watchers (on_home_notification E obj w) = watchers w"
  "driver (on_home_notification E obj w) = driver w" "outstanding (on_home_notification E obj w) = outstanding w"
  "reverse (on_home_notification E obj w) = reverse w" "claims (on_home_notification E obj w) = claims w"
  "next_phone (on_home_notification E obj w) = next_phone w" "next_req (on_home_notification E obj w) = next_req w"
  "reverse_seq (on_home_notification E obj w) = reverse_seq w"
  "refused_version (on_home_notification E obj w) = refused_version w"
  "panicked (on_home_notification E obj w) = panicked w"
  by (simp_all add: on_home_notification_def fold_send_phone split: option.splits)

lemma session_inv_notification [simp]:
  "session_inv (on_home_notification E obj w) = session_inv w"
  by (rule session_inv_cong) simp_all

lemma on_home_acp_session_inv: "session_inv w \<Longrightarrow> session_inv (on_home_acp E g pl w)"
  by (simp add: on_home_acp_def Let_def on_home_result_session_inv split: sum.splits)

lemma on_home_frame_session_inv: "session_inv w \<Longrightarrow> session_inv (on_home_frame E now g msg w)"
  by (simp add: on_home_frame_def on_home_acp_session_inv split: leader_server.splits)

lemma on_phone_request_session_inv:
  "session_inv w \<Longrightarrow> order_ok E \<Longrightarrow> session_inv (on_phone_request E p meth i obj w)"
  by (simp add: on_phone_request_def Let_def answer_initialize_session_inv watch_session_inv
      unwatch_session_inv split: option.splits)

lemma on_phone_text_session_inv:
  "session_inv w \<Longrightarrow> order_ok E \<Longrightarrow> session_inv (on_phone_text E p text w)"
  by (simp add: on_phone_text_def on_rpc_def on_phone_request_session_inv
      split: sum.splits option.splits)

lemma handle_session_inv:
  assumes inv: "session_inv w" "ids_inv w" and ord: "order_ok E" and room: "counters_room w"
    and msg: "msg \<noteq> Shutdown"
  shows "session_inv (handle E now msg w)"
  using msg inv ord fresh_phone [OF inv(2)] counters_roomD [OF room]
  by (cases msg)
    (simp_all add: on_home_frame_session_inv on_phone_text_session_inv on_phone_eof_session_inv
      on_phone_hello_session_inv)

section \<open>Identifiers\<close>

lemma ids_inv_cong:
  assumes "outstanding w' = outstanding w" "next_req w' = next_req w" "claims w' = claims w"
    "reverse w' = reverse w" "reverse_seq w' = reverse_seq w" "phones w' = phones w"
    "next_phone w' = next_phone w"
  shows "ids_inv w' = ids_inv w"
  using assms by (simp add: ids_inv_def reverse_ok_def)

lemma after_load_result_same [simp]:
  "outstanding (after_load_result E g i w) = outstanding w"
  "next_req (after_load_result E g i w) = next_req w"
  by (auto simp: after_load_result_def finish_successor_def take_candidate_def put_candidate_def
      arm_def cutover_def Let_def split: home.splits option.splits incoming.splits load_progress.splits)

lemma ids_inv_same [simp]:
  "ids_inv (panic w) = ids_inv w" "ids_inv (send_phone p t w) = ids_inv w"
  "ids_inv (snd (watch p s w)) = ids_inv w" "ids_inv (unwatch E p s w) = ids_inv w"
  "ids_inv (fail_incoming g w) = ids_inv w" "ids_inv (on_home_eof E g w) = ids_inv w"
  "ids_inv (after_load_result E g k w) = ids_inv w"
  "ids_inv (on_deadline w) = ids_inv w" "ids_inv (on_accepted now o' h b w) = ids_inv w"
  "ids_inv (on_home_notification E obj w) = ids_inv w"
  "ids_inv (forward_notification E obj w) = ids_inv w"
  by (rule ids_inv_cong; simp)+

lemma outstanding_removed_ids: "ids_inv w \<Longrightarrow> ids_inv (w\<lparr>outstanding := hm_remove i (outstanding w)\<rparr>)"
  by (rule req_step_ids_inv [OF req_step_remove])

lemma on_home_result_ids:
  assumes inv: "ids_inv w" and room: "has_room (req_num (next_req w)) (length (watchers w))"
  shows "ids_inv (on_home_result E g obj w)"
proof (cases "Option.bind (value_get obj ''id'') as_u64")
  case (Some n)
  have "ids_inv (after_follower_initialize E g
      (w\<lparr>outstanding := hm_remove (HomeReqId n) (outstanding w)\<rparr>))"
    by (rule req_step_ids_inv [OF after_follower_initialize_step outstanding_removed_ids [OF inv]])
      (simp add: room)
  then show ?thesis using Some inv
    by (simp add: on_home_result_def Let_def outstanding_removed_ids split: option.splits wait.splits)
qed (simp add: on_home_result_def inv)

lemma on_home_acp_ids:
  assumes inv: "ids_inv w" "session_inv w" and ord: "order_ok E" and room: "counters_room w"
  shows "ids_inv (on_home_acp E g pl w)"
  using inv on_home_result_ids [OF inv(1) counters_roomD(4) [OF room]]
    on_reverse_request_ids [OF inv ord room]
  by (simp add: on_home_acp_def Let_def split: sum.splits)

lemma on_home_frame_ids:
  assumes inv: "ids_inv w" "session_inv w" and ord: "order_ok E" and room: "counters_room w"
  shows "ids_inv (on_home_frame E now g msg w)"
proof -
  note steps = on_registered_step [OF counters_roomD(3) [OF room]]
    on_leader_ready_step [OF counters_roomD(3) [OF room]]
  show ?thesis using inv on_home_acp_ids [OF inv ord room] steps [THEN req_step_ids_inv, OF inv(1)]
    by (simp add: on_home_frame_def split: leader_server.splits)
qed

lemma forward_request_ids:
  "ids_inv w \<Longrightarrow> has_room (req_num (next_req w)) 1 \<Longrightarrow> ids_inv (forward_request E p i obj w)"
  by (rule req_step_ids_inv [OF forward_request_step])

lemma on_phone_text_ids:
  assumes inv: "ids_inv w" and room: "has_room (req_num (next_req w)) 1"
  shows "ids_inv (on_phone_text E p text w)"
proof -
  have "ids_inv (on_phone_request E p meth i obj w)" for meth i obj
    using inv room by (simp add: on_phone_request_def Let_def answer_initialize_ids
        forward_request_ids split: option.splits)
  then show ?thesis using inv
    by (simp add: on_phone_text_def on_rpc_def on_phone_reply_ids split: sum.splits option.splits)
qed

lemma handle_ids:
  assumes inv: "ids_inv w" "session_inv w" and ord: "order_ok E" and room: "counters_room w"
    and msg: "msg \<noteq> Shutdown"
  shows "ids_inv (handle E now msg w)"
  using msg inv ord room counters_roomD [OF room]
  by (cases msg)
    (simp_all add: on_home_frame_ids on_phone_text_ids on_phone_eof_ids on_phone_hello_ids)

lemma mux_out_cong: "home w' = home w \<Longrightarrow> mux_out w' = mux_out w"
  by (simp add: mux_out_def mux_link_def)

lemma mux_out_update [simp]:
  "mux_out (w\<lparr>reverse := r\<rparr>) = mux_out w" "mux_out (w\<lparr>claims := c\<rparr>) = mux_out w"
  by (rule mux_out_cong, simp)+

text \<open>Claims may be taken, as long as none comes or goes.\<close>

lemma ids_inv_claims:
  "ids_inv w \<Longrightarrow> hm_wf c \<Longrightarrow> (\<And>k. hm_get c k = None \<longleftrightarrow> hm_get (claims w) k = None) \<Longrightarrow>
   ids_inv (w\<lparr>claims := c\<rparr>)"
  by (simp add: ids_inv_def reverse_ok_def)

section \<open>No panic\<close>

text \<open>
  The one operation of a handler that can panic is \<open>obj["id"] = \<dots>\<close> on a value that is not an
  object, and \<open>parse_rpc_text\<close> lets only objects through.
\<close>

lemma index_set_ok: "is_object v \<Longrightarrow> index_set v k x \<noteq> None"
  using index_set_object by blast

lemma on_home_result_panicked:
  "is_object obj \<Longrightarrow> panicked (on_home_result E g obj w) = panicked w"
  by (auto simp: on_home_result_def Let_def dest: index_set_ok [of obj "''id''"]
      split: option.splits wait.splits)

lemma fold_ask_phone_panicked:
  "is_object obj \<Longrightarrow> panicked (fold (ask_phone E obj k) ps w) = panicked w"
  by (rule fold_field)
    (auto simp: ask_phone_def alloc_reverse_id_def Let_def dest: index_set_ok [of obj "''id''"]
      split: option.splits)

lemma on_reverse_request_panicked:
  "is_object obj \<Longrightarrow> panicked (on_reverse_request E obj w) = panicked w"
  by (simp add: on_reverse_request_def alloc_req_def Let_def fold_ask_phone_panicked
      split: option.splits)

lemma forward_request_panicked:
  "is_object obj \<Longrightarrow> panicked (forward_request E p i obj w) = panicked w"
  by (auto simp: forward_request_def alloc_req_def Let_def dest: index_set_ok [of obj "''id''"]
      split: option.splits)

lemma on_phone_reply_panicked:
  "is_object obj \<Longrightarrow> panicked (on_phone_reply E p j obj w) = panicked w"
  by (auto simp: on_phone_reply_def Let_def case_prod_beta dest: index_set_ok [of obj "''id''"]
      split: option.splits)

lemma forward_notification_panicked: "panicked (forward_notification E obj w) = panicked w"
  by (simp add: forward_notification_def split: option.splits)

lemma on_phone_text_panicked: "panicked (on_phone_text E p text w) = panicked w"
proof (cases "parse_rpc_text E text")
  case (Inr obj)
  then have "is_object obj" by (rule parse_rpc_text_object)
  then show ?thesis using Inr
    by (simp add: on_phone_text_def on_rpc_def on_phone_request_def Let_def
        forward_request_panicked forward_notification_panicked on_phone_reply_panicked split: option.splits)
qed (simp add: on_phone_text_def)

lemma on_home_frame_panicked: "panicked (on_home_frame E now g msg w) = panicked w"
proof -
  have "panicked (on_home_acp E g pl w) = panicked w" for pl
    by (auto simp: on_home_acp_def Let_def on_reverse_request_panicked on_home_result_panicked
        dest: parse_rpc_text_object split: sum.splits)
  then show ?thesis by (simp add: on_home_frame_def split: leader_server.splits)
qed

lemma shutdown_fields [simp]:
  "home (shutdown w) = Away" "phones (shutdown w) = []" "panicked (shutdown w) = panicked w"
  by (simp_all add: shutdown_def abort_def split: home.splits)

lemma handle_panicked: "panicked (handle E now msg w) = panicked w"
  by (cases msg) (simp_all add: on_home_frame_panicked on_phone_text_panicked)

section \<open>The whole invariant\<close>

lemma handle_inv:
  assumes inv: "hub_inv w" and ord: "order_ok E" and room: "counters_room w" and msg: "msg \<noteq> Shutdown"
  shows "hub_inv (handle E now msg w)"
  using handle_serves [OF hub_invD(3) [OF inv] room msg, of E now] hub_invD [OF inv]
    handle_session_inv [OF _ _ ord room msg] handle_ids [OF _ _ ord room msg]
  by (simp add: hub_inv_def handle_panicked serves_as_def)

lemma on_deadline_inv: "hub_inv w \<Longrightarrow> hub_inv (on_deadline w)"
  using on_deadline_serves [of w] by (auto simp: hub_inv_def serves_as_def)

section \<open>The loop\<close>

fun loop_safe :: "loop_state \<Rightarrow> bool" where
  "loop_safe (Running t w) \<longleftrightarrow> hub_inv w"
| "loop_safe (Stopped w) \<longleftrightarrow> home w = Away \<and> phones w = [] \<and> \<not> panicked w"

text \<open>The surroundings behave and the counters have room for the event.\<close>

fun loop_allowed :: "env \<Rightarrow> loop_state \<Rightarrow> wake \<Rightarrow> bool" where
  "loop_allowed E (Running t w) k \<longleftrightarrow> order_ok E \<and> counters_room w"
| "loop_allowed E (Stopped w) k \<longleftrightarrow> True"

fun world_of :: "loop_state \<Rightarrow> world" where
  "world_of (Running t w) = w"
| "world_of (Stopped w) = w"

definition loop_service :: "loop_state \<Rightarrow> service" where
  "loop_service l = service_of (home (world_of l))"

lemma loop_service_simps [simp]:
  "loop_service (Running t w) = service_of (home w)" "loop_service (Stopped w) = service_of (home w)"
  by (simp_all add: loop_service_def)

text \<open>
  What a step of the loop shows: the sessions that were watched, what happened (nothing but the end
  when the hub is stopped), and the halt signals that were fired.
\<close>

type_synonym showing = "session_id set \<times> cause option \<times> effect list"

fun happens :: "world \<Rightarrow> wake \<Rightarrow> cause option" where
  "happens w (Recv t (Some msg)) = (if msg = Shutdown then None else Some (cause_of w msg))"
| "happens w (Recv t None) = None"
| "happens w (Timer t) = Some DeadlinePassed"

definition loop_shows :: "loop_state \<Rightarrow> wake \<Rightarrow> loop_state \<Rightarrow> showing" where
  "loop_shows l k l' = (watched (world_of l), happens (world_of l) k,
     drop (length (halts (world_of l))) (halts (world_of l')))"

text \<open>
  A life of the abstract protocol: its steps, each on what happened, with the sessions watched then,
  and showing the halt signals of the links it drops and no others; and the end, which drops them all.
\<close>

inductive service_life :: "service \<Rightarrow> showing \<Rightarrow> service \<Rightarrow> bool" where
  one_step: "service_step W x c dropped x' \<Longrightarrow> service_life x (W, Some c, concat (map drop_link dropped)) x'"
| the_end: "service_life x (W, None, concat (map drop_link (held x))) \<lparr>serving = None, candidate = None\<rparr>"

inductive_cases hub_step_elim: "hub_step E s k s'"

lemma loop_step_safe:
  "loop_safe s \<Longrightarrow> loop_allowed E s k \<Longrightarrow> hub_step E s k s' \<Longrightarrow> loop_safe s'"
  by (erule hub_step_elim) (auto simp: handle_inv on_deadline_inv hub_invD)

lemma shutdown_halts:
  "halts (shutdown w) = halts w @ concat (map drop_link (held (service_of (home w))))"
  by (simp add: shutdown_def abort_def drop_incoming_def drop_live_def held_def Let_def split: home.splits)

lemma loop_step_serves:
  "serves_as c w w' \<Longrightarrow> happens w k = Some c \<Longrightarrow>
   service_life (service_of (home w)) (loop_shows (Running t w) k (Running t' w')) (service_of (home w'))"
  by (auto simp: serves_as_def loop_shows_def intro: one_step)

lemma loop_step_refines:
  assumes "loop_safe s" "loop_allowed E s k" "hub_step E s k s'"
  shows "service_life (loop_service s) (loop_shows s k s') (loop_service s')"
  using assms(3)
proof (cases rule: hub_step.cases)
  case (recv t now msg w)
  then have "serves_as (cause_of w msg) w (handle E now msg w)"
    using assms by (auto intro: handle_serves hub_invD)
  then show ?thesis using recv by (auto intro: loop_step_serves)
next
  case (timer t now w d)
  then have "serves_as DeadlinePassed w (on_deadline w)"
    using assms by (auto intro: on_deadline_serves hub_invD)
  then show ?thesis using timer by (auto intro: loop_step_serves)
qed (use the_end in \<open>auto simp: loop_shows_def shutdown_halts\<close>)

lemma loop_step_halts:
  assumes "loop_safe s" "loop_allowed E s k" "hub_step E s k s'"
  shows "halts (world_of s') = halts (world_of s) @ snd (snd (loop_shows s k s'))"
  using assms(3)
proof (cases rule: hub_step.cases)
  case (recv t now msg w)
  then have "serves_as (cause_of w msg) w (handle E now msg w)"
    using assms by (auto intro: handle_serves hub_invD)
  then show ?thesis using recv by (auto simp: serves_as_def loop_shows_def)
next
  case (timer t now w d)
  then have "serves_as DeadlinePassed w (on_deadline w)"
    using assms by (auto intro: on_deadline_serves hub_invD)
  then show ?thesis using timer by (auto simp: serves_as_def loop_shows_def)
qed (auto simp: loop_shows_def shutdown_halts)

lemma traced_halts:
  assumes "traced (hub_step E) (loop_allowed E) loop_shows s ks tr s'" and "loop_safe s"
  shows "halts (world_of s') = halts (world_of s) @ concat (map (snd \<circ> snd) tr)"
  using assms
proof (induction rule: traced.induct)
  case (traced_Cons s k s' ks tr s'')
  then have "loop_safe s'" using loop_step_safe by blast
  with traced_Cons loop_step_halts [of s E k s'] show ?case by simp
qed simp

interpretation hub_loop: refining_system "Running 0 new" "hub_step E" "loop_allowed E" loop_safe
  loop_service service_life loop_shows
  by unfold_locales (simp add: hub_inv_new, erule (2) loop_step_safe, erule (2) loop_step_refines)

text \<open>What every state of a running hub satisfies.\<close>

abbreviation hub_reached :: "env \<Rightarrow> loop_state \<Rightarrow> bool" where
  "hub_reached E \<equiv> reached (Running 0 new) (hub_step E) (loop_allowed E)"

abbreviation hub_runs :: "env \<Rightarrow> loop_state \<Rightarrow> wake list \<Rightarrow> loop_state \<Rightarrow> bool" where
  "hub_runs E \<equiv> runs (hub_step E) (loop_allowed E)"

lemma reached_inv: "hub_reached E (Running t w) \<Longrightarrow> hub_inv w"
  using hub_loop.always_safe by fastforce

end
