(* ===== verification/Demo.thy ===== *)
theory Demo
  imports Hub_Invariant
begin

text \<open>
  Concrete surroundings and a concrete hub, at which the properties are exercised: a parser that
  knows a table of texts, and a hub with a home connection, three phones (the third has not
  initialized), one watched session, one forwarded request and one open claim.
\<close>

definition demo_env :: "(string \<times> json) list \<Rightarrow> env" where
  "demo_env tbl =
     \<lparr>de_value = (\<lambda>s. map_option (\<lambda>v. (v, '''')) (map_of tbl s)),
      de_end = (\<lambda>s. s = ''''),
      to_text = (\<lambda>v. case filter (\<lambda>x. snd x = v) tbl of x # _ \<Rightarrow> fst x | [] \<Rightarrow> ''?''),
      hash_order = (\<lambda>xs. xs)\<rparr>"

lemma order_ok_demo [simp]: "order_ok (demo_env tbl)"
  by (simp add: order_ok_def demo_env_def)

definition demo_link :: "u64 \<Rightarrow> link" where
  "demo_link n = \<lparr>home_gen = HomeGen n, out = 200 + unat n, halt = Some (300 + unat n)\<rparr>"

definition demo_world :: world where
  "demo_world = new
     \<lparr>home := Sole \<lparr>link = demo_link 1\<rparr>,
      phones := [(PhoneId 1, phone.Ready 101), (PhoneId 2, phone.Ready 102), (PhoneId 3, Connected 103)],
      watchers := [(SessionId ''s'', [PhoneId 1, PhoneId 2])],
      driver := [(SessionId ''s'', PhoneId 1)],
      outstanding := [(HomeReqId 2, Forwarded (PhoneId 2) (JsonId (json_of_u64 7)))],
      reverse := [((PhoneId 1, reverse_id 1), HomeReqId 3), ((PhoneId 2, reverse_id 2), HomeReqId 3)],
      claims := [(HomeReqId 3, Open (JsonId (json_of_u64 40)))],
      next_phone := PhoneId 3, next_req := HomeReqId 3, next_gen := HomeGen 1, reverse_seq := 2\<rparr>"

lemma demo_world_fields [simp]:
  "home demo_world = Sole \<lparr>link = demo_link 1\<rparr>" "next_gen demo_world = HomeGen 1"
  "next_req demo_world = HomeReqId 3" "next_phone demo_world = PhoneId 3"
  "phones demo_world =
     [(PhoneId 1, phone.Ready 101), (PhoneId 2, phone.Ready 102), (PhoneId 3, Connected 103)]"
  "watchers demo_world = [(SessionId ''s'', [PhoneId 1, PhoneId 2])]"
  "driver demo_world = [(SessionId ''s'', PhoneId 1)]"
  "outstanding demo_world = [(HomeReqId 2, Forwarded (PhoneId 2) (JsonId (json_of_u64 7)))]"
  "reverse demo_world =
     [((PhoneId 1, reverse_id 1), HomeReqId 3), ((PhoneId 2, reverse_id 2), HomeReqId 3)]"
  "claims demo_world = [(HomeReqId 3, Open (JsonId (json_of_u64 40)))]"
  "reverse_seq demo_world = 2" "effects demo_world = []" "panicked demo_world = False"
  "refused_version demo_world = None"
  by (simp_all add: demo_world_def new_def)

lemma counters_room_demo: "counters_room demo_world"
  by (simp add: counters_room_def has_room_def)

lemma hub_inv_demo: "hub_inv demo_world"
proof -
  have "session_inv demo_world"
    by (rule session_invI)
      (auto simp: hm_wf_def hm_get_def watch_ok_def ready_in_def drive_ok_def split: if_splits)
  moreover have "ids_inv demo_world"
    by (rule ids_invI)
      (auto simp: hm_wf_def hm_get_def less_eq_home_req_id_def reverse_ok_def split: if_splits
        intro: exI [of _ 1] exI [of _ 2])
  ultimately show ?thesis by (simp add: hub_inv_def home_inv_def demo_link_def)
qed

end
