(* ===== verification/Hub_Service.thy ===== *)
theory Hub_Service
  imports Demo
begin

text \<open>
  What the hub guarantees about its home connections: the refinement of \<open>Replacement\<close>, the
  invariants of every reachable state, that service is not interrupted by a replacement, that a
  successor which answers takes over, deadlines, and what the frames of other connections can do.
\<close>

section \<open>The replacement protocol\<close>

text \<open>
  C1: Every message the hub handles is one step of the replacement protocol: at most one link
  serves and one is a candidate, a candidate moves on only by the handshake, it takes over only
  after its loads, and the connections told to stop are exactly those the step drops.
\<close>

theorem handle_refines_replacement:
  assumes "hub_inv w" and "counters_room w" and "msg \<noteq> Shutdown"
  shows "\<exists>dropped.
    service_step (watched w) (service_of (home w)) (cause_of w msg) dropped
      (service_of (home (handle E now msg w))) \<and>
    halts (handle E now msg w) = halts w @ concat (map drop_link dropped)"
  using handle_serves [OF hub_invD(3) [OF assms(1)] assms(2,3)] by (simp add: serves_as_def)

lemma handle_refines_replacement_witness:
  "\<exists>dropped.
    service_step (watched demo_world) (service_of (home demo_world)) (EofOf (HomeGen 1)) dropped
      (service_of (home (handle (demo_env []) 0 (HomeEof (HomeGen 1)) demo_world))) \<and>
    halts (handle (demo_env []) 0 (HomeEof (HomeGen 1)) demo_world) =
      halts demo_world @ concat (map drop_link dropped)"
  using handle_refines_replacement [OF hub_inv_demo counters_room_demo, of "HomeEof (HomeGen 1)"] by simp

text \<open>
  C2: In every state the loop reaches, the watch tables are consistent (every watched session has
  ready watchers and a driver among them), every number in a table was handed out, the home
  connections are in order, and no handler has panicked.
\<close>

theorem reached_consistent:
  assumes "hub_reached E (Running t w)"
  shows "session_inv w \<and> ids_inv w \<and> home_inv w \<and> \<not> panicked w"
  using reached_inv [OF assms] by (simp add: hub_inv_def)

lemma reached_demo: "hub_reached (demo_env []) (Running 5 (handle (demo_env []) 5 (PhoneHello 1 2) new))"
  by (rule reached.one_more [OF reached.at_start, where e = "Recv 5 (Some (PhoneHello 1 2))"])
    (simp_all add: hub_step_iff counters_room_def has_room_def new_def)

lemma reached_consistent_witness:
  "session_inv (handle (demo_env []) 5 (PhoneHello 1 2) new) \<and>
   ids_inv (handle (demo_env []) 5 (PhoneHello 1 2) new) \<and>
   home_inv (handle (demo_env []) 5 (PhoneHello 1 2) new) \<and>
   \<not> panicked (handle (demo_env []) 5 (PhoneHello 1 2) new)"
  by (rule reached_consistent [OF reached_demo])

text \<open>
  C3: The whole loop refines the protocol, trace by trace: whatever a run of the loop shows - at each
  step the sessions watched, what happened (the very message, the deadline, or the stop) and the
  halt signals fired - the protocol can do step by step on just those events with just those
  sessions, from the state in which nothing serves to the service of the state the loop is in,
  dropping exactly the links whose halt signals were fired; and no other halt signal ever is.
\<close>

theorem loop_refines_replacement:
  assumes "traced (hub_step E) (loop_allowed E) loop_shows (Running 0 new) ks tr s"
  shows "runs service_life (\<lambda>_ _. True) \<lparr>serving = None, candidate = None\<rparr> tr (loop_service s) \<and>
    halts (world_of s) = concat (map (snd \<circ> snd) tr)"
  using hub_loop.trace_from_start [OF assms] traced_halts [OF assms hub_loop.start_safe]
  by (simp add: new_def halts_def)

definition brief_hub :: world where
  "brief_hub = handle (demo_env []) 5 (Accepted 7 8 9) new"

lemma brief_trace:
  "traced (hub_step (demo_env [])) (loop_allowed (demo_env [])) loop_shows (Running 0 new)
     [Recv 5 (Some (Accepted 7 8 9)), Recv 6 (Some Shutdown)]
     [({}, Some (NewConnection \<lparr>home_gen = HomeGen 1, out = 7, halt = Some 8\<rparr>), []), ({}, None, [Halt 8])]
     (Stopped (shutdown brief_hub))"
proof -
  have 1: "loop_shows (Running 0 new) (Recv 5 (Some (Accepted 7 8 9))) (Running 5 brief_hub) =
      ({}, Some (NewConnection \<lparr>home_gen = HomeGen 1, out = 7, halt = Some 8\<rparr>), [])"
    by (simp add: loop_shows_def brief_hub_def new_def watched_def hm_keys_def halts_def on_accepted_def Let_def emit_def)
  have 2: "loop_shows (Running 5 brief_hub) (Recv 6 (Some Shutdown)) (Stopped (shutdown brief_hub)) = ({}, None, [Halt 8])"
    by (simp add: loop_shows_def brief_hub_def new_def watched_def hm_keys_def halts_def on_accepted_def Let_def emit_def
        shutdown_def drop_incoming_def drop_link_def)
  show ?thesis unfolding 1 [symmetric] 2 [symmetric]
    by (intro traced.intros)
      (simp_all add: brief_hub_def hub_step_iff counters_room_def has_room_def new_def on_accepted_def Let_def)
qed

lemma loop_refines_replacement_witness:
  "runs service_life (\<lambda>_ _. True) \<lparr>serving = None, candidate = None\<rparr>
     [({}, Some (NewConnection \<lparr>home_gen = HomeGen 1, out = 7, halt = Some 8\<rparr>), []), ({}, None, [Halt 8])]
     \<lparr>serving = None, candidate = None\<rparr> \<and> halts (shutdown brief_hub) = [Halt 8]"
  using loop_refines_replacement [OF brief_trace] by simp

section \<open>Service is not interrupted\<close>

text \<open>An event that ends a home connection, or the loop.\<close>

fun ends_home :: "wake \<Rightarrow> bool" where
  "ends_home (Recv t (Some (HomeEof g))) = True"
| "ends_home (Recv t (Some (HomeFrame g (Error m)))) = True"
| "ends_home (Recv t (Some Shutdown)) = True"
| "ends_home (Recv t None) = True"
| "ends_home _ = False"

lemma step_keeps_serving:
  assumes "loop_safe s" "loop_allowed E s k" "\<not> ends_home k" "hub_step E s k s'"
    and "serving (loop_service s) \<noteq> None"
  shows "serving (loop_service s') \<noteq> None"
  using assms(4)
proof (cases rule: hub_step.cases)
  case (recv t now msg w)
  then obtain d where "service_step (watched w) (service_of (home w)) (cause_of w msg) d
      (service_of (home (handle E now msg w)))"
    using handle_refines_replacement assms by fastforce
  then show ?thesis
    using serving_lost assms recv by (cases msg) (fastforce elim: ends_home.elims)+
next
  case (timer t now w d)
  then show ?thesis using assms
    by (auto simp: on_deadline_def abort_def split: home.splits)
qed (use assms in auto)

text \<open>
  C4: Once a home connection serves, one serves for as long as no connection ends, reports an
  error, and the hub is not stopped: replacing the serving connection, however often and however
  far a replacement gets, never leaves the phones without a host.
\<close>

theorem replacement_without_gap:
  assumes "hub_runs E (Running t w) ks s'" and "hub_inv w"
    and "serving (service_of (home w)) \<noteq> None" and "\<forall>k \<in> set ks. \<not> ends_home k"
  shows "serving (loop_service s') \<noteq> None"
  using assms(1)
  by (rule hub_loop.runs_keeps [where P = "\<lambda>s. serving (loop_service s) \<noteq> None" and keep = "\<lambda>k. \<not> ends_home k"])
    (use assms step_keeps_serving in \<open>auto simp: split: option.splits\<close>)

lemma demo_accepted:
  "hub_runs (demo_env []) (Running 0 demo_world) [Recv 1 (Some (Accepted 7 8 9))]
     (Running 1 (handle (demo_env []) 1 (Accepted 7 8 9) demo_world))"
  by (simp add: runs_Cons_iff hub_step_iff counters_room_demo)

lemma replacement_without_gap_witness:
  "serving (loop_service (Running 1 (handle (demo_env []) 1 (Accepted 7 8 9) demo_world))) \<noteq> None"
  by (rule replacement_without_gap [OF demo_accepted hub_inv_demo]) simp_all

text \<open>
  C11: A connection starts to serve only as the candidate whose own frame completes its loads;
  the connection it replaces, and no other, is told to stop at that moment.
\<close>

theorem takeover_after_loads:
  assumes "hub_inv w" and "counters_room w" and "msg \<noteq> Shutdown"
    and "serving (service_of (home (handle E now msg w))) = Some b"
    and "serving (service_of (home w)) \<noteq> Some b"
  shows "\<exists>t m. candidate (service_of (home w)) = Some (b, t) \<and> msg = HomeFrame (home_gen b) m \<and>
    completes (watched w) t m \<and>
    halts (handle E now msg w) = halts w @
      (case serving (service_of (home w)) of None \<Rightarrow> [] | Some a \<Rightarrow> drop_link a)"
proof -
  obtain dropped where step: "service_step (watched w) (service_of (home w)) (cause_of w msg) dropped
      (service_of (home (handle E now msg w)))"
    and h: "halts (handle E now msg w) = halts w @ concat (map drop_link dropped)"
    using handle_refines_replacement [OF assms(1-3)] by blast
  from step show ?thesis
  proof (cases rule: service_step.cases)
    case (take_over c t g m)
    then show ?thesis using h assms(3-5)
      by (cases msg) (auto split: option.splits)
  qed (use assms(4,5) in auto)
qed

definition demo_waiting :: world where
  "demo_waiting = demo_world
     \<lparr>home := Dual \<lparr>incumbent = \<lparr>link = demo_link 1\<rparr>,
                    incoming = WaitLoads (demo_link 2) \<lparr>remaining = [SessionId ''s''],
                      load_ids = [(HomeReqId 4, SessionId ''s'')]\<rparr>\<rparr>,
      outstanding := hm_insert (HomeReqId 4) HubLoad (outstanding demo_world),
      next_gen := HomeGen 2, next_req := HomeReqId 4\<rparr>"

lemma demo_waiting_fields [simp]:
  "home demo_waiting = Dual \<lparr>incumbent = \<lparr>link = demo_link 1\<rparr>,
     incoming = WaitLoads (demo_link 2) \<lparr>remaining = [SessionId ''s''],
       load_ids = [(HomeReqId 4, SessionId ''s'')]\<rparr>\<rparr>"
  "watchers demo_waiting = [(SessionId ''s'', [PhoneId 1, PhoneId 2])]"
  by (simp_all add: demo_waiting_def)

lemma demo_waiting_ok: "hub_inv demo_waiting" "counters_room demo_waiting"
proof -
  have "session_inv demo_waiting"
    using session_inv_cong [of demo_waiting demo_world] hub_inv_demo
    by (simp add: demo_waiting_def hub_inv_def)
  moreover have "ids_inv demo_waiting"
    using req_step_ids_inv [OF req_step_alloc [of demo_world HubLoad] hub_invD(2) [OF hub_inv_demo]]
    by (subst ids_inv_cong [of demo_waiting]) (simp_all add: demo_waiting_def has_room_def)
  ultimately show "hub_inv demo_waiting"
    by (simp add: hub_inv_def home_inv_def demo_waiting_def demo_link_def pending_ok_def bt_wf_def)
  show "counters_room demo_waiting"
    by (simp add: counters_room_def has_room_def demo_waiting_def)
qed

definition answer_env :: env where
  "answer_env = demo_env
     [(''loaded'', json_obj [(''id'', json_of_u64 4), (''result'', json_obj [])]),
      (''method'', json_obj [(''id'', json_of_u64 8), (''method'', String ''session/request_permission''),
        (''params'', json_obj [(''sessionId'', String ''s'')])])]"

lemma order_ok_answer [simp]: "order_ok answer_env"
  by (simp add: answer_env_def)

lemma takeover_after_loads_witness:
  "\<exists>t m. candidate (service_of (home demo_waiting)) = Some (demo_link 2, t) \<and>
    HomeFrame (HomeGen 2) (leader_server.Acp ''loaded'') = HomeFrame (home_gen (demo_link 2)) m \<and>
    completes (watched demo_waiting) t m \<and>
    halts (handle answer_env 0 (HomeFrame (HomeGen 2) (leader_server.Acp ''loaded'')) demo_waiting) =
      halts demo_waiting @
      (case serving (service_of (home demo_waiting)) of None \<Rightarrow> [] | Some a \<Rightarrow> drop_link a)"
proof (rule takeover_after_loads [OF demo_waiting_ok])
  show "serving (service_of (home (handle answer_env 0
      (HomeFrame (HomeGen 2) (leader_server.Acp ''loaded'')) demo_waiting))) = Some (demo_link 2)"
    by code_simp
  show "serving (service_of (home demo_waiting)) \<noteq> Some (demo_link 2)"
    by (simp add: demo_link_def)
qed simp

section \<open>Arrival, loss and deadlines\<close>

text \<open>
  A connection that is accepted always becomes the candidate, under an identity larger than
  every identity in use, with ten seconds to register; it disturbs nobody who serves, and a
  candidate that was there before it is told to stop.
\<close>

theorem accepted_becomes_candidate:
  assumes "hub_inv w" and "counters_room w"
    and "w' = handle E now (Accepted o' h b) w"
    and "n = \<lparr>home_gen = HomeGen (gen_num (next_gen w) + 1), out = o', halt = Some h\<rparr>"
  shows "service_of (home w') = (service_of (home w))\<lparr>candidate := Some (n, Registering)\<rparr> \<and>
    current_deadline w' = Some (now + from_secs 10) \<and>
    effects w' = effects w @ BindHome b (home_gen n) #
      (case candidate (service_of (home w)) of None \<Rightarrow> [] | Some (old, _) \<Rightarrow> drop_link old) \<and>
    (\<forall>g \<in> gens (service_of (home w)). gen_num g < gen_num (home_gen n))"
proof -
  have "gen_num (next_gen w) < gen_num (home_gen n)"
    using counters_roomD(1) [OF assms(2)] less_bump by (simp add: assms(4))
  moreover have "\<forall>g \<in> gens (service_of (home w)). gen_num g \<le> gen_num (next_gen w)"
    using hub_invD(3) [OF assms(1)]
    by (cases "home w") (force simp: home_inv_def gens_def dest: incoming_ok_gen)+
  ultimately have "\<forall>g \<in> gens (service_of (home w)). gen_num g < gen_num (home_gen n)"
    by (blast intro: le_less_trans)
  moreover have "service_of (home w') = (service_of (home w))\<lparr>candidate := Some (n, Registering)\<rparr> \<and>
    current_deadline w' = Some (now + from_secs 10) \<and>
    effects w' = effects w @ BindHome b (home_gen n) #
      (case candidate (service_of (home w)) of None \<Rightarrow> [] | Some (old, _) \<Rightarrow> drop_link old)"
    by (cases "home w"; simp add: assms(3,4) on_accepted_def Let_def abort_def drop_incoming_def
        current_deadline_def REGISTER_WAIT_def emit_def)
  ultimately show ?thesis by blast
qed

lemma accepted_becomes_candidate_witness:
  "service_of (home (handle answer_env 5 (Accepted 7 8 9) demo_world)) =
     (service_of (home demo_world))\<lparr>candidate := Some
       (\<lparr>home_gen = HomeGen (gen_num (next_gen demo_world) + 1), out = 7, halt = Some 8\<rparr>, Registering)\<rparr>"
  using accepted_becomes_candidate [OF hub_inv_demo counters_room_demo refl refl,
      of answer_env 5 7 8 9] by simp

text \<open>
  The loop's timer fires only at or after the deadline of the candidate, only a candidate that
  is still registering or getting ready has a deadline, and then it alone is dropped and told to
  stop; a candidate that is initializing or loading is never timed out.
\<close>

theorem deadline_drops_candidate:
  assumes "hub_step E (Running t w) (Timer now) s'"
  shows "\<exists>d b st. current_deadline w = Some d \<and> d \<le> now \<and>
    candidate (service_of (home w)) = Some (b, st) \<and> (st = Registering \<or> st = Preparing) \<and>
    s' = Running now (emit (drop_link b) (w\<lparr>home := home (on_deadline w)\<rparr>)) \<and>
    service_of (home (on_deadline w)) = (service_of (home w))\<lparr>candidate := None\<rparr>"
  using assms
proof (cases rule: hub_step.cases)
  case (timer d)
  then show ?thesis
    by (cases "home w") (auto simp: current_deadline_def on_deadline_def drop_incoming_def
        abort_def emit_def elim: deadline.elims)
qed

definition demo_coming :: world where
  "demo_coming = new\<lparr>home := BringingUp (WaitRegistered (demo_link 1) 10)\<rparr>"

lemma demo_timer: "hub_step answer_env (Running 5 demo_coming) (Timer 12) (Running 12 (on_deadline demo_coming))"
  by (simp add: hub_step_iff demo_coming_def current_deadline_def)

lemma deadline_drops_candidate_witness:
  "service_of (home (on_deadline demo_coming)) = (service_of (home demo_coming))\<lparr>candidate := None\<rparr>"
  using deadline_drops_candidate [OF demo_timer] by blast

text \<open>The channels of the phones that have initialized.\<close>

definition ready_chans :: "(phone_id, phone) hmap \<Rightarrow> chan list" where
  "ready_chans ps = concat (map (\<lambda>(p, slot). case slot of phone.Ready c \<Rightarrow> [c] | Connected _ \<Rightarrow> []) ps)"

lemma mset_concat_map: "mset xs = mset ys \<Longrightarrow> mset (concat (map f xs)) = mset (concat (map f ys))"
  by (metis mset_concat mset_map multiset.map_comp sum_mset_sum_list)

lemma mset_away_effects:
  assumes "order_ok E" and "hm_wf ps"
  shows "mset (away_effects E b ps) =
    mset (map (\<lambda>c. ToPhone c (host_away_note E b)) (ready_chans ps))"
proof -
  let ?f = "\<lambda>slot. case slot of Some (phone.Ready c) \<Rightarrow> [ToPhone c (host_away_note E b)] | _ \<Rightarrow> []"
  have "map (\<lambda>p. ?f (hm_get ps p)) (hm_keys ps) = map (\<lambda>(p, slot). ?f (Some slot)) ps"
    using assms(2) by (auto simp: hm_wf_def hm_keys_def hm_get_def map_of_is_SomeI)
  moreover have "concat (map (\<lambda>(p, slot). ?f (Some slot)) ps) =
      map (\<lambda>c. ToPhone c (host_away_note E b)) (ready_chans ps)"
    by (induction ps) (auto simp: ready_chans_def split: phone.splits)
  ultimately show ?thesis
    using mset_concat_map [OF mset_hash_order [OF assms(1)], of "\<lambda>p. ?f (hm_get ps p)" "hm_keys ps"]
    by (simp add: away_effects_def)
qed

text \<open>
  The end of the connection that serves (or an error from it) drops it, tells every phone that
  has initialized exactly once that the host is away, and keeps the phones, their watches and
  their requests; a candidate there may be goes on with its handshake.
\<close>

theorem serving_link_lost:
  assumes "serving (service_of (home w)) = Some a" and "order_ok E" and "hub_inv w"
    and "msg = HomeEof (home_gen a) \<or> msg = HomeFrame (home_gen a) (Error m)"
  shows "\<exists>notes. handle E now msg w = (emit (drop_link a @ notes) w)\<lparr>home := without_serving (home w)\<rparr> \<and>
    mset notes = mset (map (\<lambda>c. ToPhone c (host_away_note E True)) (ready_chans (phones w)))"
proof -
  have h: "(\<exists>l. home w = Sole l \<and> link l = a) \<or> (\<exists>r. home w = Dual r \<and> link (incumbent r) = a)"
    using assms(1) by (cases "home w") auto
  then have role: "role_of w (home_gen a) = Mux" by (auto simp: role_of_def)
  have "handle E now msg w = on_home_eof E (home_gen a) w"
    using assms(4) by (elim disjE) (simp_all add: on_home_frame_def role)
  also have "\<dots> = (emit (drop_link a @ away_effects E True (phones w)) w)
      \<lparr>home := without_serving (home w)\<rparr>"
    using h role
    by (auto simp: on_home_eof_def without_serving_def broadcast_away_emit drop_live_def emit_def)
  finally have 1: "handle E now msg w = (emit (drop_link a @ away_effects E True (phones w)) w)
      \<lparr>home := without_serving (home w)\<rparr>" .
  have 2: "mset (away_effects E True (phones w)) =
      mset (map (\<lambda>c. ToPhone c (host_away_note E True)) (ready_chans (phones w)))"
    by (rule mset_away_effects) (use assms in \<open>auto simp: hub_inv_def session_inv_def\<close>)
  show ?thesis using 1 2 by blast
qed

lemma serving_link_lost_witness:
  "\<exists>notes. handle answer_env 0 (HomeEof (home_gen (demo_link 1))) demo_world =
      (emit (drop_link (demo_link 1) @ notes) demo_world)\<lparr>home := without_serving (home demo_world)\<rparr> \<and>
    mset notes = mset (map (\<lambda>c. ToPhone c (host_away_note answer_env True)) (ready_chans (phones demo_world)))"
  by (rule serving_link_lost) (simp_all add: hub_inv_demo)

section \<open>Frames of other connections\<close>

text \<open>
  A frame or an end that comes from a connection which neither serves nor is the candidate
  (one that was replaced, refused or timed out, and whose task has not stopped yet) changes
  nothing at all.
\<close>

theorem stale_connection_ignored:
  assumes "g \<notin> gens (service_of (home w))"
  shows "handle E now (HomeFrame g msg) w = w \<and> handle E now (HomeEof g) w = w"
  using assms by (simp add: role_Unknown [symmetric] on_home_frame_def on_home_eof_def)

lemma stale_connection_ignored_witness:
  "handle answer_env 0 (HomeFrame (HomeGen 9) LeaderReady) demo_waiting = demo_waiting \<and>
   handle answer_env 0 (HomeEof (HomeGen 9)) demo_waiting = demo_waiting"
  by (rule stale_connection_ignored) (simp add: gens_def demo_link_def)

fun to_phone :: "effect \<Rightarrow> bool" where
  "to_phone (ToPhone c t) = True"
| "to_phone _ = False"

lemma to_phone_filters [simp]:
  "filter to_phone (drop_link l) = []" "filter to_phone (link_send l m) = []"
  "filter to_phone (load_effects E l rs) = []" "filter to_phone (drop_incoming i) = []"
  "filter to_phone (drop_live l') = []"
  by (auto simp: drop_link_def link_send_def load_effects_def drop_incoming_def drop_live_def
      filter_empty_conv split: option.splits)

definition phone_texts :: "world \<Rightarrow> effect list" where
  "phone_texts w = filter to_phone (effects w)"

lemma phone_texts_emit [simp]: "phone_texts (emit es w) = phone_texts w @ filter to_phone es"
  by (simp add: phone_texts_def)

lemma phone_texts_cong: "effects w' = effects w \<Longrightarrow> phone_texts w' = phone_texts w"
  by (simp add: phone_texts_def)

lemma phone_texts_update [simp]:
  "phone_texts (w\<lparr>home := h\<rparr>) = phone_texts w" "phone_texts (w\<lparr>outstanding := d\<rparr>) = phone_texts w"
  "phone_texts (w\<lparr>next_req := n\<rparr>) = phone_texts w" "phone_texts (w\<lparr>refused_version := v\<rparr>) = phone_texts w"
  "phone_texts (put_candidate i s w) = phone_texts w" "phone_texts (snd (take_candidate g w)) = phone_texts w"
  by (simp_all add: phone_texts_def)

lemma phone_texts_candidate_ops [simp]:
  "phone_texts (fail_incoming g w) = phone_texts w"
  "phone_texts (send_follower_initialize E l w) = phone_texts w"
  "phone_texts (fold (load_session E l) rs w) = phone_texts w"
  by (simp_all add: fail_incoming_def abort_def send_follower_initialize_def alloc_req_def
      fold_load_session Let_def split: home.splits)

lemma phone_texts_handshake [simp]:
  "phone_texts (on_registered E now g r v w) = phone_texts w"
  "phone_texts (on_leader_ready E g w) = phone_texts w"
  by (auto simp: on_registered_def on_leader_ready_def take_candidate_def Let_def
      split: home.splits incoming.splits)

definition quiet :: "world \<Rightarrow> world \<Rightarrow> bool" where
  "quiet w w' \<longleftrightarrow> phone_texts w' = phone_texts w \<or>
     serving (service_of (home w)) = None \<and> serving (service_of (home w')) \<noteq> None"

lemma finish_successor_quiet:
  assumes "home w = with_slot i slot" and "phone_texts u = phone_texts w"
  shows "quiet w (finish_successor E l slot u)"
  using assms by (auto simp: quiet_def finish_successor_def arm_def cutover_def split: option.splits)

lemma after_follower_initialize_quiet:
  assumes "role_of w g = Candidate"
  shows "quiet w (after_follower_initialize E g w)"
proof -
  obtain i slot where t: "take_candidate g w = (Some (i, slot), w\<lparr>home := Away\<rparr>)"
    and h: "home w = with_slot i slot"
    using take_candidate_role [OF assms] by auto
  note fin = finish_successor_quiet [OF h]
  show ?thesis
    by (auto simp: after_follower_initialize_def t case_prod_beta Let_def fin
        split: incoming.splits option.splits) (simp_all add: quiet_def)
qed

lemma after_load_result_quiet:
  assumes "role_of w g = Candidate"
  shows "quiet w (after_load_result E g k w)"
proof -
  obtain i slot where t: "take_candidate g w = (Some (i, slot), w\<lparr>home := Away\<rparr>)"
    and h: "home w = with_slot i slot"
    using take_candidate_role [OF assms] by auto
  note fin = finish_successor_quiet [OF h]
  show ?thesis
    by (auto simp: after_load_result_def t fin split: incoming.splits load_progress.splits)
      (simp_all add: quiet_def)
qed

lemma quiet_outstanding: "quiet (w\<lparr>outstanding := d\<rparr>) w' \<Longrightarrow> quiet w w'"
  by (simp add: quiet_def)

lemma on_home_result_quiet:
  assumes "role_of w g = Candidate"
  shows "quiet w (on_home_result E g obj w)"
proof (cases "Option.bind (value_get obj ''id'') as_u64")
  case (Some n)
  let ?u = "w\<lparr>outstanding := hm_remove (HomeReqId n) (outstanding w)\<rparr>"
  have "quiet w (fail_incoming g ?u)" "quiet w ?u" by (simp_all add: quiet_def)
  moreover have "quiet w (after_follower_initialize E g ?u)" "quiet w (after_load_result E g k ?u)" for k
    by (rule quiet_outstanding, rule after_follower_initialize_quiet after_load_result_quiet,
        simp add: assms)+
  moreover have "quiet w w" by (simp add: quiet_def)
  ultimately show ?thesis using Some assms
    by (simp add: on_home_result_def Let_def split: option.splits wait.splits)
qed (simp add: on_home_result_def quiet_def)

text \<open>
  C12: Until it has taken over, a candidate reaches no phone: no frame of it, request,
  notification or response, sends a text to a phone unless that frame lets it take over
  where nothing served (the phones are then told that the host is back).
\<close>

theorem candidate_reaches_no_phone:
  assumes "role_of w g = Candidate"
  shows "phone_texts (on_home_frame E now g msg w) = phone_texts w \<or>
    serving (service_of (home w)) = None \<and>
    serving (service_of (home (on_home_frame E now g msg w))) \<noteq> None"
proof -
  have "quiet w w" by (simp add: quiet_def)
  then have "quiet w (on_home_acp E g pl w)" for pl
    using on_home_result_quiet [OF assms] assms
    by (simp add: on_home_acp_def Let_def split: sum.splits)
  then have "quiet w (on_home_frame E now g msg w)"
    using assms by (auto simp: on_home_frame_def) (auto simp: quiet_def split: leader_server.splits)
  then show ?thesis by (simp add: quiet_def)
qed

lemma candidate_reaches_no_phone_witness:
  "phone_texts (on_home_frame answer_env 0 (HomeGen 2) (leader_server.Acp ''method'') demo_waiting) =
     phone_texts demo_waiting \<or>
   serving (service_of (home demo_waiting)) = None \<and>
   serving (service_of (home (on_home_frame answer_env 0 (HomeGen 2) (leader_server.Acp ''method'') demo_waiting))) \<noteq> None"
  by (rule candidate_reaches_no_phone) (simp add: role_of_def demo_link_def)

section \<open>A successor that answers takes over\<close>

text \<open>\<open>text\<close> is a response without an error to the request with number \<open>n\<close>.\<close>

definition answers :: "env \<Rightarrow> string \<Rightarrow> u64 \<Rightarrow> bool" where
  "answers E text n \<longleftrightarrow>
     (case parse_rpc_text E text of
        Inl _ \<Rightarrow> False
      | Inr obj \<Rightarrow> Option.bind (value_get obj ''method'') as_str = None \<and>
          value_get obj ''id'' = Some (json_of_u64 n) \<and> value_get obj ''error'' = None)"

lemma on_home_acp_answers:
  assumes "answers E text n"
  shows "\<exists>obj. parse_rpc_text E text = Inr obj \<and> value_get obj ''error'' = None \<and>
    value_get obj ''id'' = Some (json_of_u64 n) \<and> on_home_acp E g text w = on_home_result E g obj w"
  using assms by (auto simp: answers_def on_home_acp_def Let_def split: sum.splits)

lemma initialize_answered:
  assumes "answers E text n" and "role_of w g = Candidate"
    and "hm_get (outstanding w) (HomeReqId n) = Some HubInitialize"
  shows "on_home_frame E now g (leader_server.Acp text) w =
    after_follower_initialize E g (w\<lparr>outstanding := hm_remove (HomeReqId n) (outstanding w)\<rparr>)"
proof -
  obtain obj where "on_home_acp E g text w = on_home_result E g obj w"
    and "value_get obj ''error'' = None" "value_get obj ''id'' = Some (json_of_u64 n)"
    using on_home_acp_answers [OF assms(1)] by blast
  then show ?thesis using assms by (simp add: on_home_frame_def on_home_result_def Let_def)
qed

lemma load_answered:
  assumes "answers E text n" and "role_of w g = Candidate"
    and "hm_get (outstanding w) (HomeReqId n) = Some HubLoad"
  shows "on_home_frame E now g (leader_server.Acp text) w =
    after_load_result E g (HomeReqId n) (w\<lparr>outstanding := hm_remove (HomeReqId n) (outstanding w)\<rparr>)"
proof -
  obtain obj where "on_home_acp E g text w = on_home_result E g obj w"
    and "value_get obj ''id'' = Some (json_of_u64 n)"
    using on_home_acp_answers [OF assms(1)] by blast
  then show ?thesis using assms by (simp add: on_home_frame_def on_home_result_def Let_def)
qed

text \<open>Who a candidate that completes takes over from.\<close>

definition slot_halts :: "candidate_slot \<Rightarrow> effect list" where
  "slot_halts slot = (case slot_incumbent slot of None \<Rightarrow> [] | Some inc \<Rightarrow> drop_live inc)"

lemma finish_successor_result:
  "home (finish_successor E l slot w) = Sole l"
  "halts (finish_successor E l slot w) = halts w @ slot_halts slot"
  by (simp_all add: finish_successor_def arm_def cutover_def slot_halts_def drop_live_def
      split: option.splits)

text \<open>The loads of a candidate, answered in any order.\<close>

definition load_all :: "env \<Rightarrow> instant \<Rightarrow> home_gen \<Rightarrow> string list \<Rightarrow> world \<Rightarrow> world" where
  "load_all E now g texts w = fold (\<lambda>text. handle E now (HomeFrame g (leader_server.Acp text))) texts w"

lemma mset_bt_remove:
  assumes "bt_wf m" and "bt_get m i = Some s"
  shows "mset (map fst (bt_remove i m)) = mset (map fst m) - {# i #}"
proof -
  obtain xs ys where "m = xs @ (i, s) # ys" "bt_remove i m = xs @ ys"
    using remove_split [OF assms] by blast
  then show ?thesis by simp
qed

lemma load_all_finishes:
  assumes "home w = with_slot (WaitLoads l p) slot" and "pending_ok p"
    and "role_of w (home_gen l) = Candidate"
    and "list_all2 (answers E) texts ns" and "mset (map HomeReqId ns) = mset (map fst (load_ids p))"
    and "\<forall>n \<in> set ns. hm_get (outstanding w) (HomeReqId n) = Some HubLoad"
  shows "home (load_all E now (home_gen l) texts w) = Sole \<lparr>link = l\<rparr> \<and>
    halts (load_all E now (home_gen l) texts w) = halts w @ slot_halts slot"
  using assms
proof (induction texts arbitrary: w p ns)
  case Nil
  then have "load_ids p = []" by simp
  with Nil.prems(2) show ?case by (auto simp: pending_ok_def)
next
  case (Cons t0 texts)
  from Cons.prems(4) obtain n ms where ns: "ns = n # ms" and a: "answers E t0 n"
    and rest: "list_all2 (answers E) texts ms"
    by (auto simp: list_all2_Cons1)
  let ?i = "HomeReqId n"
  let ?u = "w\<lparr>outstanding := hm_remove ?i (outstanding w)\<rparr>"
  have wf: "bt_wf (load_ids p)" using Cons.prems(2) by (simp add: pending_ok_def)
  have "?i \<in> set (map fst (load_ids p))"
    using Cons.prems(5) ns by (metis list.set_intros(1) list.simps(9) set_mset_mset)
  then obtain s where s: "bt_get (load_ids p) ?i = Some s"
    using bt.keys_iff [of ?i "load_ids p"] by (auto simp: bt_keys_def)
  have step: "handle E now (HomeFrame (home_gen l) (leader_server.Acp t0)) w =
      after_load_result E (home_gen l) ?i ?u"
    using load_answered [OF a Cons.prems(3)] Cons.prems(6) ns by simp
  have t: "take_candidate (home_gen l) ?u = (Some (WaitLoads l p, slot), ?u\<lparr>home := Away\<rparr>)"
    using take_candidate_role [of ?u "home_gen l"] Cons.prems(1,3)
    by (auto simp: with_slot_def role_of_def take_candidate_def split: option.splits if_splits)
  note L = loaded_Some [OF Cons.prems(2) s]
  have left: "mset (map HomeReqId ms) = mset (map fst (bt_remove ?i (load_ids p)))"
    unfolding mset_bt_remove [OF wf s] Cons.prems(5) [symmetric] ns by simp
  show ?case
  proof (cases "length (load_ids p) = 1")
    case True
    then have "size (mset (map HomeReqId ns)) = 1" unfolding Cons.prems(5) by simp
    then have "ms = []" by (simp add: ns)
    with rest have "texts = []" by simp
    then show ?thesis using step t L(2) True finish_successor_result
      by (simp add: load_all_def after_load_result_def)
  next
    case False
    let ?p = "p\<lparr>load_ids := bt_remove ?i (load_ids p),
                remaining := filter (\<lambda>t. t \<noteq> s) (remaining p)\<rparr>"
    let ?w = "put_candidate (WaitLoads l ?p) slot (?u\<lparr>home := Away\<rparr>)"
    have w: "handle E now (HomeFrame (home_gen l) (leader_server.Acp t0)) w = ?w"
      using step t L(2) False by (simp add: after_load_result_def)
    have dist: "distinct ns"
      using Cons.prems(5) wf by (metis bt.distinct_keys bt_keys_def distinct_map mset_eq_imp_distinct_iff)
    have "home (load_all E now (home_gen l) texts ?w) = Sole \<lparr>link = l\<rparr> \<and>
        halts (load_all E now (home_gen l) texts ?w) = halts ?w @ slot_halts slot"
    proof (rule Cons.IH [OF _ L(3) [OF False] _ rest])
      show "home ?w = with_slot (WaitLoads l ?p) slot" by simp
      show "role_of ?w (home_gen l) = Candidate"
        using Cons.prems(1,3) by (auto simp: role_of_def with_slot_def split: option.splits)
      show "mset (map HomeReqId ms) = mset (map fst (load_ids ?p))" using left by simp
      show "\<forall>n \<in> set ms. hm_get (outstanding ?w) (HomeReqId n) = Some HubLoad"
        using Cons.prems(6) dist by (auto simp: ns)
    qed
    then show ?thesis using w by (simp add: load_all_def)
  qed
qed

text \<open>The slot a new candidate gets: beside the link that serves, if one does.\<close>

definition slot_for :: "home \<Rightarrow> candidate_slot" where
  "slot_for h = \<lparr>slot_incumbent =
     (case h of Sole l \<Rightarrow> Some l | Dual r \<Rightarrow> Some (incumbent r) | _ \<Rightarrow> None)\<rparr>"

lemma slot_for_halts:
  "slot_halts (slot_for h) = (case serving (service_of h) of None \<Rightarrow> [] | Some a \<Rightarrow> drop_link a)"
  by (cases h) (simp_all add: slot_halts_def slot_for_def drop_live_def)

lemma accepted_slot:
  assumes "hub_inv w" and "counters_room w"
    and "l = \<lparr>home_gen = HomeGen (gen_num (next_gen w) + 1), out = o', halt = Some h\<rparr>"
    and "w1 = handle E t (Accepted o' h b) w"
  shows "home w1 = with_slot (WaitRegistered l (t + REGISTER_WAIT)) (slot_for (home w))"
    and "role_of w1 (home_gen l) = Candidate"
    and "halts w1 = halts w @
      (case candidate (service_of (home w)) of None \<Rightarrow> [] | Some (old, _) \<Rightarrow> drop_link old)"
proof -
  show h: "home w1 = with_slot (WaitRegistered l (t + REGISTER_WAIT)) (slot_for (home w))"
    and "halts w1 = halts w @
      (case candidate (service_of (home w)) of None \<Rightarrow> [] | Some (old, _) \<Rightarrow> drop_link old)"
    by (cases "home w"; simp add: assms(3,4) on_accepted_def with_slot_def slot_for_def Let_def
        abort_def drop_incoming_def)+
  have "gen_num (next_gen w) < gen_num (home_gen l)"
    using counters_roomD(1) [OF assms(2)] less_bump by (simp add: assms(3))
  then show "role_of w1 (home_gen l) = Candidate"
    using hub_invD(3) [OF assms(1)] h
    by (cases "home w") (auto simp: role_of_def with_slot_def slot_for_def home_inv_def
        dest!: incoming_ok_gen)
qed

text \<open>The candidate a step leaves in its slot, with its role.\<close>

lemma with_slot_role:
  assumes "home w = with_slot i slot" "role_of w g = Candidate" "incoming_link i' = incoming_link i"
    and "home w' = with_slot i' slot"
  shows "role_of w' g = Candidate" and "home_gen (incoming_link i) = g"
    and "take_candidate g w = (Some (i, slot), w\<lparr>home := Away\<rparr>)"
  using assms by (auto simp: role_of_def with_slot_def take_candidate_def split: option.splits if_splits)

lemma registered_ready_step:
  assumes "home w = with_slot (WaitRegistered l d) slot" and "role_of w (home_gen l) = Candidate"
    and "w' = handle E t (HomeFrame (home_gen l) (Registered True LEADER_PROTOCOL_VERSION)) w"
  shows "home w' = with_slot (WaitInitialize l) slot" and "role_of w' (home_gen l) = Candidate"
    and "hm_get (outstanding w') (HomeReqId (req_num (next_req w) + 1)) = Some HubInitialize"
    and "next_req w' = HomeReqId (req_num (next_req w) + 1)" and "watchers w' = watchers w"
    and "halts w' = halts w"
proof -
  let ?u = "w\<lparr>refused_version := None\<rparr>"
  have t: "take_candidate (home_gen l) ?u = (Some (WaitRegistered l d, slot), ?u\<lparr>home := Away\<rparr>)"
    by (rule with_slot_role(3)) (use assms(1,2) in \<open>auto simp: role_of_def\<close>)
  then have w': "w' = put_candidate (WaitInitialize l) slot (send_follower_initialize E l (?u\<lparr>home := Away\<rparr>))"
    using assms(2,3) by (simp add: on_home_frame_def on_registered_def)
  then show "home w' = with_slot (WaitInitialize l) slot" by simp
  from with_slot_role(1) [OF assms(1,2) _ this] show "role_of w' (home_gen l) = Candidate" by simp
  show "hm_get (outstanding w') (HomeReqId (req_num (next_req w) + 1)) = Some HubInitialize"
    and "next_req w' = HomeReqId (req_num (next_req w) + 1)" and "watchers w' = watchers w"
    and "halts w' = halts w"
    by (simp_all add: w') (simp_all add: send_follower_initialize_def alloc_req_def Let_def)
qed

text \<open>The ids of the loads a candidate is asked for, from the counter before them.\<close>

definition load_numbers :: "u64 \<Rightarrow> world \<Rightarrow> u64 list" where
  "load_numbers n w = map (\<lambda>k. n + word_of_nat (Suc k)) [0..<length (bts_collect (hm_keys (watchers w)))]"

lemma initialized_step:
  assumes "home w = with_slot (WaitInitialize l) slot" and "role_of w (home_gen l) = Candidate"
    and "hm_get (outstanding w) (HomeReqId n) = Some HubInitialize" and "answers E a n"
    and "w' = handle E t (HomeFrame (home_gen l) (leader_server.Acp a)) w" and "watchers w = []"
  shows "home w' = Sole \<lparr>link = l\<rparr> \<and> halts w' = halts w @ slot_halts slot"
proof -
  let ?u = "w\<lparr>outstanding := hm_remove (HomeReqId n) (outstanding w)\<rparr>"
  have "w' = after_follower_initialize E (home_gen l) ?u"
    using initialize_answered [OF assms(4,2,3)] assms(5) by simp
  moreover have "take_candidate (home_gen l) ?u = (Some (WaitInitialize l, slot), ?u\<lparr>home := Away\<rparr>)"
    by (rule with_slot_role(3)) (use assms(1,2) in simp_all)
  ultimately show ?thesis
    by (simp add: after_follower_initialize_def assms(6) hm_keys_def start_loads_Nil finish_successor_result)
qed

lemma initialized_loads:
  assumes "home w = with_slot (WaitInitialize l) slot" and "role_of w (home_gen l) = Candidate"
    and "hm_get (outstanding w) (HomeReqId n) = Some HubInitialize" and "answers E a n"
    and "w' = handle E t (HomeFrame (home_gen l) (leader_server.Acp a)) w" and "watchers w \<noteq> []"
    and "has_room (req_num (next_req w)) (length (watchers w))"
  shows "\<exists>p. home w' = with_slot (WaitLoads l p) slot \<and> pending_ok p \<and>
    role_of w' (home_gen l) = Candidate \<and> halts w' = halts w \<and>
    map fst (load_ids p) = map HomeReqId (load_numbers (req_num (next_req w)) w) \<and>
    (\<forall>i \<in> set (map fst (load_ids p)). hm_get (outstanding w') i = Some HubLoad)"
proof -
  let ?u = "w\<lparr>outstanding := hm_remove (HomeReqId n) (outstanding w)\<rparr>"
  have eq: "w' = after_follower_initialize E (home_gen l) ?u"
    using initialize_answered [OF assms(4,2,3)] assms(5) by simp
  have t: "take_candidate (home_gen l) ?u = (Some (WaitInitialize l, slot), ?u\<lparr>home := Away\<rparr>)"
    by (rule with_slot_role(3)) (use assms(1,2) in simp_all)
  have "hm_keys (watchers w) \<noteq> []" "has_room (req_num (next_req w)) (length (hm_keys (watchers w)))"
    using assms(6,7) by (simp_all add: hm_keys_def)
  then obtain p n' where st: "start_loads (hm_keys (watchers w)) bump_req (next_req w) = (Some p, n')"
    and p: "pending_ok p"
    and ids: "map fst (load_ids p) = map HomeReqId (load_numbers (req_num (next_req w)) w)"
    using start_loads_bump [of "next_req w" "hm_keys (watchers w)"] by (auto simp: load_numbers_def)
  have w': "w' = put_candidate (WaitLoads l p) slot
      (fold (load_session E l) (requests p) (?u\<lparr>home := Away, next_req := n'\<rparr>))"
    by (simp add: eq after_follower_initialize_def t st)
  then have h: "home w' = with_slot (WaitLoads l p) slot" by simp
  have "inj_on fst (set (load_ids p))"
    using p bt.distinct_keys by (force simp: pending_ok_def bt_keys_def distinct_map)
  then have "hm_get (outstanding w') i = Some HubLoad" if "i \<in> set (map fst (load_ids p))" for i
    using that hm.get_fold_insert [of _ "load_ids p" fst "\<lambda>_. HubLoad"]
    by (auto simp: w' fold_load_session requests_def)
  moreover have "role_of w' (home_gen l) = Candidate"
    using with_slot_role(1) [OF assms(1,2) _ h] by simp
  moreover have "halts w' = halts w" by (simp add: w')
  ultimately show ?thesis using h p ids by blast
qed

text \<open>
  C13: A connection that registers as ready with the right version, answers the hub's
  \<open>initialize\<close> and then answers the loads it was asked for, in any order, serves in the end,
  whatever served before: the connection that served and a candidate that was already there
  have been told to stop, each once and in that order of the handshake. The numbers it has to
  answer are the next ones of the hub's counter.
\<close>

theorem successor_takes_over:
  assumes "hub_inv w" and "counters_room w"
    and "l = \<lparr>home_gen = HomeGen (gen_num (next_gen w) + 1), out = o', halt = Some h\<rparr>"
    and "w1 = handle E t1 (Accepted o' h b) w"
    and "w2 = handle E t2 (HomeFrame (home_gen l) (Registered True LEADER_PROTOCOL_VERSION)) w1"
    and "n = req_num (next_req w) + 1" and "answers E a n"
    and "w3 = handle E t3 (HomeFrame (home_gen l) (leader_server.Acp a)) w2"
    and "mset ns = mset (load_numbers n w)" and "list_all2 (answers E) texts ns"
    and "w4 = load_all E t4 (home_gen l) texts w3"
  shows "home w4 = Sole \<lparr>link = l\<rparr> \<and> halts w4 = halts w @
    (case candidate (service_of (home w)) of None \<Rightarrow> [] | Some (old, _) \<Rightarrow> drop_link old) @
    (case serving (service_of (home w)) of None \<Rightarrow> [] | Some a \<Rightarrow> drop_link a)"
proof -
  note A = accepted_slot [OF assms(1-4)]
  note R = registered_ready_step [OF A(1,2) assms(5)]
  have same: "next_req w1 = next_req w" "watchers w1 = watchers w"
    by (simp_all add: assms(4))
  have init: "hm_get (outstanding w2) (HomeReqId n) = Some HubInitialize"
    using R(3) by (simp add: assms(6) same)
  show ?thesis
  proof (cases "watchers w")
    case Nil
    then have "load_numbers n w = []" by (simp add: load_numbers_def hm_keys_def bts_collect_def)
    then have "texts = []" using assms(9,10) by simp
    moreover have "watchers w2 = []" using Nil R(5) same by simp
    ultimately show ?thesis
      using initialized_step [OF R(1,2) init assms(7,8)] A(3) R(6) assms(11)
      by (simp add: load_all_def slot_for_halts)
  next
    case (Cons x xs)
    have "has_room (req_num (next_req w)) (Suc (length (watchers w)))"
      using assms(2) by (simp add: counters_room_def)
    then have room: "has_room (req_num (next_req w2)) (length (watchers w2))"
      using has_room_bump R(4,5) same by simp
    have "watchers w2 \<noteq> []" using Cons R(5) same by simp
    from initialized_loads [OF R(1,2) init assms(7,8) this room] obtain p where
      P: "home w3 = with_slot (WaitLoads l p) (slot_for (home w))" "pending_ok p"
        "role_of w3 (home_gen l) = Candidate" "halts w3 = halts w2"
        "map fst (load_ids p) = map HomeReqId (load_numbers (req_num (next_req w2)) w2)"
        "\<forall>i \<in> set (map fst (load_ids p)). hm_get (outstanding w3) i = Some HubLoad"
      by blast
    have "load_numbers (req_num (next_req w2)) w2 = load_numbers n w"
      using R(4,5) same assms(6) by (simp add: load_numbers_def)
    then have ids: "map fst (load_ids p) = map HomeReqId (load_numbers n w)" using P(5) by simp
    have m: "mset (map HomeReqId ns) = mset (map fst (load_ids p))"
      unfolding ids using assms(9) by (simp only: mset_map)
    have "set ns = set (load_numbers n w)" using assms(9) by (rule mset_eq_setD)
    then have "\<forall>k \<in> set ns. hm_get (outstanding w3) (HomeReqId k) = Some HubLoad"
      using P(6) unfolding ids by simp
    from load_all_finishes [OF P(1-3) assms(10) m this] show ?thesis
      using A(3) R(6) P(4) assms(11) by (simp add: slot_for_halts)
  qed
qed

definition handshake_env :: env where
  "handshake_env = demo_env
     [(''ready'', json_obj [(''id'', json_of_u64 4), (''result'', json_obj [])]),
      (''loaded'', json_obj [(''id'', json_of_u64 5), (''result'', json_obj [])])]"

lemma successor_takes_over_witness:
  "home (load_all handshake_env 4 (HomeGen 2) [''loaded'']
     (handle handshake_env 3 (HomeFrame (HomeGen 2) (leader_server.Acp ''ready''))
       (handle handshake_env 2 (HomeFrame (HomeGen 2) (Registered True LEADER_PROTOCOL_VERSION))
         (handle handshake_env 1 (Accepted 7 8 9) demo_world)))) =
   Sole \<lparr>link = \<lparr>home_gen = HomeGen 2, out = 7, halt = Some 8\<rparr>\<rparr>"
proof -
  have "answers handshake_env ''ready'' 4" and "answers handshake_env ''loaded'' 5" by code_simp+
  moreover have "load_numbers 4 demo_world = [5]"
    by (simp add: load_numbers_def hm_keys_def bts_collect_def)
  ultimately show ?thesis
    using successor_takes_over [OF hub_inv_demo counters_room_demo refl refl refl refl, where
        E = handshake_env and a = "''ready''" and ns = "[5]" and texts = "[''loaded'']" and
        o' = 7 and h = 8 and b = 9 and ?t1.0 = 1 and ?t2.0 = 2 and ?t3.0 = 3 and ?t4.0 = 4]
    by simp
qed

end
