(* ===== verification/Hub_Requests.thy ===== *)
theory Hub_Requests
  imports Hub_Service
begin

text \<open>
  Requests from phones and their responses: how a request is rewritten and forwarded, that its
  entry stays until it is answered, that the response goes to the phone that asked under the id
  the phone chose, once, and what a phone is told when there is no host or it has not initialized.
\<close>

section \<open>Forwarding\<close>

text \<open>\<open>w'\<close> is \<open>w\<close> after the request \<open>obj\<close> of phone \<open>p\<close> went out on \<open>c\<close> under a new number.\<close>

definition forwarded :: "env \<Rightarrow> phone_id \<Rightarrow> json \<Rightarrow> json \<Rightarrow> chan \<Rightarrow> world \<Rightarrow> world \<Rightarrow> bool" where
  "forwarded E p i obj c w w' \<longleftrightarrow>
     (let n = req_num (next_req w) + 1 in
      case index_set obj ''id'' (json_of_u64 n) of
        None \<Rightarrow> False
      | Some obj' \<Rightarrow> w' = emit [ToHome c (acp (to_text E obj'))]
          (w\<lparr>next_req := HomeReqId n,
             outstanding := hm_insert (HomeReqId n) (Forwarded p (JsonId i)) (outstanding w)\<rparr>))"

lemma forward_request_forwarded:
  assumes "is_object obj" and "mux_out w = Some c"
  shows "forwarded E p i obj c w (forward_request E p i obj w)"
  using index_set_object [OF assms(1)] assms(2)
  by (auto simp: forwarded_def forward_request_def alloc_req_def Let_def split: option.splits)

lemma on_phone_text_request:
  assumes "parse_rpc_text E text = Inr obj" and "value_get obj ''method'' = Some (String m)"
    and "value_get obj ''id'' = Some i" and "hm_get (phones w) p \<noteq> None"
  shows "on_phone_text E p text w = on_phone_request E p m i obj w"
  using assms by (auto simp: on_phone_text_def on_rpc_def)

text \<open>The methods the hub treats in a way of its own.\<close>

definition special_methods :: "string list" where
  "special_methods = [''initialize'', ''authenticate'', ''session/load'', ''session/resume'', ''session/close'']"

lemma request_forwarded_core:
  assumes "hub_inv w" and "counters_room w"
    and "parse_rpc_text E tx = Inr obj" and "value_get obj ''method'' = Some (String m)"
    and "value_get obj ''id'' = Some i" and "hm_get (phones w) p \<noteq> None"
    and "m \<notin> set special_methods" and "starts_with ''session/'' m \<longrightarrow> phone_ready w p"
    and "mux_out w = Some c"
  shows "forwarded E p i obj c w (handle E now (PhoneText p tx) w) \<and>
    hm_get (outstanding w) (HomeReqId (req_num (next_req w) + 1)) = None \<and>
    hm_get (claims w) (HomeReqId (req_num (next_req w) + 1)) = None"
proof -
  have "handle E now (PhoneText p tx) w = forward_request E p i obj w"
    using on_phone_text_request [OF assms(3-6)] assms(7,8)
    by (auto simp: on_phone_request_def special_methods_def)
  then show ?thesis
    using forward_request_forwarded [OF parse_rpc_text_object [OF assms(3)] assms(9)]
      fresh_req [OF hub_invD(2) [OF assms(1)] counters_roomD(3) [OF assms(2)]] by simp
qed

text \<open>
  C14: A request of a phone, with a method the hub has no rule for, goes to the connection that
  serves, unchanged but for its id: that becomes a number that is in no table, and the table
  remembers which phone asked and under which id. Nothing else changes.
\<close>

theorem request_forwarded:
  assumes "hub_inv w" and "counters_room w"
    and "parse_rpc_text E tx = Inr obj" and "value_get obj ''method'' = Some (String m)"
    and "value_get obj ''id'' = Some i" and "hm_get (phones w) p \<noteq> None"
    and "m \<notin> set special_methods" and "starts_with ''session/'' m \<longrightarrow> phone_ready w p"
    and "mux_out w = Some c"
  shows "forwarded E p i obj c w (handle E now (PhoneText p tx) w) \<and>
    hm_get (outstanding w) (HomeReqId (req_num (next_req w) + 1)) = None \<and>
    hm_get (claims w) (HomeReqId (req_num (next_req w) + 1)) = None"
  by (rule request_forwarded_core) (fact assms)+

definition request_env :: env where
  "request_env = demo_env
     [(''prompt'', json_obj [(''id'', json_of_u64 9), (''method'', String ''session/prompt'')]),
      (''load'', json_obj [(''id'', json_of_u64 9), (''method'', String ''session/load''),
        (''params'', json_obj [(''sessionId'', String ''t'')])]),
      (''close'', json_obj [(''id'', json_of_u64 9), (''method'', String ''session/close''),
        (''params'', json_obj [(''sessionId'', String ''s'')])]),
      (''initialize'', json_obj [(''id'', json_of_u64 9), (''method'', String ''initialize'')]),
      (''answer'', json_obj [(''id'', json_of_u64 2), (''result'', json_obj [])]),
      (''answered'', json_obj [(''id'', json_of_u64 7), (''result'', json_obj [])])]"

lemma order_ok_request [simp]: "order_ok request_env"
  by (simp add: request_env_def)

lemma request_forwarded_witness:
  "forwarded request_env (PhoneId 1) (json_of_u64 9)
     (json_obj [(''id'', json_of_u64 9), (''method'', String ''session/prompt'')]) 201 demo_world
     (handle request_env 0 (PhoneText (PhoneId 1) ''prompt'') demo_world) \<and>
   hm_get (outstanding demo_world) (HomeReqId (req_num (next_req demo_world) + 1)) = None \<and>
   hm_get (claims demo_world) (HomeReqId (req_num (next_req demo_world) + 1)) = None"
  by (rule request_forwarded [where m = "''session/prompt''", OF hub_inv_demo counters_room_demo])
    code_simp+

text \<open>
  \<open>session/load\<close> and \<open>session/resume\<close> from a phone that has initialized also subscribe it: it
  becomes a watcher of the session the request names, and its driver if there was none. The
  request is forwarded as any other.
\<close>

theorem load_subscribes:
  assumes "parse_rpc_text E tx = Inr obj" and "value_get obj ''method'' = Some (String m)"
    and "value_get obj ''id'' = Some i" and "m = ''session/load'' \<or> m = ''session/resume''"
    and "phone_ready w p" and "session_id_in obj = Some s" and "mux_out w = Some c"
    and "w' = handle E now (PhoneText p tx) w"
  shows "forwarded E p i obj c (snd (watch p (SessionId s) w)) w' \<and>
    (\<forall>t. hm_get (watchers w') t = (if t = SessionId s
      then Some (hs_insert p (case hm_get (watchers w) t of Some ws \<Rightarrow> ws | None \<Rightarrow> []))
      else hm_get (watchers w) t)) \<and>
    (\<forall>t. hm_get (driver w') t = (if t = SessionId s \<and> hm_get (driver w) t = None then Some p
      else hm_get (driver w) t))"
proof -
  let ?u = "snd (watch p (SessionId s) w)"
  have "hm_get (phones w) p \<noteq> None"
    using assms(5) by (auto simp: phone_ready_def split: option.splits)
  from on_phone_text_request [OF assms(1-3) this]
  have w': "w' = forward_request E p i obj ?u"
    using assms(4-6,8) by (auto simp: on_phone_request_def)
  have "mux_out ?u = Some c" using assms(7) mux_out_cong [of ?u w] by simp
  from forward_request_forwarded [OF parse_rpc_text_object [OF assms(1)] this]
  show ?thesis using assms(5) by (simp add: w' watch_watchers watch_driver)
qed

lemma load_subscribes_witness:
  "hm_get (watchers (handle request_env 0 (PhoneText (PhoneId 1) ''load'') demo_world)) (SessionId ''t'') =
     Some [PhoneId 1]"
proof -
  have "parse_rpc_text request_env ''load'' = Inr (json_obj [(''id'', json_of_u64 9),
      (''method'', String ''session/load''), (''params'', json_obj [(''sessionId'', String ''t'')])])"
    and "phone_ready demo_world (PhoneId 1)" and "mux_out demo_world = Some 201" by code_simp+
  from load_subscribes [OF this(1) _ _ _ this(2) _ this(3) refl, of "''session/load''" "json_of_u64 9" "''t''" 0]
  show ?thesis
    by (simp add: value_get_json_obj session_id_in_def hs_insert_def hs_member_def hm_get_def)
qed

section \<open>Waiting for the response\<close>

text \<open>The message is a response to the request with number \<open>n\<close>, with or without an error.\<close>

fun responds :: "env \<Rightarrow> u64 \<Rightarrow> to_hub \<Rightarrow> bool" where
  "responds E n (HomeFrame g (leader_server.Acp tx)) =
     (case parse_rpc_text E tx of
        Inl _ \<Rightarrow> False
      | Inr obj \<Rightarrow> Option.bind (value_get obj ''method'') as_str = None \<and>
          value_get obj ''id'' = Some (json_of_u64 n))"
| "responds E n _ = False"

definition keeps_wait :: "home_req_id \<Rightarrow> world \<Rightarrow> world \<Rightarrow> bool" where
  "keeps_wait i w w' \<longleftrightarrow>
     (i \<le> next_req w \<longrightarrow> hm_get (outstanding w') i = hm_get (outstanding w) i \<and> i \<le> next_req w')"

lemma keeps_wait_same:
  "outstanding w' = outstanding w \<Longrightarrow> next_req w' = next_req w \<Longrightarrow> keeps_wait i w w'"
  by (simp add: keeps_wait_def)

lemma keeps_wait_trans: "keeps_wait i u v \<Longrightarrow> keeps_wait i v w \<Longrightarrow> keeps_wait i u w"
  by (simp add: keeps_wait_def)

lemma keeps_wait_from:
  assumes "outstanding w = outstanding u" "next_req w = next_req u"
  shows "keeps_wait i w w' \<longleftrightarrow> keeps_wait i u w'"
  using assms by (simp add: keeps_wait_def)

lemma keeps_wait_to:
  assumes "outstanding w' = outstanding u" "next_req w' = next_req u"
  shows "keeps_wait i w w' \<longleftrightarrow> keeps_wait i w u"
  using assms by (simp add: keeps_wait_def)

lemma keeps_wait_alloc:
  assumes "has_room (req_num (next_req w)) 1"
  shows "keeps_wait i w (w\<lparr>next_req := HomeReqId (req_num (next_req w) + 1),
      outstanding := hm_insert (HomeReqId (req_num (next_req w) + 1)) x (outstanding w)\<rparr>)"
    and "keeps_wait i w (w\<lparr>next_req := HomeReqId (req_num (next_req w) + 1)\<rparr>)"
  using next_req_less [OF assms] by (auto simp: keeps_wait_def)

lemma keeps_wait_remove:
  "j \<noteq> i \<Longrightarrow> keeps_wait i w (w\<lparr>outstanding := hm_remove j (outstanding w)\<rparr>)"
  by (simp add: keeps_wait_def)

lemma send_follower_initialize_wait:
  "has_room (req_num (next_req w)) 1 \<Longrightarrow> keeps_wait i w (send_follower_initialize E l w)"
  using keeps_wait_to [THEN iffD2, OF _ _ keeps_wait_alloc(1)]
  by (simp add: send_follower_initialize_def alloc_req_def Let_def)

lemma on_registered_wait:
  assumes "has_room (req_num (next_req w)) 1"
  shows "keeps_wait i w (on_registered E now g r v w)"
proof -
  have *: "keeps_wait i w (send_follower_initialize E l (w\<lparr>refused_version := x, home := h\<rparr>))" for l x h
    using send_follower_initialize_wait [of "w\<lparr>refused_version := x, home := h\<rparr>"] assms
    by (simp add: keeps_wait_def)
  have put: "keeps_wait i w (put_candidate c s u) = keeps_wait i w u" for c s u
    by (rule keeps_wait_to) simp_all
  have "keeps_wait i w (w\<lparr>refused_version := x, home := h\<rparr>)" for x h
    by (rule keeps_wait_same) simp_all
  then show ?thesis
    by (auto simp: on_registered_def Let_def put * take_candidate_def
        intro: keeps_wait_same split: home.splits incoming.splits)
qed

lemma on_leader_ready_wait:
  assumes "has_room (req_num (next_req w)) 1"
  shows "keeps_wait i w (on_leader_ready E g w)"
proof -
  have *: "keeps_wait i w (send_follower_initialize E l (w\<lparr>home := h\<rparr>))" for l h
    using send_follower_initialize_wait [of "w\<lparr>home := h\<rparr>"] assms by (simp add: keeps_wait_def)
  have put: "keeps_wait i w (put_candidate c s u) = keeps_wait i w u" for c s u
    by (rule keeps_wait_to) simp_all
  have "keeps_wait i w (w\<lparr>home := h\<rparr>)" for h by (rule keeps_wait_same) simp_all
  then show ?thesis
    by (auto simp: on_leader_ready_def Let_def put * take_candidate_def
        intro: keeps_wait_same split: home.splits incoming.splits)
qed

lemma load_requests_wait:
  assumes "has_room (req_num (next_req w)) (length (watchers w))"
    and "start_loads (hm_keys (watchers w)) bump_req (next_req w) = (Some p, n)"
  shows "keeps_wait i w (fold (load_session E l) (requests p) (w\<lparr>next_req := n\<rparr>))"
  using load_ids_new(1) [OF assms] load_ids_new(2) [OF assms, of i]
    fold_load_session_other [of i "requests p" E l "w\<lparr>next_req := n\<rparr>"]
  by (cases "i \<in> set (map fst (load_ids p))") (auto simp: keeps_wait_def requests_def)

lemma after_follower_initialize_wait:
  assumes "has_room (req_num (next_req w)) (length (watchers w))"
  shows "keeps_wait i w (after_follower_initialize E g w)"
proof -
  have put: "keeps_wait i w (put_candidate c s u) = keeps_wait i w u" for c s u
    by (rule keeps_wait_to) simp_all
  have fin: "keeps_wait i w (finish_successor E l s u) = keeps_wait i w u" for l s u
    by (rule keeps_wait_to)
      (simp_all add: finish_successor_def arm_def cutover_def split: option.splits)
  have same: "keeps_wait i w (w\<lparr>home := h\<rparr>)" for h by (rule keeps_wait_same) simp_all
  have loads: "keeps_wait i w (fold (load_session E l) (requests p) (w\<lparr>home := h, next_req := n\<rparr>))"
    if "start_loads (hm_keys (watchers w)) bump_req (next_req w) = (Some p, n)" for l p h n
    using load_requests_wait [of "w\<lparr>home := h\<rparr>" p n] assms that by (simp add: keeps_wait_def)
  have none: "keeps_wait i w (w\<lparr>home := h, next_req := n\<rparr>)"
    if "start_loads (hm_keys (watchers w)) bump_req (next_req w) = (None, n)" for h n
  proof -
    have "hm_keys (watchers w) = []" using that start_loads_None by (metis fst_conv)
    then have "n = next_req w" using that by (simp add: start_loads_Nil)
    then show ?thesis by (simp add: keeps_wait_def)
  qed
  show ?thesis
    by (auto simp: after_follower_initialize_def Let_def put fin take_candidate_def same loads none
        case_prod_beta prod_eq_iff intro: keeps_wait_same split: home.splits incoming.splits option.splits)
qed

lemma forward_request_wait:
  assumes "has_room (req_num (next_req w)) 1"
  shows "keeps_wait i w (forward_request E p j obj w)"
  using keeps_wait_alloc(1) [OF assms]
  by (auto simp: forward_request_def alloc_req_def Let_def keeps_wait_def split: option.splits)

lemma on_reverse_request_wait:
  assumes "has_room (req_num (next_req w)) 1"
  shows "keeps_wait i w (on_reverse_request E obj w)"
  using keeps_wait_alloc(2) [OF assms]
  by (auto simp: on_reverse_request_def alloc_req_def Let_def keeps_wait_def split: option.splits)

lemma on_home_result_wait:
  assumes room: "has_room (req_num (next_req w)) (length (watchers w))"
    and other: "value_get obj ''id'' \<noteq> Some (json_of_u64 (req_num i))"
  shows "keeps_wait i w (on_home_result E g obj w)"
proof (cases "Option.bind (value_get obj ''id'') as_u64")
  case (Some n)
  let ?u = "w\<lparr>outstanding := hm_remove (HomeReqId n) (outstanding w)\<rparr>"
  have "n \<noteq> req_num i" using Some other by (auto simp: bind_eq_Some_conv as_u64_eq_Some)
  then have u: "keeps_wait i w ?u" by (intro keeps_wait_remove) auto
  have "keeps_wait i ?u (after_follower_initialize E g ?u)"
    by (rule after_follower_initialize_wait) (simp add: room)
  then have "keeps_wait i w (after_follower_initialize E g ?u)" by (rule keeps_wait_trans [OF u])
  then show ?thesis using Some u
    by (auto simp: on_home_result_def Let_def keeps_wait_def split: option.splits wait.splits)
qed (simp add: on_home_result_def keeps_wait_def)

lemma handle_wait:
  assumes room: "counters_room w" and other: "\<not> responds E (req_num i) msg"
  shows "keeps_wait i w (handle E now msg w)"
proof -
  note r = counters_roomD [OF room]
  have acp: "keeps_wait i w (on_home_acp E g tx w)"
    if "\<not> responds E (req_num i) (HomeFrame g (leader_server.Acp tx))" for g tx
    using that r on_reverse_request_wait on_home_result_wait
    by (auto simp: on_home_acp_def Let_def keeps_wait_same split: sum.splits)
  have frame: "keeps_wait i w (on_home_frame E now g m w)" if "\<not> responds E (req_num i) (HomeFrame g m)" for g m
    using that acp [of g] r on_registered_wait on_leader_ready_wait
    by (cases m) (simp_all add: on_home_frame_def keeps_wait_same)
  have fwd: "keeps_wait i w (forward_request E p j obj u)"
    if "outstanding u = outstanding w" "next_req u = next_req w" for p j obj u
    using forward_request_wait [of u] r that by (simp add: keeps_wait_def)
  have "keeps_wait i w (on_phone_request E p m j obj w)" for p m j obj
    by (auto simp: on_phone_request_def Let_def keeps_wait_same intro!: fwd split: option.splits)
  then have "keeps_wait i w (on_phone_text E p tx w)" for p tx
    by (auto simp: on_phone_text_def on_rpc_def keeps_wait_same split: sum.splits option.splits)
  then show ?thesis using frame other
    by (cases msg) (simp_all add: keeps_wait_same shutdown_def abort_def split: home.splits)
qed

fun wake_responds :: "env \<Rightarrow> u64 \<Rightarrow> wake \<Rightarrow> bool" where
  "wake_responds E n (Recv t (Some msg)) = responds E n msg"
| "wake_responds E n _ = False"

lemma pending_kept_core:
  assumes "hub_runs E (Running t w) ks (Running t' w')" and "hub_inv w"
    and "HomeReqId n \<le> next_req w" and "\<forall>k \<in> set ks. \<not> wake_responds E n k"
  shows "hm_get (outstanding w') (HomeReqId n) = hm_get (outstanding w) (HomeReqId n)"
proof -
  let ?P = "\<lambda>s. \<forall>t u. s = Running t u \<longrightarrow> HomeReqId n \<le> next_req u \<and>
      hm_get (outstanding u) (HomeReqId n) = hm_get (outstanding w) (HomeReqId n)"
  have "?P (Running t' w')"
  proof (rule hub_loop.runs_keeps [OF assms(1), where keep = "\<lambda>k. \<not> wake_responds E n k" and P = ?P])
    show "?P s'" if "loop_allowed E s k" "\<not> wake_responds E n k" "?P s" "hub_step E s k s'" for s k s'
      using that(4)
    proof (cases rule: hub_step.cases)
      case (recv t now msg u)
      then show ?thesis using that handle_wait [of u E "HomeReqId n" msg now]
        by (simp add: keeps_wait_def)
    qed (use that in auto)
  qed (use assms in auto)
  then show ?thesis by simp
qed

text \<open>
  C15: Whatever the hub receives and whatever times out, the entry of a request that was handed
  out stays as it is until a response with its number arrives: neither other traffic nor the
  replacement or loss of home connections loses, duplicates or redirects a pending request.
\<close>

theorem pending_request_kept:
  assumes "hub_runs E (Running t w) ks (Running t' w')" and "hub_inv w"
    and "HomeReqId n \<le> next_req w" and "\<forall>k \<in> set ks. \<not> wake_responds E n k"
  shows "hm_get (outstanding w') (HomeReqId n) = hm_get (outstanding w) (HomeReqId n)"
  by (rule pending_kept_core) (fact assms)+

lemma pending_request_kept_witness:
  "hm_get (outstanding (handle (demo_env []) 1 (Accepted 7 8 9) demo_world)) (HomeReqId 2) =
     hm_get (outstanding demo_world) (HomeReqId 2)"
  by (rule pending_request_kept [OF demo_accepted hub_inv_demo])
    (simp_all add: less_eq_home_req_id_def)

section \<open>The response\<close>

lemma response_delivered_core:
  assumes "role_of w g = Mux" and "parse_rpc_text E tx = Inr obj"
    and "Option.bind (value_get obj ''method'') as_str = None"
    and "value_get obj ''id'' = Some (json_of_u64 n)"
    and "hm_get (outstanding w) (HomeReqId n) = Some (Forwarded p (JsonId i))"
    and "hm_get (phones w) p = Some slot"
    and "msg = HomeFrame g (leader_server.Acp tx)" and "w' = handle E now msg w"
  shows "\<exists>reply. index_set obj ''id'' i = Some reply \<and>
    effects w' = effects w @ [ToPhone (phone_out slot) (to_text E reply)] \<and>
    outstanding w' = hm_remove (HomeReqId n) (outstanding w) \<and> handle E now' msg w' = w'"
proof -
  obtain reply where reply: "index_set obj ''id'' i = Some reply"
    using index_set_object [OF parse_rpc_text_object [OF assms(2)]] by blast
  let ?u = "w\<lparr>outstanding := hm_remove (HomeReqId n) (outstanding w)\<rparr>"
  let ?v = "case session_id_in obj of Some s \<Rightarrow> snd (watch p (SessionId s) ?u) | None \<Rightarrow> ?u"
  have acp: "on_home_frame E t g (leader_server.Acp tx) x =
      (if role_of x g = role.Unknown then x else on_home_result E g obj x)" for t x
    using assms(2-4) by (simp add: on_home_frame_def on_home_acp_def)
  have w': "w' = send_phone p (to_text E reply) ?v"
    using assms(1,3-5,7,8) reply by (simp add: acp on_home_result_def Let_def split: option.splits)
  have v: "phones ?v = phones w" "outstanding ?v = outstanding ?u" "effects ?v = effects w"
    by (simp_all split: option.splits)
  have "effects w' = effects w @ [ToPhone (phone_out slot) (to_text E reply)]"
    using v assms(6) by (simp add: w' send_phone_def emit_def)
  moreover have out: "outstanding w' = hm_remove (HomeReqId n) (outstanding w)" using v by (simp add: w')
  moreover have "handle E now' msg w' = w'"
    using assms(4,7) by (simp add: acp on_home_result_def out)
  ultimately show ?thesis using reply by blast
qed

text \<open>
  A response from the connection that serves goes to the phone that asked, and to no one
  else, with nothing changed but its id, which is again the one the phone chose. The entry is
  gone then: the same response a second time has no effect.
\<close>

theorem response_delivered:
  assumes "role_of w g = Mux" and "parse_rpc_text E tx = Inr obj"
    and "Option.bind (value_get obj ''method'') as_str = None"
    and "value_get obj ''id'' = Some (json_of_u64 n)"
    and "hm_get (outstanding w) (HomeReqId n) = Some (Forwarded p (JsonId i))"
    and "hm_get (phones w) p = Some slot"
    and "msg = HomeFrame g (leader_server.Acp tx)" and "w' = handle E now msg w"
  shows "\<exists>reply. index_set obj ''id'' i = Some reply \<and>
    effects w' = effects w @ [ToPhone (phone_out slot) (to_text E reply)] \<and>
    outstanding w' = hm_remove (HomeReqId n) (outstanding w) \<and> handle E now' msg w' = w'"
  by (rule response_delivered_core) (fact assms)+

lemma response_delivered_witness:
  "\<exists>reply. index_set (json_obj [(''id'', json_of_u64 2), (''result'', json_obj [])]) ''id'' (json_of_u64 7) = Some reply \<and>
     effects (handle request_env 0 (HomeFrame (HomeGen 1) (leader_server.Acp ''answer'')) demo_world) =
       effects demo_world @ [ToPhone 102 (to_text request_env reply)]"
proof -
  have "parse_rpc_text request_env ''answer'' = Inr (json_obj [(''id'', json_of_u64 2), (''result'', json_obj [])])"
    by code_simp
  from response_delivered [OF _ this _ _ _ _ refl refl, of demo_world "HomeGen 1" 2 "PhoneId 2" "json_of_u64 7"
      "phone.Ready 102" 0]
  show ?thesis by (fastforce simp: role_of_def demo_link_def value_get_json_obj hm_get_def)
qed

text \<open>
  C16: From end to end: a phone's request, then anything at all that does not answer it, then the
  response of the connection that serves by then. The phone, if it is still there, gets the
  response under its own id, and nobody else gets anything.
\<close>

theorem request_answered_end_to_end:
  assumes "hub_inv w" and "counters_room w" and "order_ok E"
    and "parse_rpc_text E tx = Inr obj" and "value_get obj ''method'' = Some (String m)"
    and "value_get obj ''id'' = Some i" and "hm_get (phones w) p \<noteq> None"
    and "m \<notin> set special_methods" and "starts_with ''session/'' m \<longrightarrow> phone_ready w p"
    and "mux_out w = Some c" and "n = req_num (next_req w) + 1"
    and "hub_runs E (Running now (handle E now (PhoneText p tx) w)) ks (Running t' w')"
    and "\<forall>k \<in> set ks. \<not> wake_responds E n k"
    and "hm_get (phones w') p = Some slot" and "role_of w' g = Mux"
    and "parse_rpc_text E rx = Inr robj" and "Option.bind (value_get robj ''method'') as_str = None"
    and "value_get robj ''id'' = Some (json_of_u64 n)"
  shows "\<exists>reply. index_set robj ''id'' i = Some reply \<and>
    effects (handle E t'' (HomeFrame g (leader_server.Acp rx)) w') =
      effects w' @ [ToPhone (phone_out slot) (to_text E reply)]"
proof -
  let ?w = "handle E now (PhoneText p tx) w"
  from request_forwarded_core [OF assms(1,2,4-10)]
  have "forwarded E p i obj c w ?w" by blast
  then have num: "next_req ?w = HomeReqId n"
    and out: "hm_get (outstanding ?w) (HomeReqId n) = Some (Forwarded p (JsonId i))"
    by (auto simp: forwarded_def Let_def assms(11) split: option.splits)
  have inv: "hub_inv ?w" by (rule handle_inv [OF assms(1,3,2)]) simp
  have le: "HomeReqId n \<le> next_req ?w" unfolding num ..
  have "hm_get (outstanding w') (HomeReqId n) = Some (Forwarded p (JsonId i))"
    unfolding pending_kept_core [OF assms(12) inv le assms(13)] by (rule out)
  from response_delivered_core [OF assms(15-18) this assms(14) refl refl]
  show ?thesis by blast
qed

definition dialogue_env :: env where
  "dialogue_env = demo_env
     [(''prompt'', json_obj [(''id'', json_of_u64 9), (''method'', String ''session/prompt'')]),
      (''done'', json_obj [(''id'', json_of_u64 4), (''result'', json_obj [])])]"

lemma request_answered_end_to_end_witness:
  "\<exists>reply. index_set (json_obj [(''id'', json_of_u64 4), (''result'', json_obj [])]) ''id'' (json_of_u64 9) = Some reply \<and>
    effects (handle dialogue_env 3 (HomeFrame (HomeGen 1) (leader_server.Acp ''done''))
        (handle dialogue_env 2 (PhoneEof (PhoneId 2))
          (handle dialogue_env 1 (PhoneText (PhoneId 1) ''prompt'') demo_world))) =
      effects (handle dialogue_env 2 (PhoneEof (PhoneId 2))
          (handle dialogue_env 1 (PhoneText (PhoneId 1) ''prompt'') demo_world)) @
        [ToPhone 101 (to_text dialogue_env reply)]"
proof -
  let ?w = "handle dialogue_env 1 (PhoneText (PhoneId 1) ''prompt'') demo_world"
  let ?w' = "handle dialogue_env 2 (PhoneEof (PhoneId 2)) ?w"
  have ord: "order_ok dialogue_env" by (simp add: dialogue_env_def)
  have "next_gen ?w = HomeGen 1 \<and> next_phone ?w = PhoneId 3 \<and> next_req ?w = HomeReqId 4 \<and>
      reverse_seq ?w = 2 \<and> watchers ?w = watchers demo_world"
    by code_simp
  then have "counters_room ?w" by (simp add: counters_room_def has_room_def)
  then have run: "hub_runs dialogue_env (Running 1 ?w) [Recv 2 (Some (PhoneEof (PhoneId 2)))] (Running 2 ?w')"
    using ord by (simp add: runs_Cons_iff hub_step_iff)
  have 1: "parse_rpc_text dialogue_env ''prompt'' =
      Inr (json_obj [(''id'', json_of_u64 9), (''method'', String ''session/prompt'')])"
    and 2: "mux_out demo_world = Some 201" "phone_ready demo_world (PhoneId 1)"
    and 3: "hm_get (phones ?w') (PhoneId 1) = Some (phone.Ready 101)" "role_of ?w' (HomeGen 1) = Mux"
    and 4: "parse_rpc_text dialogue_env ''done'' = Inr (json_obj [(''id'', json_of_u64 4), (''result'', json_obj [])])"
    and 5: "''session/prompt'' \<notin> set special_methods"
    by code_simp+
  from request_answered_end_to_end [OF hub_inv_demo counters_room_demo ord 1 _ _ _ 5 _ 2(1) _ run _ 3 4,
      of "json_of_u64 9" 4 3]
  show ?thesis by (simp add: value_get_json_obj 2(2) hm_get_def)
qed

section \<open>What a phone is told instead\<close>

text \<open>
  While no connection serves, a request is answered at once with error -32003 under the id
  of the request, naming the protocol version that was refused last if there is one, and the hub
  keeps no trace of it.
\<close>

theorem away_answered:
  assumes "parse_rpc_text E tx = Inr obj" and "value_get obj ''method'' = Some (String m)"
    and "value_get obj ''id'' = Some i" and "hm_get (phones w) p = Some slot"
    and "m \<notin> set special_methods" and "starts_with ''session/'' m \<longrightarrow> phone_ready w p"
    and "serving (service_of (home w)) = None"
  shows "handle E now (PhoneText p tx) w = emit
    [ToPhone (phone_out slot) (rpc_error E i (word_of_int (- 32003))
       (case refused_version w of
          None \<Rightarrow> ''host is away''
        | Some v \<Rightarrow> ''host is away (unsupported leader protocol version '' @ show_nat (unat v) @ '')''))] w"
proof -
  have "mux_out w = None" using assms(7) by (cases "home w") (simp_all add: mux_out_def mux_link_def)
  moreover have "handle E now (PhoneText p tx) w = forward_request E p i obj w"
    using on_phone_text_request [OF assms(1-3)] assms(4-6)
    by (auto simp: on_phone_request_def special_methods_def)
  ultimately show ?thesis using assms(4)
    by (simp add: forward_request_def send_phone_def away_error_def split: option.splits)
qed

lemma away_answered_witness:
  "handle request_env 0 (PhoneText (PhoneId 1) ''prompt'') (demo_world\<lparr>home := Away, refused_version := Some 7\<rparr>) =
   emit [ToPhone 101 (rpc_error request_env (json_of_u64 9) (word_of_int (- 32003))
     ''host is away (unsupported leader protocol version 7)'')]
     (demo_world\<lparr>home := Away, refused_version := Some 7\<rparr>)"
proof -
  let ?w = "demo_world\<lparr>home := Away, refused_version := Some 7\<rparr>"
  have "parse_rpc_text request_env ''prompt'' =
      Inr (json_obj [(''id'', json_of_u64 9), (''method'', String ''session/prompt'')])"
    and "''session/prompt'' \<notin> set special_methods" and "phone_ready ?w (PhoneId 1)"
    and "show_nat 7 = ''7''"
    by code_simp+
  from away_answered [OF this(1) _ _ _ this(2), of "json_of_u64 9" ?w "PhoneId 1" "phone.Ready 101" 0] this(3,4)
  show ?thesis by (simp add: value_get_json_obj hm_get_def)
qed

text \<open>
  A phone that has not initialized gets error -32600 for every session request but
  \<open>session/close\<close>, and nothing is forwarded or recorded.
\<close>

theorem uninitialized_refused:
  assumes "parse_rpc_text E tx = Inr obj" and "value_get obj ''method'' = Some (String m)"
    and "value_get obj ''id'' = Some i" and "hm_get (phones w) p = Some (Connected c)"
    and "starts_with ''session/'' m" and "m \<noteq> ''session/close''"
  shows "handle E now (PhoneText p tx) w = emit
    [ToPhone c (rpc_error E i (word_of_int (- 32600)) ''phone has not initialized'')] w"
proof -
  have "\<not> phone_ready w p" using assms(4) by (simp add: phone_ready_def)
  moreover have "m \<noteq> ''initialize''" "m \<noteq> ''authenticate''" using assms(5) by (auto simp: starts_with_def)
  ultimately show ?thesis using on_phone_text_request [OF assms(1-3)] assms(4-6)
    by (simp add: on_phone_request_def send_phone_def)
qed

lemma uninitialized_refused_witness:
  "handle request_env 0 (PhoneText (PhoneId 3) ''load'') demo_world = emit
     [ToPhone 103 (rpc_error request_env (json_of_u64 9) (word_of_int (- 32600)) ''phone has not initialized'')]
     demo_world"
proof -
  have "parse_rpc_text request_env ''load'' = Inr (json_obj [(''id'', json_of_u64 9),
      (''method'', String ''session/load''), (''params'', json_obj [(''sessionId'', String ''t'')])])"
    by code_simp
  from uninitialized_refused [OF this, of "''session/load''" "json_of_u64 9" demo_world "PhoneId 3" 103 0]
  show ?thesis by (simp add: value_get_json_obj hm_get_def starts_with_def)
qed

text \<open>
  C19: \<open>session/close\<close> is the exception: it is forwarded even for a phone that has not
  initialized, and so watches nothing; the watchers of the session stay as they are.
\<close>

theorem close_forwarded_uninitialized:
  assumes "parse_rpc_text E tx = Inr obj" and "value_get obj ''method'' = Some (String ''session/close'')"
    and "value_get obj ''id'' = Some i" and "hm_get (phones w) p = Some (Connected c)"
    and "mux_out w = Some h" and "session_inv w" and "order_ok E"
  shows "\<exists>u. u = (case session_id_in obj of Some s \<Rightarrow> unwatch E p (SessionId s) w | None \<Rightarrow> w) \<and>
    forwarded E p i obj h u (handle E now (PhoneText p tx) w) \<and>
    (\<forall>s. hm_get (watchers u) s = hm_get (watchers w) s)"
proof -
  let ?u = "case session_id_in obj of Some s \<Rightarrow> unwatch E p (SessionId s) w | None \<Rightarrow> w"
  have "handle E now (PhoneText p tx) w = forward_request E p i obj ?u"
    using on_phone_text_request [OF assms(1-3)] assms(4) by (simp add: on_phone_request_def)
  moreover have "mux_out ?u = Some h" using assms(5) mux_out_cong [of ?u w] by (simp split: option.splits)
  from forward_request_forwarded [OF parse_rpc_text_object [OF assms(1)] this]
  have "forwarded E p i obj h ?u (forward_request E p i obj ?u)" .
  moreover have "hm_get (watchers (unwatch E p s w)) t = hm_get (watchers w) t" for s t
  proof (cases "t = s \<and> hm_get (watchers w) s \<noteq> None")
    case True
    then obtain ws where ws: "hm_get (watchers w) s = Some ws" by auto
    then have "ws \<noteq> []" "p \<notin> set ws"
      using session_invD(4) [OF assms(6) ws] assms(4) by (auto simp: watch_ok_def ready_in_def)
    moreover from this have "hs_remove p ws = ws" by (auto simp: hs_remove_def filter_id_conv)
    ultimately show ?thesis using True ws by (simp add: unwatch_watchers)
  next
    case False
    then show ?thesis by (cases "t = s") (auto simp: unwatch_other unwatch_watchers)
  qed
  ultimately show ?thesis by (auto split: option.splits)
qed

lemma close_forwarded_uninitialized_witness:
  "\<exists>u. forwarded request_env (PhoneId 3) (json_of_u64 9)
      (json_obj [(''id'', json_of_u64 9), (''method'', String ''session/close''),
        (''params'', json_obj [(''sessionId'', String ''s'')])]) 201 u
      (handle request_env 0 (PhoneText (PhoneId 3) ''close'') demo_world)"
proof -
  have "parse_rpc_text request_env ''close'' = Inr (json_obj [(''id'', json_of_u64 9),
      (''method'', String ''session/close''), (''params'', json_obj [(''sessionId'', String ''s'')])])"
    and "mux_out demo_world = Some 201"
    by code_simp+
  from close_forwarded_uninitialized [OF this(1) _ _ _ this(2), of "json_of_u64 9" "PhoneId 3" 103 0]
  show ?thesis using hub_invD(1) [OF hub_inv_demo] by (simp add: value_get_json_obj hm_get_def) blast
qed

text \<open>
  \<open>initialize\<close> is answered by the hub itself, under the id of the request, and followed by the
  away note exactly when no connection serves; from then on the phone counts as initialized.
  Nothing is forwarded.
\<close>

theorem initialize_answered_locally:
  assumes "parse_rpc_text E tx = Inr obj" and "value_get obj ''method'' = Some (String ''initialize'')"
    and "value_get obj ''id'' = Some i" and "hm_get (phones w) p = Some slot"
    and "w' = handle E now (PhoneText p tx) w"
  shows "effects w' = effects w @ ToPhone (phone_out slot) (initialize_result E i) #
      (if serving (service_of (home w)) = None then [ToPhone (phone_out slot) (host_away_note E True)] else []) \<and>
    phone_ready w' p \<and> (\<forall>q. q \<noteq> p \<longrightarrow> hm_get (phones w') q = hm_get (phones w) q) \<and>
    outstanding w' = outstanding w"
proof -
  have "away (home w) \<longleftrightarrow> serving (service_of (home w)) = None" by (cases "home w") simp_all
  moreover have w': "w' = answer_initialize E p i w"
    using on_phone_text_request [OF assms(1-3)] assms(4,5) by (simp add: on_phone_request_def)
  ultimately show ?thesis using assms(4)
    by (simp add: phone_ready_def answer_initialize_phones)
      (simp add: answer_initialize_def emit_def Let_def)
qed

lemma initialize_answered_locally_witness:
  "phone_ready (handle request_env 0 (PhoneText (PhoneId 3) ''initialize'') demo_world) (PhoneId 3)"
proof -
  have "parse_rpc_text request_env ''initialize'' =
      Inr (json_obj [(''id'', json_of_u64 9), (''method'', String ''initialize'')])"
    by code_simp
  from initialize_answered_locally [OF this _ _ _ refl, of "json_of_u64 9" demo_world "PhoneId 3" "Connected 103" 0]
  show ?thesis by (simp add: value_get_json_obj hm_get_def)
qed

text \<open>
  A text that is not a JSON object gets error -32700 with a null id and changes nothing;
  a text of a phone the hub does not know (any more) has no effect whatever it says.
\<close>

theorem unreadable_text_answered:
  assumes "parse_rpc_text E tx = Inl e \<or> hm_get (phones w) p = None"
  shows "handle E now (PhoneText p tx) w = emit
    (case hm_get (phones w) p of
       None \<Rightarrow> []
     | Some slot \<Rightarrow> [ToPhone (phone_out slot) (rpc_error E Null (word_of_int (- 32700)) ''Parse error'')]) w"
  using assms by (auto simp: on_phone_text_def send_phone_def split: option.splits)

lemma unreadable_text_answered_witness:
  "handle request_env 0 (PhoneText (PhoneId 2) ''{'') demo_world = emit
     [ToPhone 102 (rpc_error request_env Null (word_of_int (- 32700)) ''Parse error'')] demo_world"
proof -
  have "parse_rpc_text request_env ''{'' = Inl Invalid" by code_simp
  then show ?thesis
    using unreadable_text_answered [of request_env "''{''" Invalid demo_world "PhoneId 2" 0]
    by (simp add: hm_get_def)
qed

end
