(* ===== verification/Hub_Reverse.thy ===== *)
theory Hub_Reverse
  imports Hub_Service
begin

text \<open>
  What home sends to phones of its own accord: session updates, which go to every watcher, and
  requests, which go to the watchers or to the driver under fresh ids; the claim that lets the
  first answer through and no other; and what is left of a phone that has gone.
\<close>

section \<open>Session updates\<close>

lemma phone_effects_known:
  assumes "\<forall>p \<in> set ps. hm_get phs p \<noteq> None"
  shows "concat (map (\<lambda>p. phone_effects phs p text) ps) =
    map (\<lambda>p. ToPhone (phone_out (the (hm_get phs p))) text) ps"
  using assms by (induction ps) (auto simp: phone_effects_def)

text \<open>
  C20: A \<open>session/update\<close> of the connection that serves goes, as it is, to every watcher of its
  session exactly once and to no other phone, in the order the set is iterated; it changes no
  table.
\<close>

theorem update_fans_out:
  assumes "hub_inv w" and "order_ok E" and "role_of w g = Mux"
    and "parse_rpc_text E tx = Inr obj" and "value_get obj ''method'' = Some (String m)"
    and "method_of m = ''session/update''" and "value_get obj ''id'' = None"
    and "session_id_in obj = Some s"
    and "ws = (case hm_get (watchers w) (SessionId s) of Some ws \<Rightarrow> ws | None \<Rightarrow> [])"
  shows "\<exists>ps. mset ps = mset ws \<and> distinct ps \<and>
    handle E now (HomeFrame g (leader_server.Acp tx)) w =
      emit (map (\<lambda>p. ToPhone (phone_out (the (hm_get (phones w) p))) (to_text E obj)) ps) w"
proof -
  let ?ps = "hash_order E ws"
  have ok: "distinct ws" "\<forall>p \<in> set ws. hm_get (phones w) p \<noteq> None"
    using session_invD(4) [OF hub_invD(1) [OF assms(1)]] assms(9)
    by (fastforce simp: watch_ok_def ready_in_def split: option.splits)+
  have "handle E now (HomeFrame g (leader_server.Acp tx)) w = on_home_notification E obj w"
    using assms(3-5,7) by (simp add: on_home_frame_def on_home_acp_def)
  also have "\<dots> = emit (concat (map (\<lambda>p. phone_effects (phones w) p (to_text E obj)) ?ps)) w"
  proof (cases "hm_get (watchers w) (SessionId s)")
    case None
    then have "?ps = []" using length_hash_order [OF assms(2), of ws] assms(9) by simp
    then show ?thesis using None assms(5,6,8) by (simp add: on_home_notification_def)
  qed (use assms(5,6,8,9) in \<open>simp add: on_home_notification_def fold_send_phone\<close>)
  also have "\<dots> = emit (map (\<lambda>p. ToPhone (phone_out (the (hm_get (phones w) p))) (to_text E obj)) ?ps) w"
    using phone_effects_known [of ?ps] ok(2) set_hash_order [OF assms(2)] by simp
  finally show ?thesis
    using mset_hash_order [OF assms(2)] distinct_hash_order [OF assms(2)] ok(1) by blast
qed

definition reverse_env :: env where
  "reverse_env = demo_env
     [(''update'', json_obj [(''method'', String ''session/update''),
        (''params'', json_obj [(''sessionId'', String ''s'')])]),
      (''ask'', json_obj [(''id'', json_of_u64 50), (''method'', String ''session/request_permission''),
        (''params'', json_obj [(''sessionId'', String ''s'')])]),
      (''reply'', json_obj [(''id'', String ''aq:1''), (''result'', json_obj [])]),
      (''late'', json_obj [(''id'', String ''aq:2''), (''result'', json_obj [])])]"

lemma order_ok_reverse [simp]: "order_ok reverse_env"
  by (simp add: reverse_env_def)

lemma update_fans_out_witness:
  "\<exists>ps. mset ps = mset [PhoneId 1, PhoneId 2] \<and> distinct ps \<and>
    handle reverse_env 0 (HomeFrame (HomeGen 1) (leader_server.Acp ''update'')) demo_world =
      emit (map (\<lambda>p. ToPhone (phone_out (the (hm_get (phones demo_world) p)))
        (to_text reverse_env (json_obj [(''method'', String ''session/update''),
          (''params'', json_obj [(''sessionId'', String ''s'')])]))) ps) demo_world"
proof -
  have 1: "parse_rpc_text reverse_env ''update'' = Inr (json_obj [(''method'', String ''session/update''),
      (''params'', json_obj [(''sessionId'', String ''s'')])])"
    and 2: "method_of ''session/update'' = ''session/update''" and 3: "role_of demo_world (HomeGen 1) = Mux"
    by code_simp+
  show ?thesis
    by (rule update_fans_out [OF hub_inv_demo order_ok_reverse 3 1 _ 2])
      (simp_all add: value_get_json_obj session_id_in_def hm_get_def)
qed

section \<open>Requests of home\<close>

lemma ask_phone_eq:
  assumes "is_object obj"
  shows "ask_phone E obj k p w =
    (let n = reverse_seq w + 1; t = to_text E (the (index_set obj ''id'' (json_of_id (reverse_id n))))
     in emit (phone_effects (phones w) p t)
       (w\<lparr>reverse_seq := n, reverse := hm_insert (p, reverse_id n) k (reverse w)\<rparr>))"
proof -
  have "\<exists>v. index_set obj ''id'' (json_of_id (reverse_id (reverse_seq w + 1))) = Some v"
    using index_set_object [OF assms] by blast
  then show ?thesis
    by (auto simp: ask_phone_def alloc_reverse_id_def send_phone_emit reverse_id_def Let_def)
qed

text \<open>The phones asked, each with the id its copy of the request carries.\<close>

fun asked :: "u64 \<Rightarrow> phone_id list \<Rightarrow> (phone_id \<times> json_id) list" where
  "asked n [] = []"
| "asked n (p # ps) = (p, reverse_id (n + 1)) # asked (n + 1) ps"

lemma map_fst_asked [simp]: "map fst (asked n ps) = ps"
  by (induction n ps rule: asked.induct) auto

lemma asked_above:
  assumes "has_room n (length ps)" and "(p, reverse_id m) \<in> set (asked n ps)"
  shows "n < m"
  using assms
proof (induction n ps rule: asked.induct)
  case (2 n q ps)
  have "n < n + 1" using 2(2) by (intro less_bump) (simp add: has_room_def)
  moreover have "m = n + 1 \<or> n + 1 < m" using 2 has_room_bump by auto
  ultimately show ?case by auto
qed simp

lemma asked_ids: "x \<in> set (asked n ps) \<Longrightarrow> \<exists>m. snd x = reverse_id m"
  by (induction n ps rule: asked.induct) auto

lemma asked_distinct:
  assumes "has_room n (length ps)"
  shows "distinct (map snd (asked n ps))"
  using assms
proof (induction n ps rule: asked.induct)
  case (2 n q ps)
  have room: "has_room (n + 1) (length ps)" using 2(2) has_room_bump by simp
  have "(p, reverse_id (n + 1)) \<notin> set (asked (n + 1) ps)" for p
    using asked_above [OF room] by blast
  then show ?case using 2(1) [OF room] by force
qed simp

definition ask_text :: "env \<Rightarrow> json \<Rightarrow> json_id \<Rightarrow> string" where
  "ask_text E obj j = to_text E (the (index_set obj ''id'' (json_of_id j)))"

lemma fold_ask_phone_effects:
  assumes "is_object obj" and "\<forall>p \<in> set ps. hm_get (phones w) p \<noteq> None"
  shows "effects (fold (ask_phone E obj k) ps w) = effects w @
    map (\<lambda>(p, j). ToPhone (phone_out (the (hm_get (phones w) p))) (ask_text E obj j)) (asked (reverse_seq w) ps)"
  using assms(2)
proof (induction ps arbitrary: w)
  case (Cons p ps)
  then show ?case
    by (auto simp: ask_phone_eq [OF assms(1)] Let_def phone_effects_def emit_def ask_text_def)
qed simp

lemma fold_ask_phone_reverse:
  assumes "is_object obj"
  shows "reverse (fold (ask_phone E obj k) ps w) =
    fold (\<lambda>x. hm_insert x k) (asked (reverse_seq w) ps) (reverse w)"
proof (induction ps arbitrary: w)
  case (Cons p ps)
  then show ?case by (simp add: ask_phone_eq [OF assms] Let_def)
qed simp

text \<open>
  C21: A request of the connection that serves is handed to its targets and to no one else: to
  every watcher of the session when it asks for an interaction, to the session's driver
  otherwise. Each target gets one copy, unchanged but for the id; the ids are all different and
  new, and all of them lead to one open claim that remembers the id home chose.
\<close>

theorem home_request_handed_out:
  assumes "hub_inv w" and "counters_room w" and "order_ok E" and "role_of w g = Mux"
    and "parse_rpc_text E tx = Inr obj" and "value_get obj ''method'' = Some (String m)"
    and "value_get obj ''id'' = Some i" and "session_id_in obj = Some s"
    and "targets = (if is_interaction m
      then (case hm_get (watchers w) (SessionId s) of Some ws \<Rightarrow> ws | None \<Rightarrow> [])
      else (case hm_get (driver w) (SessionId s) of Some p \<Rightarrow> [p] | None \<Rightarrow> []))"
    and "targets \<noteq> []" and "k = HomeReqId (req_num (next_req w) + 1)"
    and "w' = handle E now (HomeFrame g (leader_server.Acp tx)) w"
  shows "\<exists>ids. mset (map fst ids) = mset targets \<and> distinct (map snd ids) \<and>
    effects w' = effects w @
      map (\<lambda>(p, j). ToPhone (phone_out (the (hm_get (phones w) p))) (ask_text E obj j)) ids \<and>
    (\<forall>x \<in> set ids. hm_get (reverse w) x = None \<and> hm_get (reverse w') x = Some k) \<and>
    hm_get (claims w) k = None \<and> hm_get (claims w') k = Some (Open (JsonId i))"
proof -
  let ?ts = "reverse_targets E m (SessionId s) w"
  let ?ids = "asked (reverse_seq w) ?ts"
  let ?u = "w\<lparr>next_req := k, claims := hm_insert k (Open (JsonId i)) (claims w)\<rparr>"
  have obj: "is_object obj" by (rule parse_rpc_text_object [OF assms(5)])
  have m: "mset ?ts = mset targets"
    using mset_hash_order [OF assms(3)] by (simp add: reverse_targets_def assms(9) split: option.splits)
  then have ne: "?ts \<noteq> []" using assms(10) by force
  note T = reverse_targets_ok [OF hub_invD(1) [OF assms(1)] assms(3)]
  note room = T(2) [OF assms(2), of m "SessionId s"]
  have w': "w' = fold (ask_phone E obj k) ?ts ?u"
    using assms(4-8,11,12) ne
    by (simp add: on_home_frame_def on_home_acp_def on_reverse_request_def alloc_req_def Let_def)
  have "effects w' = effects w @
      map (\<lambda>(p, j). ToPhone (phone_out (the (hm_get (phones w) p))) (ask_text E obj j)) ?ids"
    using fold_ask_phone_effects [OF obj, of ?ts ?u E k] T(1) by (simp add: w')
  moreover have "distinct (map snd ?ids)" by (rule asked_distinct [OF room])
  moreover have "hm_get (reverse w) x = None \<and> hm_get (reverse w') x = Some k" if x: "x \<in> set ?ids" for x
  proof -
    obtain n where n: "snd x = reverse_id n" using asked_ids [OF x] by blast
    then have "reverse_seq w < n" using asked_above [OF room, of "fst x" n] x by (cases x) simp
    moreover have "n \<le> reverse_seq w" if "hm_get (reverse w) x \<noteq> None"
      using ids_invD(6) [OF hub_invD(2) [OF assms(1)], of "fst x" "snd x"] that n
      by (cases x) (auto simp: reverse_ok_def)
    ultimately have "hm_get (reverse w) x = None" by force
    moreover have "hm_get (reverse w') x = Some k"
      using hm.get_fold_insert [OF x, of "\<lambda>x. x" "\<lambda>_. k"] by (simp add: w' fold_ask_phone_reverse [OF obj])
    ultimately show ?thesis ..
  qed
  moreover have "hm_get (claims w) k = None"
    using fresh_req [OF hub_invD(2) [OF assms(1)] counters_roomD(3) [OF assms(2)]] assms(11) by simp
  moreover have "hm_get (claims w') k = Some (Open (JsonId i))" by (simp add: w')
  ultimately show ?thesis using m by (intro exI [of _ ?ids]) simp
qed

lemma home_request_handed_out_witness:
  "hm_get (claims (handle reverse_env 0 (HomeFrame (HomeGen 1) (leader_server.Acp ''ask'')) demo_world))
     (HomeReqId 4) = Some (Open (JsonId (json_of_u64 50)))"
proof -
  have 1: "parse_rpc_text reverse_env ''ask'' = Inr (json_obj [(''id'', json_of_u64 50),
      (''method'', String ''session/request_permission''), (''params'', json_obj [(''sessionId'', String ''s'')])])"
    and 2: "role_of demo_world (HomeGen 1) = Mux" and 3: "is_interaction ''session/request_permission''"
    by code_simp+
  from home_request_handed_out [OF hub_inv_demo counters_room_demo order_ok_reverse 2 1 _ _ _ refl _ refl refl,
      of "''session/request_permission''" "json_of_u64 50" "''s''" 0]
  show ?thesis using 3 by (auto simp: value_get_json_obj session_id_in_def hm_get_def)
qed

section \<open>Answers of phones\<close>

lemma on_phone_text_reply:
  assumes "parse_rpc_text E tx = Inr obj" and "Option.bind (value_get obj ''method'') as_str = None"
    and "value_get obj ''result'' \<noteq> None \<or> value_get obj ''error'' \<noteq> None"
    and "value_get obj ''id'' = Some i" and "hm_get (phones w) p \<noteq> None"
  shows "handle E now (PhoneText p tx) w = on_phone_reply E p (JsonId i) obj w"
  using assms by (auto simp: on_phone_text_def on_rpc_def)

lemma first_answer_goes_home_core:
  assumes "parse_rpc_text E tx = Inr obj" and "Option.bind (value_get obj ''method'') as_str = None"
    and "value_get obj ''result'' \<noteq> None \<or> value_get obj ''error'' \<noteq> None"
    and "value_get obj ''id'' = Some i" and "hm_get (phones w) p \<noteq> None"
    and "hm_get (reverse w) (p, JsonId i) = Some k"
    and "hm_get (claims w) k = Some (Open (JsonId home_id))" and "mux_out w = Some c"
  shows "\<exists>answer. index_set obj ''id'' home_id = Some answer \<and>
    handle E now (PhoneText p tx) w = emit [ToHome c (acp (to_text E answer))]
      (w\<lparr>reverse := hm_remove (p, JsonId i) (reverse w), claims := hm_insert k Taken (claims w)\<rparr>)"
proof -
  obtain answer where "index_set obj ''id'' home_id = Some answer"
    using index_set_object [OF parse_rpc_text_object [OF assms(1)]] by blast
  then show ?thesis
    using on_phone_text_reply [OF assms(1-5)] assms(6-8)
    by (simp add: on_phone_reply_def claim_take_def Let_def)
qed

text \<open>
  C22: The first answer to a request of home goes to the connection that serves, with nothing
  changed but its id, which is the one home chose; the claim is taken and the phone's entry is
  gone.
\<close>

theorem first_answer_goes_home:
  assumes "parse_rpc_text E tx = Inr obj" and "Option.bind (value_get obj ''method'') as_str = None"
    and "value_get obj ''result'' \<noteq> None \<or> value_get obj ''error'' \<noteq> None"
    and "value_get obj ''id'' = Some i" and "hm_get (phones w) p \<noteq> None"
    and "hm_get (reverse w) (p, JsonId i) = Some k"
    and "hm_get (claims w) k = Some (Open (JsonId home_id))" and "mux_out w = Some c"
  shows "\<exists>answer. index_set obj ''id'' home_id = Some answer \<and>
    handle E now (PhoneText p tx) w = emit [ToHome c (acp (to_text E answer))]
      (w\<lparr>reverse := hm_remove (p, JsonId i) (reverse w), claims := hm_insert k Taken (claims w)\<rparr>)"
  by (rule first_answer_goes_home_core) (fact assms)+

lemma first_answer_goes_home_witness:
  "\<exists>answer. index_set (json_obj [(''id'', String ''aq:1''), (''result'', json_obj [])]) ''id'' (json_of_u64 40) = Some answer \<and>
    handle reverse_env 0 (PhoneText (PhoneId 1) ''reply'') demo_world = emit [ToHome 201 (acp (to_text reverse_env answer))]
      (demo_world\<lparr>reverse := hm_remove (PhoneId 1, JsonId (String ''aq:1'')) (reverse demo_world),
        claims := hm_insert (HomeReqId 3) Taken (claims demo_world)\<rparr>)"
proof -
  have 1: "parse_rpc_text reverse_env ''reply'' = Inr (json_obj [(''id'', String ''aq:1''), (''result'', json_obj [])])"
    and 2: "hm_get (reverse demo_world) (PhoneId 1, JsonId (String ''aq:1'')) = Some (HomeReqId 3)"
    and 3: "mux_out demo_world = Some 201"
    by code_simp+
  show ?thesis
    by (rule first_answer_goes_home [OF 1 _ _ _ _ 2 _ 3]) (simp_all add: value_get_json_obj hm_get_def)
qed

text \<open>A claim that is taken stays taken.\<close>

definition keeps_taken :: "home_req_id \<Rightarrow> world \<Rightarrow> world \<Rightarrow> bool" where
  "keeps_taken k w w' \<longleftrightarrow>
     (k \<le> next_req w \<longrightarrow> hm_get (claims w) k = Some Taken \<longrightarrow> hm_get (claims w') k = Some Taken)"

lemma keeps_taken_same: "claims w' = claims w \<Longrightarrow> keeps_taken k w w'"
  by (simp add: keeps_taken_def)

lemma claims_home_result [simp]: "claims (on_home_result E g obj w) = claims w"
  by (simp add: on_home_result_def Let_def split: option.splits wait.splits)

lemma on_reverse_request_taken:
  assumes "has_room (req_num (next_req w)) 1"
  shows "keeps_taken k w (on_reverse_request E obj w)"
  using next_req_less [OF assms]
  by (auto simp: keeps_taken_def on_reverse_request_def alloc_req_def Let_def split: option.splits)

lemma on_phone_reply_taken: "keeps_taken k w (on_phone_reply E p j obj w)"
  by (auto simp: keeps_taken_def on_phone_reply_def claim_take_def Let_def split: option.splits claim.splits)

lemma handle_taken:
  assumes room: "counters_room w"
  shows "keeps_taken k w (handle E now msg w)"
proof -
  have "keeps_taken k w (on_home_acp E g tx w)" for g tx
    using counters_roomD [OF room] on_reverse_request_taken
    by (simp add: on_home_acp_def Let_def keeps_taken_same split: sum.splits)
  then have "keeps_taken k w (on_home_frame E now g m w)" for g m
    by (simp add: on_home_frame_def keeps_taken_same split: leader_server.splits)
  moreover have "claims (on_phone_request E p m j obj w) = claims w" for p m j obj
    by (simp add: on_phone_request_def Let_def split: option.splits)
  then have "keeps_taken k w (on_phone_text E p tx w)" for p tx
    by (simp add: on_phone_text_def on_rpc_def on_phone_reply_taken keeps_taken_same
        split: sum.splits option.splits)
  ultimately show ?thesis
    by (cases msg) (simp_all add: keeps_taken_same shutdown_def abort_def split: home.splits)
qed

text \<open>
  C23: The first answer wins: once a claim is taken, however the hub runs on, it stays taken, and
  every later answer to it from whichever phone only clears that phone's entry and is sent to
  nobody.
\<close>

theorem later_answers_dropped:
  assumes "hub_runs E (Running t w) ks (Running t' w')" and "hub_inv w"
    and "hm_get (claims w) k = Some Taken"
    and "parse_rpc_text E tx = Inr obj" and "Option.bind (value_get obj ''method'') as_str = None"
    and "value_get obj ''result'' \<noteq> None \<or> value_get obj ''error'' \<noteq> None"
    and "value_get obj ''id'' = Some i" and "hm_get (phones w') p \<noteq> None"
    and "hm_get (reverse w') (p, JsonId i) = Some k"
    and "w'' = handle E now (PhoneText p tx) w'"
  shows "effects w'' = effects w' \<and> hm_get (claims w'') k = Some Taken \<and>
    reverse w'' = hm_remove (p, JsonId i) (reverse w')"
proof -
  let ?P = "\<lambda>s. \<forall>t u. s = Running t u \<longrightarrow> k \<le> next_req u \<and> hm_get (claims u) k = Some Taken"
  have "k \<le> next_req u \<and> hm_get (claims u) k = Some Taken" if "hub_inv u" "hm_get (claims u) k = Some Taken" for u
    using ids_invD(5) [OF hub_invD(2) [OF that(1)], of k] that by simp
  then have P: "?P s" if "loop_safe s" "\<forall>t u. s = Running t u \<longrightarrow> hm_get (claims u) k = Some Taken" for s
    using that by (cases s) auto
  have "?P (Running t' w')"
  proof (rule hub_loop.runs_keeps [OF assms(1), where keep = "\<lambda>_. True" and P = ?P])
    show "?P s'" if "loop_safe s" "loop_allowed E s e" "?P s" "hub_step E s e s'" for s e s'
    proof (rule P [OF loop_step_safe [OF that(1,2,4)]])
      show "\<forall>t u. s' = Running t u \<longrightarrow> hm_get (claims u) k = Some Taken"
        using that(4)
      proof (cases rule: hub_step.cases)
        case (recv t now msg u)
        then show ?thesis using that handle_taken [of u k E now msg] by (simp add: keeps_taken_def)
      qed (use that in auto)
    qed
    show "?P (Running t w)" by (rule P) (use assms(2,3) in simp_all)
    show "loop_safe (Running t w)" using assms(2) by simp
  qed simp
  then have "hm_get (claims w') k = Some Taken" by simp
  then show ?thesis
    using on_phone_text_reply [OF assms(4-8), of now] assms(9,10)
    by (simp add: on_phone_reply_def claim_take_def Let_def)
qed

lemma later_answers_dropped_witness:
  "effects (handle reverse_env 2 (PhoneText (PhoneId 2) ''late'')
      (handle reverse_env 1 (PhoneEof (PhoneId 1)) (demo_world\<lparr>claims := [(HomeReqId 3, Taken)]\<rparr>))) =
   effects (handle reverse_env 1 (PhoneEof (PhoneId 1)) (demo_world\<lparr>claims := [(HomeReqId 3, Taken)]\<rparr>))"
proof -
  let ?w = "demo_world\<lparr>claims := [(HomeReqId 3, Taken)]\<rparr>"
  let ?w' = "handle reverse_env 1 (PhoneEof (PhoneId 1)) ?w"
  have "session_inv ?w" using session_inv_cong [of ?w demo_world] hub_inv_demo by (simp add: hub_inv_def)
  moreover have "ids_inv ?w"
    by (rule ids_inv_claims [OF hub_invD(2) [OF hub_inv_demo]]) (simp_all add: hm_get_def hm_wf_def)
  ultimately have inv: "hub_inv ?w" by (simp add: hub_inv_def home_inv_def demo_link_def)
  have run: "hub_runs reverse_env (Running 0 ?w) [Recv 1 (Some (PhoneEof (PhoneId 1)))] (Running 1 ?w')"
    by (simp add: runs_Cons_iff hub_step_iff counters_room_def has_room_def)
  have 1: "parse_rpc_text reverse_env ''late'' = Inr (json_obj [(''id'', String ''aq:2''), (''result'', json_obj [])])"
    and 2: "hm_get (reverse ?w') (PhoneId 2, JsonId (String ''aq:2'')) = Some (HomeReqId 3)"
    and 3: "hm_get (phones ?w') (PhoneId 2) \<noteq> None"
    by code_simp+
  have "hm_get (claims ?w) (HomeReqId 3) = Some Taken" by (simp add: hm_get_def)
  from later_answers_dropped [OF run inv this 1 _ _ _ 3 2 refl, of 2]
  show ?thesis by (simp add: value_get_json_obj)
qed

lemma reverse_home_result [simp]: "reverse (on_home_result E g obj w) = reverse w"
  by (simp add: on_home_result_def Let_def split: option.splits wait.splits)

lemma candidate_frame_claims:
  assumes "role_of w g \<noteq> Mux"
  shows "claims (on_home_frame E now g m w) = claims w" "reverse (on_home_frame E now g m w) = reverse w"
    "phones (on_home_frame E now g m w) = phones w"
  using assms
  by (auto simp: on_home_frame_def on_home_acp_def on_home_result_def Let_def
      split: leader_server.splits sum.splits option.splits wait.splits)

text \<open>
  C24: A claim does not remember which connection asked. When a successor takes over while a
  request of the old connection is open, the answer of a phone is sent to the successor, under
  the id the old connection chose.
\<close>

theorem answer_follows_serving_link:
  assumes "serving (service_of (home w)) = Some a" and "candidate (service_of (home w)) = Some (b, st)"
    and "home_gen a \<noteq> home_gen b" and "w' = handle E now (HomeFrame (home_gen b) m) w"
    and "serving (service_of (home w')) = Some b"
    and "hm_get (reverse w) (p, JsonId i) = Some k"
    and "hm_get (claims w) k = Some (Open (JsonId home_id))" and "hm_get (phones w) p \<noteq> None"
    and "parse_rpc_text E tx = Inr obj" and "Option.bind (value_get obj ''method'') as_str = None"
    and "value_get obj ''result'' \<noteq> None \<or> value_get obj ''error'' \<noteq> None"
    and "value_get obj ''id'' = Some i"
  shows "\<exists>answer. index_set obj ''id'' home_id = Some answer \<and>
    effects (handle E now' (PhoneText p tx) w') = effects w' @ [ToHome (out b) (acp (to_text E answer))]"
proof -
  have "role_of w (home_gen b) \<noteq> Mux"
    using assms(1-3) by (cases "home w") (auto simp: role_of_def)
  from candidate_frame_claims [OF this]
  have same: "claims w' = claims w" "reverse w' = reverse w" "phones w' = phones w"
    by (simp_all add: assms(4))
  have "mux_out w' = Some (out b)"
    using assms(5) by (cases "home w'") (auto simp: mux_out_def mux_link_def)
  from first_answer_goes_home_core [OF assms(9-12) _ _ _ this, where p = p and k = k and home_id = home_id]
  show ?thesis using assms(6-8) same by (auto simp: emit_def)
qed

definition takeover_env :: env where
  "takeover_env = demo_env
     [(''loaded'', json_obj [(''id'', json_of_u64 4), (''result'', json_obj [])]),
      (''reply'', json_obj [(''id'', String ''aq:1''), (''result'', json_obj [])])]"

lemma answer_follows_serving_link_witness:
  "\<exists>answer. index_set (json_obj [(''id'', String ''aq:1''), (''result'', json_obj [])]) ''id'' (json_of_u64 40) = Some answer \<and>
    effects (handle takeover_env 2 (PhoneText (PhoneId 1) ''reply'')
        (handle takeover_env 1 (HomeFrame (home_gen (demo_link 2)) (leader_server.Acp ''loaded'')) demo_waiting)) =
      effects (handle takeover_env 1 (HomeFrame (home_gen (demo_link 2)) (leader_server.Acp ''loaded'')) demo_waiting)
        @ [ToHome (out (demo_link 2)) (acp (to_text takeover_env answer))]"
proof -
  have 1: "serving (service_of (home (handle takeover_env 1
      (HomeFrame (home_gen (demo_link 2)) (leader_server.Acp ''loaded'')) demo_waiting))) = Some (demo_link 2)"
    and 2: "hm_get (reverse demo_waiting) (PhoneId 1, JsonId (String ''aq:1'')) = Some (HomeReqId 3)"
    and 3: "hm_get (claims demo_waiting) (HomeReqId 3) = Some (Open (JsonId (json_of_u64 40)))"
    and 4: "hm_get (phones demo_waiting) (PhoneId 1) \<noteq> None"
    and 5: "parse_rpc_text takeover_env ''reply'' = Inr (json_obj [(''id'', String ''aq:1''), (''result'', json_obj [])])"
    by code_simp+
  show ?thesis
    by (rule answer_follows_serving_link [where a = "demo_link 1", OF _ _ _ refl 1 2 3 4 5])
      (simp_all add: value_get_json_obj demo_link_def)
qed

section \<open>A phone that has gone\<close>

text \<open>
  C25: When a phone's connection ends, no table of the hub mentions it any more except requests
  still waiting for their response: it watches and drives nothing and owes no answer. The other
  phones keep their watches, and each session it drove that is still watched is driven by one of
  its watchers. Nothing is sent.
\<close>

theorem departed_phone_forgotten:
  assumes "hub_inv w" and "order_ok E" and "w' = handle E now (PhoneEof p) w"
  shows "hm_get (phones w') p = None \<and> (\<forall>j. hm_get (reverse w') (p, j) = None) \<and>
    (\<forall>s. hm_get (driver w') s \<noteq> Some p) \<and>
    (\<forall>s ws. hm_get (watchers w') s = Some ws \<longrightarrow> p \<notin> set ws) \<and>
    (\<forall>s q. q \<noteq> p \<longrightarrow>
      ((\<exists>ws. hm_get (watchers w') s = Some ws \<and> q \<in> set ws) \<longleftrightarrow>
       (\<exists>ws. hm_get (watchers w) s = Some ws \<and> q \<in> set ws))) \<and>
    (\<forall>s ws. hm_get (watchers w') s = Some ws \<longrightarrow> (\<exists>q \<in> set ws. hm_get (driver w') s = Some q)) \<and>
    effects w' = effects w"
proof -
  note S = session_invD [OF hub_invD(1) [OF assms(1)]]
  have w': "w' = on_phone_eof E p w" by (simp add: assms(3))
  have inv: "session_inv w'"
    unfolding w' by (rule on_phone_eof_session_inv [OF hub_invD(1) [OF assms(1)] assms(2)])
  have W: "hm_get (watchers w') s = Option.bind (hm_get (watchers w) s)
      (\<lambda>ws. if hs_remove p ws = [] then None else Some (hs_remove p ws))" for s
    unfolding w' by (rule on_phone_eof_watchers [OF S(2)])
  have away: "p \<notin> set ws" if "hm_get (watchers w') s = Some ws" for s ws
    using that by (auto simp: W bind_eq_Some_conv split: if_splits)
  have drives: "\<exists>q \<in> set ws. hm_get (driver w') s = Some q" if "hm_get (watchers w') s = Some ws" for s ws
    using session_invD(5) [OF inv, of s] that by (auto simp: drive_ok_def split: option.splits)
  have "hm_get (driver w') s \<noteq> Some p" for s
    using session_invD(5) [OF inv, of s] away by (auto simp: drive_ok_def split: option.splits)
  moreover have "(\<exists>ws. hm_get (watchers w') s = Some ws \<and> q \<in> set ws) \<longleftrightarrow>
      (\<exists>ws. hm_get (watchers w) s = Some ws \<and> q \<in> set ws)" if "q \<noteq> p" for s q
    using that by (cases "hm_get (watchers w) s") (auto simp: W hs_remove_Nil_iff)
  moreover have "hm_get (reverse w') (p, j) = None" for j
    using on_phone_eof_reverse [OF ids_invD(3) [OF hub_invD(2) [OF assms(1)]], of E p p j] by (simp add: w')
  moreover have "effects w' = effects w" "hm_get (phones w') p = None" by (simp_all add: w')
  ultimately show ?thesis using away drives by blast
qed

lemma departed_phone_forgotten_witness:
  "hm_get (driver (handle reverse_env 0 (PhoneEof (PhoneId 1)) demo_world)) (SessionId ''s'') \<noteq> Some (PhoneId 1)"
  using departed_phone_forgotten [OF hub_inv_demo order_ok_reverse refl] by blast

section \<open>The end\<close>

text \<open>
  However the loop stops, every connection there is, serving or candidate, is told to stop
  exactly once, nothing else is sent, and no phone is left.
\<close>

theorem stop_halts_everything:
  assumes "hub_step E (Running t w) k (Stopped w')"
  shows "effects w' = effects w @
      (case candidate (service_of (home w)) of None \<Rightarrow> [] | Some (b, _) \<Rightarrow> drop_link b) @
      (case serving (service_of (home w)) of None \<Rightarrow> [] | Some a \<Rightarrow> drop_link a) \<and>
    phones w' = [] \<and> home w' = Away"
  using assms
  by (cases rule: hub_step.cases; cases "home w";
      simp add: shutdown_def abort_def drop_incoming_def drop_live_def emit_def)

lemma stop_halts_everything_witness:
  "effects (shutdown demo_world) = [Halt 301]"
proof -
  have "hub_step reverse_env (Running 0 demo_world) (Recv 1 None) (Stopped (shutdown demo_world))"
    by (simp add: hub_step_iff)
  from stop_halts_everything [OF this] show ?thesis by (simp add: drop_link_def demo_link_def)
qed

end
