(* ===== verification/Refusals.thy ===== *)
theory Refusals
  imports Hub_Requests
begin

text \<open>
  What a phone is told when the hub refuses a text itself, as a function of the text and the state,
  and that the handlers answer just that.
\<close>

definition same_but_watches :: "world \<Rightarrow> world \<Rightarrow> bool" where
  "same_but_watches w u \<longleftrightarrow> u = w\<lparr>watchers := watchers u, driver := driver u\<rparr>"

definition refusal :: "env \<Rightarrow> world \<Rightarrow> phone_id \<Rightarrow> string \<Rightarrow> (json \<times> int \<times> string) option" where
  "refusal E w p tx =
     (case parse_rpc_text E tx of
        Inl _ \<Rightarrow> Some (Null, - 32700, ''Parse error'')
      | Inr obj \<Rightarrow>
          (case (Option.bind (value_get obj ''method'') as_str, value_get obj ''id'') of
             (Some m, Some i) \<Rightarrow>
               if m = ''initialize'' then None
               else if m = ''authenticate'' then Some (i, - 32601, ''Method not found'')
               else if starts_with ''session/'' m \<and> m \<noteq> ''session/close'' \<and> \<not> phone_ready w p
               then Some (i, - 32600, ''phone has not initialized'')
               else if serving (service_of (home w)) = None
               then Some (i, - 32003, case refused_version w of
                   None \<Rightarrow> ''host is away''
                 | Some v \<Rightarrow> ''host is away (unsupported leader protocol version '' @ show_nat (unat v) @ '')'')
               else None
           | _ \<Rightarrow> None))"

lemma mux_out_serving: "mux_out w = None \<longleftrightarrow> serving (service_of (home w)) = None"
  by (cases "home w") (simp_all add: mux_out_def mux_link_def)

lemma forward_away:
  assumes "serving (service_of (home u)) = None" and "hm_get (phones u) p = Some slot"
  shows "forward_request E p i obj u = emit [ToPhone (phone_out slot) (away_error E u i)] u"
  using assms by (simp add: forward_request_def send_phone_def flip: mux_out_serving)

lemma same_but_watches [simp]:
  "same_but_watches w w" "same_but_watches w (snd (watch p s w))" "same_but_watches w (unwatch E p s w)"
  by (simp_all add: same_but_watches_def watch_def unwatch_def Let_def split: option.splits phone.splits)

lemma same_but_watches_fields:
  assumes "same_but_watches w u"
  shows "home u = home w" "phones u = phones w" "refused_version u = refused_version w"
  using assms unfolding same_but_watches_def by (metis hub.simps(1,2,12) hub.surjective hub.update_convs)+

lemma away_after_watches:
  assumes "same_but_watches w u" and "serving (service_of (home w)) = None" and "hm_get (phones w) p = Some slot"
  shows "forward_request E p i obj u = emit [ToPhone (phone_out slot) (rpc_error E i (word_of_int (- 32003))
    (case refused_version w of None \<Rightarrow> ''host is away''
     | Some v \<Rightarrow> ''host is away (unsupported leader protocol version '' @ show_nat (unat v) @ '')''))] u"
  using assms same_but_watches_fields [OF assms(1)]
  by (simp add: forward_away away_error_def split: option.splits)

text \<open>What is left once \<open>authenticate\<close> and the phones that have not initialized are refused is forwarded.\<close>

lemma on_phone_request_forwards:
  assumes "m \<noteq> ''initialize''" and "m \<noteq> ''authenticate''"
    and "\<not> (starts_with ''session/'' m \<and> m \<noteq> ''session/close'' \<and> \<not> phone_ready w p)"
  shows "\<exists>u. on_phone_request E p m i obj w = forward_request E p i obj u \<and> same_but_watches w u"
proof -
  let ?v = "case session_id_in obj of Some s \<Rightarrow> snd (watch p (SessionId s) w) | None \<Rightarrow> w"
    and ?x = "case session_id_in obj of Some s \<Rightarrow> unwatch E p (SessionId s) w | None \<Rightarrow> w"
  let ?u = "if m = ''session/load'' \<or> m = ''session/resume'' then ?v else if m = ''session/close'' then ?x else w"
  have "on_phone_request E p m i obj w = forward_request E p i obj ?u"
  proof (cases "phone_ready w p")
    case True
    then show ?thesis using assms by (simp add: on_phone_request_def Let_def)
  next
    case False
    then have "\<not> starts_with ''session/'' m \<or> m = ''session/close''" and "m \<noteq> ''session/load''"
      and "m \<noteq> ''session/resume''" using assms(3) by (auto simp: starts_with_def)
    then show ?thesis using assms False by (auto simp: on_phone_request_def Let_def)
  qed
  moreover have "same_but_watches w ?u" by (simp split: option.splits)
  ultimately show ?thesis by blast
qed

lemma on_phone_request_refuses:
  assumes "m = ''authenticate'' \<or> (starts_with ''session/'' m \<and> m \<noteq> ''session/close'' \<and> \<not> phone_ready w p)"
    and "m \<noteq> ''initialize''" and "hm_get (phones w) p = Some slot"
  shows "on_phone_request E p m i obj w = emit [ToPhone (phone_out slot)
    (if m = ''authenticate'' then rpc_error E i (word_of_int (- 32601)) ''Method not found''
     else rpc_error E i (word_of_int (- 32600)) ''phone has not initialized'')] w"
  using assms by (auto simp: on_phone_request_def send_phone_def)

text \<open>
  C17: Every text the hub refuses is answered at once, to its sender alone, with the error
  \<open>refusal\<close> names: -32700 and a null id when it is no JSON object, -32601 for \<open>authenticate\<close>, -32600
  for the session requests of a phone that has not initialized, \<open>session/close\<close> excepted, and
  -32003, naming the protocol version refused last, for any other request while nothing serves.
  No request is recorded or forwarded; only the last kind can have changed who watches what.
\<close>

theorem refusals_answered:
  assumes "hm_get (phones w) p = Some slot" and "refusal E w p tx = Some (i, c, msg)"
  shows "\<exists>u. handle E now (PhoneText p tx) w = emit [ToPhone (phone_out slot) (rpc_error E i (word_of_int c) msg)] u \<and>
    same_but_watches w u \<and> (c \<noteq> - 32003 \<longrightarrow> u = w)"
proof (cases "parse_rpc_text E tx")
  case (Inl e)
  then show ?thesis using assms
    by (intro exI [of _ w]) (auto simp: refusal_def on_phone_text_def send_phone_def)
next
  case (Inr obj)
  from assms(2) Inr obtain m where m: "Option.bind (value_get obj ''method'') as_str = Some m"
    and i: "value_get obj ''id'' = Some i" and not_init: "m \<noteq> ''initialize''"
    by (auto simp: refusal_def split: option.splits if_splits)
  have h: "handle E now (PhoneText p tx) w = on_phone_request E p m i obj w"
    using Inr m i assms(1) by (simp add: on_phone_text_def on_rpc_def)
  note spec = assms(2) [unfolded refusal_def Inr sum.case m i prod.case option.case]
  let ?early = "m = ''authenticate'' \<or> (starts_with ''session/'' m \<and> m \<noteq> ''session/close'' \<and> \<not> phone_ready w p)"
  show ?thesis
  proof (cases ?early)
    case True
    then show ?thesis using spec unfolding h on_phone_request_refuses [OF True not_init assms(1)]
      by (intro exI [of _ w]) (auto simp: not_init split: if_splits)
  next
    case False
    then obtain u where u: "on_phone_request E p m i obj w = forward_request E p i obj u" "same_but_watches w u"
      using on_phone_request_forwards [OF not_init] by blast
    have "serving (service_of (home w)) = None" "c = - 32003"
      "msg = (case refused_version w of None \<Rightarrow> ''host is away''
        | Some v \<Rightarrow> ''host is away (unsupported leader protocol version '' @ show_nat (unat v) @ '')'')"
      using spec not_init False by (auto split: if_splits)
    then show ?thesis using away_after_watches [OF u(2) _ assms(1)] u unfolding h by (intro exI [of _ u]) simp
  qed
qed

lemma refusals_answered_witness:
  "\<exists>u. handle request_env 0 (PhoneText (PhoneId 3) ''load'') demo_world = emit
     [ToPhone 103 (rpc_error request_env (json_of_u64 9) (word_of_int (- 32600)) ''phone has not initialized'')] u \<and> u = demo_world"
proof -
  have "hm_get (phones demo_world) (PhoneId 3) = Some (Connected 103)" by (simp add: hm_get_def)
  moreover have "refusal request_env demo_world (PhoneId 3) ''load'' =
      Some (json_of_u64 9, - 32600, ''phone has not initialized'')" by code_simp
  ultimately show ?thesis using refusals_answered [of demo_world "PhoneId 3" "Connected 103" request_env "''load''"] by fastforce
qed

end
