(* ===== verification/Hub_Binds.thy ===== *)
theory Hub_Binds
  imports Hub_Reverse Demo
begin

text \<open>
  What a handler adds to the effects: it takes none back, and identities are handed out only when a
  connection or a phone is announced, under numbers that grow. A phone's slot keeps the channel the
  phone came with.
\<close>

section \<open>Identities among the effects\<close>

fun is_bind :: "effect \<Rightarrow> bool" where
  "is_bind (BindHome _ _) = True"
| "is_bind (BindPhone _ _) = True"
| "is_bind _ = False"

text \<open>
  The type of what is sent: texts for phones, and ACP payloads for home connections, are printed
  JSON objects. Nothing else is sent to a home connection's channel by the hub.
\<close>

definition object_text :: "env \<Rightarrow> string \<Rightarrow> bool" where
  "object_text E t \<longleftrightarrow> (\<exists>v. is_object v \<and> t = to_text E v)"

fun sent_object :: "env \<Rightarrow> effect \<Rightarrow> bool" where
  "sent_object E (ToPhone c t) \<longleftrightarrow> object_text E t"
| "sent_object E (ToHome c (leader_client.Acp t)) \<longleftrightarrow> object_text E t"
| "sent_object E (ToHome c m) \<longleftrightarrow> False"
| "sent_object E e \<longleftrightarrow> True"

lemma object_textI [intro]: "is_object v \<Longrightarrow> object_text E (to_text E v)"
  by (auto simp: object_text_def)

lemma object_texts [simp]:
  "object_text E (host_away_note E b)" "object_text E (initialize_result E i)"
  "object_text E (follower_initialize E n)" "object_text E (session_load E n s)"
  "object_text E (rpc_error E i c m)" "object_text E (away_error E w i)"
  by (auto simp: host_away_note_def initialize_result_def follower_initialize_def session_load_def rpc_error_def
      away_error_def json_obj_def)

lemma index_set_is_object: "index_set v k x = Some v' \<Longrightarrow> is_object v'"
  by (cases "(v, k, x)" rule: index_set.cases) auto

lemma sent_acp [simp]: "sent_object E (ToHome c (acp t)) \<longleftrightarrow> object_text E t"
  by (simp add: acp_def)

text \<open>A slot keeps the channel it was made with.\<close>

definition slots_kept :: "world \<Rightarrow> world \<Rightarrow> bool" where
  "slots_kept w w' \<longleftrightarrow> (\<forall>p slot. hm_get (phones w') p = Some slot \<longrightarrow>
     (\<exists>old. hm_get (phones w) p = Some old \<and> phone_out old = phone_out slot))"

lemma slots_kept_same: "phones w' = phones w \<Longrightarrow> slots_kept w w'"
  by (simp add: slots_kept_def)

text \<open>
  \<open>w'\<close> goes on from \<open>w\<close> without announcing anyone: effects are only added, all of the right type
  and no identity among them, the counters of identities stand still, and there is no new slot.
\<close>

definition plain :: "env \<Rightarrow> effect list \<Rightarrow> bool" where
  "plain E es \<longleftrightarrow> filter is_bind es = [] \<and> list_all (sent_object E) es"

definition quiet :: "env \<Rightarrow> world \<Rightarrow> world \<Rightarrow> bool" where
  "quiet E w w' \<longleftrightarrow> (\<exists>es. effects w' = effects w @ es \<and> plain E es) \<and>
     next_gen w' = next_gen w \<and> next_phone w' = next_phone w \<and> slots_kept w w'"

lemma plain_simps [simp]:
  "plain E []" "plain E (es @ ds) \<longleftrightarrow> plain E es \<and> plain E ds"
  "plain E (e # es) \<longleftrightarrow> \<not> is_bind e \<and> sent_object E e \<and> plain E es"
  by (auto simp: plain_def)

lemma quiet_same:
  "effects w' = effects w \<Longrightarrow> next_gen w' = next_gen w \<Longrightarrow> next_phone w' = next_phone w \<Longrightarrow>
   phones w' = phones w \<Longrightarrow> quiet E w w'"
  by (simp add: quiet_def slots_kept_same)

lemma quiet_refl [simp]: "quiet E w w"
  by (simp add: quiet_same)

lemma quiet_emit: "quiet E w w' \<Longrightarrow> plain E es \<Longrightarrow> quiet E w (emit es w')"
  by (auto simp: quiet_def slots_kept_def)

lemma quiet_update [simp]:
  "quiet E w (w'\<lparr>home := h\<rparr>) = quiet E w w'"
  "quiet E w (w'\<lparr>watchers := b\<rparr>) = quiet E w w'" "quiet E w (w'\<lparr>driver := c\<rparr>) = quiet E w w'"
  "quiet E w (w'\<lparr>outstanding := d\<rparr>) = quiet E w w'" "quiet E w (w'\<lparr>reverse := e\<rparr>) = quiet E w w'"
  "quiet E w (w'\<lparr>claims := f\<rparr>) = quiet E w w'" "quiet E w (w'\<lparr>next_req := nr\<rparr>) = quiet E w w'"
  "quiet E w (w'\<lparr>reverse_seq := rs\<rparr>) = quiet E w w'" "quiet E w (w'\<lparr>refused_version := v\<rparr>) = quiet E w w'"
  "quiet E w (panic w') = quiet E w w'"
  by (simp_all add: quiet_def slots_kept_def panic_def)

lemma quiet_phones:
  assumes "quiet E w w'" and "slots_kept w' (w'\<lparr>phones := ps\<rparr>)"
  shows "quiet E w (w'\<lparr>phones := ps\<rparr>)"
  using assms by (auto simp: quiet_def slots_kept_def) metis

lemma plain_effects [simp]:
  "plain E (drop_link l)" "plain E (drop_live lv)" "plain E (drop_incoming i)"
  "object_text E t \<Longrightarrow> plain E (link_send l (acp t))" "object_text E t \<Longrightarrow> plain E (phone_effects ps p t)"
  "plain E (away_effects E b ps)" "plain E (load_effects E l rs)"
  by (auto simp: plain_def drop_link_def link_send_def drop_live_def drop_incoming_def phone_effects_def away_effects_def
      load_effects_def filter_empty_conv list_all_iff split: option.splits phone.splits)

lemma quiet_base [simp]:
  assumes "quiet E w w'"
  shows "object_text E t \<Longrightarrow> quiet E w (send_phone p t w')" and "quiet E w (broadcast_away E b w')"
    and "quiet E w (put_candidate i s w')" and "quiet E w (snd (watch p s' w'))"
    and "quiet E w (unwatch E p s' w')" and "quiet E w (snd (take_candidate g w'))"
    and "quiet E w (pass_on E s' w')" and "quiet E w (fold (load_session E l) rs w')"
  using assms by (simp_all add: send_phone_emit broadcast_away_emit fold_load_session quiet_emit)
    (simp_all add: quiet_def slots_kept_def)

lemma quiet_fold [simp]:
  assumes "\<And>x u. quiet E w u \<Longrightarrow> quiet E w (f x u)" and "quiet E w w'"
  shows "quiet E w (fold f xs w')"
  using assms(2) by (induction xs arbitrary: w') (simp_all add: assms(1))

lemma quiet_fail_incoming [simp]: "quiet E w w' \<Longrightarrow> quiet E w (fail_incoming g w')"
  by (auto simp: fail_incoming_def abort_def quiet_emit split: home.splits)

lemma quiet_on_home_eof [simp]: "quiet E w w' \<Longrightarrow> quiet E w (on_home_eof E g w')"
  by (simp add: on_home_eof_def quiet_emit split: home.splits role.splits)

lemma quiet_on_deadline [simp]: "quiet E w w' \<Longrightarrow> quiet E w (on_deadline w')"
  by (auto simp: on_deadline_def abort_def quiet_emit split: home.splits)

lemma quiet_shutdown [simp]: "quiet E w w' \<Longrightarrow> quiet E w (shutdown w')"
  by (auto simp: shutdown_def abort_def Let_def quiet_emit slots_kept_def intro!: quiet_phones split: home.splits)

lemma quiet_send_follower_initialize [simp]:
  "quiet E w w' \<Longrightarrow> quiet E w (send_follower_initialize E l w')"
  by (simp add: send_follower_initialize_def alloc_req_def Let_def quiet_emit)

lemma quiet_finish_successor [simp]: "quiet E w w' \<Longrightarrow> quiet E w (finish_successor E s slot w')"
  by (auto simp: finish_successor_def cutover_def quiet_emit split: option.splits sum.splits)

text \<open>What takes the candidate goes on from a state with the same effects.\<close>

lemma take_candidate_quiet: "take_candidate g w' = (x, w1) \<Longrightarrow> quiet E w w' \<Longrightarrow> quiet E w w1"
  using quiet_base(6) [of E w w' g] by simp

lemma quiet_candidate [simp]:
  assumes "quiet E w w'"
  shows "quiet E w (on_registered E now g r v w')" and "quiet E w (on_leader_ready E g w')"
    and "quiet E w (after_follower_initialize E g w')" and "quiet E w (after_load_result E g i w')"
  using assms
  by (auto simp: on_registered_def on_leader_ready_def after_follower_initialize_def after_load_result_def Let_def
      split: prod.splits option.splits incoming.splits load_progress.splits dest: take_candidate_quiet)

lemma quiet_home_messages [simp]:
  assumes "quiet E w w'" and "is_object obj"
  shows "quiet E w (on_home_notification E obj w')" and "quiet E w (on_reverse_request E obj w')"
    and "quiet E w (on_home_result E g obj w')"
  using assms
  by (simp_all add: on_home_notification_def on_reverse_request_def on_home_result_def ask_phone_def
      alloc_req_def alloc_reverse_id_def Let_def object_textI index_set_is_object split: option.splits wait.splits)

lemma quiet_on_home_frame [simp]: "quiet E w w' \<Longrightarrow> quiet E w (on_home_frame E now g msg w')"
  by (simp add: on_home_frame_def on_home_acp_def Let_def parse_rpc_text_object split: leader_server.splits sum.splits)

lemma quiet_phone_messages [simp]:
  assumes "quiet E w w'" and "is_object obj"
  shows "quiet E w (forward_request E p i obj w')" and "quiet E w (forward_notification E obj w')"
    and "quiet E w (on_phone_reply E p j obj w')" 
  using assms
  by (simp_all add: forward_request_def forward_notification_def on_phone_reply_def
      alloc_req_def Let_def case_prod_beta quiet_emit object_textI index_set_is_object split: option.splits)

lemma quiet_answer_initialize [simp]:
  assumes "quiet E w w'"
  shows "quiet E w (answer_initialize E p i w')"
proof (cases "hm_get (phones w') p")
  case (Some slot)
  have e: "effects (answer_initialize E p i w') = effects w' @ [ToPhone (phone_out slot) (initialize_result E i)] @
      (if away (home w') then [ToPhone (phone_out slot) (host_away_note E True)] else [])"
    and f: "phones (answer_initialize E p i w') = hm_insert p (phone.Ready (phone_out slot)) (hm_remove p (phones w'))"
    "next_gen (answer_initialize E p i w') = next_gen w'" "next_phone (answer_initialize E p i w') = next_phone w'"
    by (simp_all add: answer_initialize_def Some Let_def)
  show ?thesis using assms Some unfolding quiet_def slots_kept_def e f by (auto split: if_splits)
qed (use assms in \<open>simp add: answer_initialize_def\<close>)

lemma quiet_on_phone_eof [simp]:
  assumes "quiet E w w'"
  shows "quiet E w (on_phone_eof E p w')"
  using assms by (auto simp: quiet_def slots_kept_def split: if_splits)

lemma quiet_on_phone_text [simp]: "quiet E w w' \<Longrightarrow> quiet E w (on_phone_text E p text w')"
  by (simp add: on_phone_text_def on_rpc_def on_phone_request_def Let_def parse_rpc_text_object split: sum.splits option.splits)

section \<open>One message\<close>

text \<open>The identity a message hands out.\<close>

fun bind_of :: "world \<Rightarrow> to_hub \<Rightarrow> effect list" where
  "bind_of w (Accepted out_ch halt_ch bind_ch) = [BindHome bind_ch (HomeGen (gen_num (next_gen w) + 1))]"
| "bind_of w (PhoneHello out_ch bind_ch) = [BindPhone bind_ch (PhoneId (phone_num (next_phone w) + 1))]"
| "bind_of w _ = []"

lemma handle_quiet:
  "(\<forall>o' h b. msg \<noteq> Accepted o' h b) \<Longrightarrow> (\<forall>o' b. msg \<noteq> PhoneHello o' b) \<Longrightarrow> quiet E w (handle E now msg w)"
  by (cases msg) simp_all

lemma plain_binds: "plain E es \<Longrightarrow> filter is_bind es = []"
  by (simp add: plain_def)

lemma on_accepted_binds:
  "\<exists>es. effects (on_accepted now o' h b w) = effects w @ es \<and>
     filter is_bind es = [BindHome b (HomeGen (gen_num (next_gen w) + 1))] \<and> list_all (sent_object E) es"
  "next_gen (on_accepted now o' h b w) = HomeGen (gen_num (next_gen w) + 1)"
  using plain_effects(3)
  by (simp_all add: on_accepted_def abort_def Let_def plain_def split: home.splits)

text \<open>Every message adds to the effects, and hands out the identity of \<open>bind_of\<close>.\<close>

lemma handle_adds:
  "\<exists>es. effects (handle E now msg w) = effects w @ es \<and> filter is_bind es = bind_of w msg \<and>
     list_all (sent_object E) es"
  using handle_quiet [of msg E w now] on_accepted_binds(1)
  by (cases msg) (auto simp: quiet_def plain_def on_phone_hello_def Let_def simp del: handle_quiet)

lemma handle_effects:
  "\<exists>es. effects (handle E now msg w) = effects w @ es \<and> filter is_bind es = bind_of w msg"
  using handle_adds by blast

lemma handle_counters:
  "next_gen (handle E now msg w) =
     (case msg of Accepted _ _ _ \<Rightarrow> HomeGen (gen_num (next_gen w) + 1) | _ \<Rightarrow> next_gen w)"
  "next_phone (handle E now msg w) =
     (case msg of PhoneHello _ _ \<Rightarrow> PhoneId (phone_num (next_phone w) + 1) | _ \<Rightarrow> next_phone w)"
  using handle_quiet [of msg E w now]
  by (cases msg; simp add: on_accepted_binds(2) quiet_def; simp add: on_phone_hello_def Let_def)+

lemma handle_slots:
  "hm_get (phones (handle E now msg w)) p = Some slot \<Longrightarrow>
     (\<exists>old. hm_get (phones w) p = Some old \<and> phone_out old = phone_out slot) \<or>
     (\<exists>o' b. msg = PhoneHello o' b \<and> slot = Connected o' \<and> bind_of w msg = [BindPhone b p])"
  using handle_quiet [of msg E w now]
  by (cases msg) (auto simp: quiet_def slots_kept_def on_phone_hello_def Let_def split: if_splits)

section \<open>Identities are never used twice\<close>

definition binds_ok :: "world \<Rightarrow> bool" where
  "binds_ok w \<longleftrightarrow>
     (\<forall>b g. BindHome b g \<in> set (effects w) \<longrightarrow> gen_num g \<le> gen_num (next_gen w)) \<and>
     (\<forall>b p. BindPhone b p \<in> set (effects w) \<longrightarrow> phone_num p \<le> phone_num (next_phone w)) \<and>
     (\<forall>b b' g. BindHome b g \<in> set (effects w) \<longrightarrow> BindHome b' g \<in> set (effects w) \<longrightarrow> b = b') \<and>
     (\<forall>b b' p. BindPhone b p \<in> set (effects w) \<longrightarrow> BindPhone b' p \<in> set (effects w) \<longrightarrow> b = b')"

lemma bind_in_iff:
  assumes "effects w' = effects w @ es" and "filter is_bind es = bs" and "is_bind x"
  shows "x \<in> set (effects w') \<longleftrightarrow> x \<in> set (effects w) \<or> x \<in> set bs"
  using assms by auto

lemma binds_ok_new: "binds_ok new"
  by (simp add: binds_ok_def new_def)

lemma quiet_binds_ok:
  assumes "quiet E w w'" and "binds_ok w"
  shows "binds_ok w'"
proof -
  obtain es where es: "effects w' = effects w @ es" "filter is_bind es = []"
    and n: "next_gen w' = next_gen w" "next_phone w' = next_phone w"
    using assms(1) unfolding quiet_def plain_def by blast
  have "BindHome b g \<in> set (effects w') \<longleftrightarrow> BindHome b g \<in> set (effects w)"
    "BindPhone b p \<in> set (effects w') \<longleftrightarrow> BindPhone b p \<in> set (effects w)" for b g p
    using bind_in_iff [OF es] by simp_all
  with assms(2) n show ?thesis by (simp add: binds_ok_def)
qed

lemma bump_gen:
  assumes "has_room (x :: u64) 1"
  shows "y \<le> x \<Longrightarrow> y \<noteq> x + 1" and "y \<le> x \<Longrightarrow> y \<le> x + 1"
  using less_bump [OF assms] by auto

lemma handle_binds_ok:
  assumes ok: "binds_ok w" and room: "counters_room w"
  shows "binds_ok (handle E now msg w)"
proof (cases "(\<exists>o' h b. msg = Accepted o' h b) \<or> (\<exists>o' b. msg = PhoneHello o' b)")
  case False
  then show ?thesis using quiet_binds_ok [OF handle_quiet ok] by blast
next
  case True
  obtain es where es: "effects (handle E now msg w) = effects w @ es" "filter is_bind es = bind_of w msg"
    using handle_effects by blast
  have I: "BindHome b g \<in> set (effects (handle E now msg w)) \<longleftrightarrow>
      BindHome b g \<in> set (effects w) \<or> BindHome b g \<in> set (bind_of w msg)"
    "BindPhone b p \<in> set (effects (handle E now msg w)) \<longleftrightarrow>
      BindPhone b p \<in> set (effects w) \<or> BindPhone b p \<in> set (bind_of w msg)" for b g p
    using bind_in_iff [OF es] by simp_all
  note G = bump_gen [OF counters_roomD(1) [OF room]] and P = bump_gen [OF counters_roomD(2) [OF room]]
  have le: "BindHome b g \<in> set (effects w) \<Longrightarrow> gen_num g \<le> gen_num (next_gen w)"
    "BindPhone b p \<in> set (effects w) \<Longrightarrow> phone_num p \<le> phone_num (next_phone w)" for b g p
    using ok unfolding binds_ok_def by blast+
  have fresh: "BindHome b (HomeGen (gen_num (next_gen w) + 1)) \<notin> set (effects w)"
    "BindPhone b (PhoneId (phone_num (next_phone w) + 1)) \<notin> set (effects w)" for b
    using le(1) [of b "HomeGen (gen_num (next_gen w) + 1)"] G(1)
      le(2) [of b "PhoneId (phone_num (next_phone w) + 1)"] P(1) by auto
  from True show ?thesis
  proof
    assume "\<exists>o' h b. msg = Accepted o' h b"
    then show ?thesis unfolding binds_ok_def handle_counters I using ok G(2) fresh by (auto simp: binds_ok_def)
  next
    assume "\<exists>o' b. msg = PhoneHello o' b"
    then show ?thesis unfolding binds_ok_def handle_counters I using ok P(2) fresh by (auto simp: binds_ok_def)
  qed
qed


lemmas quiet_turns = quiet_on_deadline [OF quiet_refl] quiet_shutdown [OF quiet_refl]

lemma reached_binds_ok: "hub_reached E s \<Longrightarrow> binds_ok (world_of s)"
proof (induction rule: reached.induct)
  case (one_more s k s')
  from one_more(2,3,4) show ?case
    by (cases rule: hub_step.cases)
      (auto simp: handle_binds_ok intro: quiet_binds_ok [OF quiet_turns(1) [of E]] quiet_binds_ok [OF quiet_turns(2) [of E]])
qed (simp add: binds_ok_new)

text \<open>A step of the loop takes no effect back.\<close>

lemma hub_step_grows: "hub_step E s k s' \<Longrightarrow> \<exists>es. effects (world_of s') = effects (world_of s) @ es"
  using quiet_turns handle_effects by (fastforce simp: quiet_def elim!: hub_step_elim)

section \<open>What is sent\<close>

lemma hub_step_sends:
  assumes step: "hub_step E s k s'" and ok: "list_all (sent_object E) (effects (world_of s))"
  shows "list_all (sent_object E) (effects (world_of s'))"
proof -
  have turn: "list_all (sent_object E) (effects w')" if "quiet E (world_of s) w'" for w'
    using that ok by (auto simp: quiet_def plain_def)
  have msg: "list_all (sent_object E) (effects (handle E now m (world_of s)))" for now m
    using handle_adds [of E now m "world_of s"] ok by auto
  show ?thesis using step turn [OF quiet_turns(1)] turn [OF quiet_turns(2)] msg by (cases rule: hub_step.cases) simp_all
qed

text \<open>
  C18: Whatever the hub has sent is well typed: every text for a phone, and every message on a
  home connection's channel, which is always an ACP payload, is the printed form of a JSON object.
\<close>

theorem only_objects_sent:
  assumes "hub_reached E s" and "e \<in> set (effects (world_of s))"
  shows "case e of
      ToPhone c t \<Rightarrow> \<exists>v. is_object v \<and> t = to_text E v
    | ToHome c m \<Rightarrow> \<exists>v. is_object v \<and> m = acp (to_text E v)
    | _ \<Rightarrow> True"
proof -
  have "list_all (sent_object E) (effects (world_of s))"
    using assms(1) by (induction rule: reached.induct) (auto intro: hub_step_sends simp: new_def)
  then have "sent_object E e" using assms(2) by (simp add: list_all_iff)
  then show ?thesis
    by (cases "(E, e)" rule: sent_object.cases) (auto simp: object_text_def acp_def)
qed

lemma only_objects_sent_witness:
  "\<exists>w t v. hub_reached (demo_env []) (Running 0 w) \<and> effects w = [BindPhone 2 (PhoneId 1), ToPhone 1 t] \<and>
    is_object v \<and> t = to_text (demo_env []) v"
proof -
  let ?E = "demo_env []"
  let ?w1 = "handle ?E 0 (PhoneHello 1 2) new" and ?w2 = "handle ?E 0 (PhoneText (PhoneId 1) ''x'') (handle ?E 0 (PhoneHello 1 2) new)"
  have room: "counters_room new" "counters_room ?w1"
    by (simp_all add: counters_room_def has_room_def new_def on_phone_hello_def emit_def Let_def)
  have "hub_reached ?E (Running 0 ?w1)"
    using room by (intro one_more [OF at_start, of _ _ "Recv 0 (Some (PhoneHello 1 2))"] hub_step.recv) simp_all
  then have r: "hub_reached ?E (Running 0 ?w2)"
    by (rule one_more [where e = "Recv 0 (Some (PhoneText (PhoneId 1) ''x''))"])
      (rule hub_step.recv, use room in simp_all)
  obtain t where e: "effects ?w2 = [BindPhone 2 (PhoneId 1), ToPhone 1 t]"
    by (simp add: new_def on_phone_hello_def emit_def Let_def on_phone_text_def hm_insert_def hm_get_def parse_rpc_text_def
        demo_env_def send_phone_def)
  have "ToPhone 1 t \<in> set (effects (world_of (Running 0 ?w2)))" unfolding world_of.simps e by simp
  from only_objects_sent [OF r this] obtain v where "is_object v" "t = to_text ?E v" by auto
  with r e show ?thesis by blast
qed

end
