(* ===== verification/Frames.thy ===== *)
theory Frames
  imports Wire
begin

text \<open>
  The length-prefixed frames of \<open>wire.rs\<close>: what \<open>read_frame\<close> and \<open>write_frame\<close> do on every
  branch, that they are inverse, and, through the interface \<open>framing\<close>, that a stream of frames is
  read back frame by frame.
\<close>

section \<open>The interface of a framing\<close>

fun decode_many :: "('b list \<Rightarrow> ('a \<times> 'b list) option) \<Rightarrow> nat \<Rightarrow> 'b list \<Rightarrow> 'a list \<times> 'b list" where
  "decode_many dec 0 bs = ([], bs)"
| "decode_many dec (Suc n) bs =
     (case dec bs of
        None \<Rightarrow> ([], bs)
      | Some (x, rest) \<Rightarrow> (let (xs, rest') = decode_many dec n rest in (x # xs, rest')))"

locale framing =
  fixes enc :: "'a \<Rightarrow> 'b list option"
    and dec :: "'b list \<Rightarrow> ('a \<times> 'b list) option"
  assumes dec_enc: "enc x = Some bs \<Longrightarrow> dec (bs @ rest) = Some (x, rest)"
begin

lemma enc_inject:
  assumes "enc x = Some bs" and "enc y = Some bs"
  shows "x = y"
  using dec_enc [OF assms(1), of "[]"] dec_enc [OF assms(2), of "[]"] by simp

text \<open>No encoding is a proper prefix of another one.\<close>

lemma enc_prefix_free:
  assumes "enc x = Some bs" and "enc y = Some (bs @ cs)"
  shows "x = y \<and> cs = []"
  using dec_enc [OF assms(1), of cs] dec_enc [OF assms(2), of "[]"] by simp

lemma decode_stream:
  "list_all2 (\<lambda>x bs. enc x = Some bs) xs bss \<Longrightarrow>
   decode_many dec (length xs) (concat bss @ rest) = (xs, rest)"
  by (induction xs bss rule: list_all2_induct) (simp_all add: dec_enc)

end

section \<open>The length prefix\<close>

lemma length_to_be_bytes [simp]: "length (to_be_bytes n) = 4"
  by (simp add: to_be_bytes_def)

lemma byte_split:
  fixes n :: nat
  assumes "n < 2 ^ 32"
  shows "256 * (256 * (256 * (n div 2 ^ 24 mod 256) + n div 2 ^ 16 mod 256) +
    n div 2 ^ 8 mod 256) + n mod 256 = n"
proof -
  define a where "a = n div 256"
  define b where "b = a div 256"
  define c where "c = b div 256"
  have "n div 2 ^ 8 = a" and "n div 2 ^ 16 = b" and "n div 2 ^ 24 = c"
    by (simp_all add: a_def b_def c_def flip: div_mult2_eq)
  moreover have "c mod 256 = c" using assms by (simp add: a_def b_def c_def flip: div_mult2_eq)
  moreover have "256 * c + b mod 256 = b" and "256 * b + a mod 256 = a" and "256 * a + n mod 256 = n"
    by (simp_all add: a_def b_def c_def)
  ultimately show ?thesis by presburger
qed

lemma from_to_be_bytes: "from_be_bytes (to_be_bytes n) = n"
proof -
  have lt: "unat n < 2 ^ 32"
    by (rule order.strict_trans2 [OF unsigned_less]) simp
  have "unat (ucast (drop_bit k n) :: u8) = unat n div 2 ^ k mod 256" for k
    by (simp add: unsigned_ucast_eq take_bit_eq_mod unat_drop_bit_eq drop_bit_eq_div [where 'a = nat])
  moreover have "unat (ucast n :: u8) = unat n mod 256"
    by (simp add: unsigned_ucast_eq take_bit_eq_mod)
  ultimately have "foldl (\<lambda>n b. 256 * n + unat b) 0 (to_be_bytes n) = unat n"
    by (simp only: to_be_bytes_def foldl_Cons foldl_Nil mult_0_right add_0 byte_split [OF lt])
  then show ?thesis by (simp add: from_be_bytes_def)
qed

lemma MAX_FRAME_fits: "n \<le> MAX_FRAME \<Longrightarrow> unat (word_of_nat n :: u32) = n"
  by (simp add: MAX_FRAME_def unat_of_nat)

section \<open>Reading\<close>

lemma read_exact_ok:
  "length bs = n \<Longrightarrow> read_exact n \<lparr>r_data = bs @ rest, r_end = e\<rparr> = Inr (bs, \<lparr>r_data = rest, r_end = e\<rparr>)"
  by (simp add: read_exact_def)

lemma read_exact_short:
  "length (r_data r) < n \<Longrightarrow>
   read_exact n r = Inl (case r_end r of None \<Rightarrow> UnexpectedEof | Some e \<Rightarrow> e)"
  by (simp add: read_exact_def)

lemma read_frame_ok:
  assumes "length json \<le> MAX_FRAME"
  shows "read_frame \<lparr>r_data = to_be_bytes (word_of_nat (length json)) @ json @ rest, r_end = e\<rparr> =
    Inr (json, \<lparr>r_data = rest, r_end = e\<rparr>)"
  using assms by (simp add: read_frame_def read_exact_ok from_to_be_bytes MAX_FRAME_fits)

lemma read_frame_too_large:
  assumes "length hdr = 4" and "unat (from_be_bytes hdr) > MAX_FRAME"
  shows "read_frame \<lparr>r_data = hdr @ rest, r_end = e\<rparr> = Inl (TooLarge (unat (from_be_bytes hdr)))"
  using assms by (simp add: read_frame_def read_exact_ok)

text \<open>What a frame that was read looked like on the wire.\<close>

lemma read_frame_InrD:
  assumes "read_frame r = Inr (json, r')"
  shows "\<exists>hdr. length hdr = 4 \<and> r_data r = hdr @ json @ r_data r' \<and> r_end r' = r_end r \<and>
    length json = unat (from_be_bytes hdr) \<and> length json \<le> MAX_FRAME"
proof -
  let ?d = "r_data r"
  let ?n = "unat (from_be_bytes (take 4 ?d))"
  from assms have ok: "4 \<le> length ?d" "?n \<le> length ?d - 4" "?n \<le> MAX_FRAME"
    and json: "json = take ?n (drop 4 ?d)" and r': "r' = r\<lparr>r_data := drop ?n (drop 4 ?d)\<rparr>"
    by (auto simp: read_frame_def read_exact_def Let_def split: sum.splits if_splits prod.splits)
  have "?d = take 4 ?d @ json @ r_data r'"
    by (simp add: json r' del: drop_drop)
  with ok show ?thesis
    by (intro exI [of _ "take 4 ?d"]) (simp add: json r')
qed

section \<open>Writing\<close>

lemma write_all_unlimited:
  "w_room w = None \<Longrightarrow> write_all bs w = (Inr (), w\<lparr>w_data := w_data w @ bs\<rparr>)"
  by (simp add: write_all_def)

lemma write_frame_ok:
  assumes "length json \<le> MAX_FRAME" and "w_room w = None" and "w_flush w = None"
  shows "write_frame json w =
    (Inr (), w\<lparr>w_data := w_data w @ to_be_bytes (word_of_nat (length json)) @ json\<rparr>)"
  using assms by (simp add: write_frame_def write_all_def flush_def)

lemma write_frame_too_large:
  "length json > MAX_FRAME \<Longrightarrow> write_frame json w = (Inl (TooLarge (length json)), w)"
  by (simp add: write_frame_def)

text \<open>A sink only ever holds a prefix of what a complete write would have put there.\<close>

lemma write_all_prefix:
  "write_all bs w = (res, w') \<Longrightarrow> \<exists>n \<le> length bs. w_data w' = w_data w @ take n bs \<and>
     (res = Inr () \<longrightarrow> n = length bs) \<and> w_flush w' = w_flush w"
proof (cases "w_room w")
  case (Some n)
  assume "write_all bs w = (res, w')"
  with Some show ?thesis
    by (cases "length bs \<le> n")
      (auto simp: write_all_def intro: exI [of _ "length bs"] exI [of _ n])
qed (auto simp: write_all_def)

section \<open>The framing of the leader protocol\<close>

text \<open>The bytes \<open>write_frame\<close> puts on a fresh connection, and the frame \<open>read_frame\<close> finds at the front.\<close>

definition frame_bytes :: "bytes \<Rightarrow> bytes option" where
  "frame_bytes json =
     (case write_frame json \<lparr>w_data = [], w_room = None, w_flush = None\<rparr> of
        (Inr _, w) \<Rightarrow> Some (w_data w)
      | (Inl _, w) \<Rightarrow> None)"

definition next_frame :: "bytes \<Rightarrow> (bytes \<times> bytes) option" where
  "next_frame bs =
     (case read_frame \<lparr>r_data = bs, r_end = None\<rparr> of
        Inr (json, r) \<Rightarrow> Some (json, r_data r)
      | Inl _ \<Rightarrow> None)"

lemma frame_bytes_eq:
  "frame_bytes json = (if length json \<le> MAX_FRAME
     then Some (to_be_bytes (word_of_nat (length json)) @ json) else None)"
  by (simp add: frame_bytes_def write_frame_ok write_frame_too_large)

interpretation leader_frames: framing frame_bytes next_frame
  by unfold_locales (auto simp: frame_bytes_eq next_frame_def read_frame_ok split: if_splits)

section \<open>What crosses the wire\<close>

text \<open>
  C26: What one side writes as a frame the other side reads back as the same bytes, whatever
  follows on the connection, and nothing of what follows is consumed.
\<close>

theorem frame_round_trip:
  assumes "length json \<le> MAX_FRAME" and "w_room w = None" and "w_flush w = None"
  shows "\<exists>bs. write_frame json w = (Inr (), w\<lparr>w_data := w_data w @ bs\<rparr>) \<and>
    read_frame \<lparr>r_data = bs @ rest, r_end = e\<rparr> = Inr (json, \<lparr>r_data = rest, r_end = e\<rparr>)"
  using write_frame_ok [OF assms] read_frame_ok [OF assms(1)] by auto

lemma frame_round_trip_witness:
  "\<exists>bs. write_frame [1, 2, 3] \<lparr>w_data = [9], w_room = None, w_flush = None\<rparr> =
      (Inr (), \<lparr>w_data = [9] @ bs, w_room = None, w_flush = None\<rparr>) \<and>
    read_frame \<lparr>r_data = bs @ [7], r_end = None\<rparr> = Inr ([1, 2, 3], \<lparr>r_data = [7], r_end = None\<rparr>)"
  using frame_round_trip [of "[1, 2, 3]" "\<lparr>w_data = [9], w_room = None, w_flush = None\<rparr>" "[7]" None]
  by (simp add: MAX_FRAME_def)

text \<open>
  Frames written one after the other are read back one by one, in order: no frame is a
  prefix of another, so the boundaries cannot be mistaken.
\<close>

theorem frame_stream_decoded:
  assumes "list_all2 (\<lambda>json bs. frame_bytes json = Some bs) jsons bss"
  shows "decode_many next_frame (length jsons) (concat bss @ rest) = (jsons, rest)"
  using assms by (rule leader_frames.decode_stream)

lemma frame_stream_decoded_witness:
  "decode_many next_frame 2 (concat [to_be_bytes 1 @ [5], to_be_bytes 2 @ [6, 7]] @ [8]) = ([[5], [6, 7]], [8])"
  using frame_stream_decoded [of "[[5], [6, 7]]" "[to_be_bytes 1 @ [5], to_be_bytes 2 @ [6, 7]]" "[8]"]
  by (simp add: frame_bytes_eq MAX_FRAME_def numeral_2_eq_2)

text \<open>
  The size limit holds in both directions: a frame over 64 MiB is refused before a byte of
  it is written, a length over the limit is refused when only the four bytes of the length have
  been read, and a frame that is read has exactly the announced length, within the limit.
\<close>

theorem frame_size_bounded:
  "(length json > MAX_FRAME \<longrightarrow> write_frame json w = (Inl (TooLarge (length json)), w)) \<and>
   (length hdr = 4 \<and> unat (from_be_bytes hdr) > MAX_FRAME \<longrightarrow>
     read_frame \<lparr>r_data = hdr @ rest, r_end = e\<rparr> = Inl (TooLarge (unat (from_be_bytes hdr)))) \<and>
   (read_frame r = Inr (body, r') \<longrightarrow> length body \<le> MAX_FRAME)"
  using write_frame_too_large read_frame_too_large read_frame_InrD by blast

lemma frame_size_bounded_witness:
  "write_frame (replicate (Suc MAX_FRAME) 0) \<lparr>w_data = [], w_room = None, w_flush = None\<rparr> =
     (Inl (TooLarge (Suc MAX_FRAME)), \<lparr>w_data = [], w_room = None, w_flush = None\<rparr>) \<and>
   read_frame \<lparr>r_data = [255, 255, 255, 255] @ [1], r_end = None\<rparr> = Inl (TooLarge 4294967295) \<and>
   length [7 :: u8] \<le> MAX_FRAME"
proof -
  have "from_be_bytes [255, 255, 255, 255] = 4294967295" by (simp add: from_be_bytes_def)
  moreover have "read_frame \<lparr>r_data = [0, 0, 0, 1] @ [7], r_end = None\<rparr> = Inr ([7], \<lparr>r_data = [], r_end = None\<rparr>)"
    by (simp add: read_frame_def read_exact_def from_be_bytes_def MAX_FRAME_def)
  ultimately show ?thesis
    using frame_size_bounded [of "replicate (Suc MAX_FRAME) 0" "\<lparr>w_data = [], w_room = None, w_flush = None\<rparr>" "[255, 255, 255, 255]" "[1]" None
        "\<lparr>r_data = [0, 0, 0, 1] @ [7], r_end = None\<rparr>" "[7]" "\<lparr>r_data = [], r_end = None\<rparr>"]
    by (simp add: MAX_FRAME_def)
qed

section \<open>Reading in pieces\<close>

lemma to_from_be_bytes:
  assumes "length bs = 4"
  shows "to_be_bytes (from_be_bytes bs) = bs"
proof -
  obtain a b c d where bs: "bs = [a, b, c, d]"
    using assms by (auto simp: length_Suc_conv numeral_eq_Suc)
  define A B C D where "A = unat a" and "B = unat b" and "C = unat c" and "D = unat d"
  have lt: "A < 256" "B < 256" "C < 256" "D < 256"
    using unsigned_less [of a] unsigned_less [of b] unsigned_less [of c] unsigned_less [of d]
    by (simp_all add: A_def B_def C_def D_def)
  let ?n = "256 * (256 * (256 * A + B) + C) + D"
  have "from_be_bytes bs = word_of_nat ?n"
    by (simp only: bs from_be_bytes_def foldl_Cons foldl_Nil A_def B_def C_def D_def mult_0_right add_0)
  moreover have "?n < 2 ^ 32" using lt by simp
  ultimately have n: "unat (from_be_bytes bs) = ?n"
    by (simp only: unat_of_nat len_num1 mod_less) simp
  have byte: "(ucast (drop_bit k (from_be_bytes bs)) :: u8) = x" if "?n div 2 ^ k mod 256 = unat x" for k x
    using that by (simp add: word_unat_eq_iff unsigned_ucast_eq take_bit_eq_mod unat_drop_bit_eq
        drop_bit_eq_div [where 'a = nat] n)
  have low: "(256 * x + y) div 256 = x" "(256 * x + y) mod 256 = y" if "y < 256" for x y :: nat
    using that by simp_all
  have "?n div 2 ^ 8 = 256 * (256 * A + B) + C" using low(1) [OF lt(4)] by simp
  moreover from this have "?n div 2 ^ 16 = 256 * A + B"
    using low(1) [OF lt(3)] div_mult2_eq [of ?n "2 ^ 8" "2 ^ 8"] by simp
  moreover from this have "?n div 2 ^ 24 = A"
    using low(1) [OF lt(2)] div_mult2_eq [of ?n "2 ^ 16" "2 ^ 8"] by simp
  ultimately have "?n div 2 ^ 24 mod 256 = A" "?n div 2 ^ 16 mod 256 = B" "?n div 2 ^ 8 mod 256 = C" "?n mod 256 = D"
    using low(2) [OF lt(2), of A] low(2) [OF lt(3), of "256 * A + B"]
      low(2) [OF lt(4), of "256 * (256 * A + B) + C"] lt(1) by simp_all
  then show ?thesis
    using byte [of 24 a] byte [of 16 b] byte [of 8 c] byte [of 0 d]
    by (simp add: to_be_bytes_def bs A_def B_def C_def D_def)
qed

text \<open>A frame that was read is the frame those bytes are written as.\<close>

lemma read_frame_bytes:
  assumes "read_frame r = Inr (json, r')"
  shows "\<exists>bs. frame_bytes json = Some bs \<and> r_data r = bs @ r_data r'"
proof -
  obtain hdr where h: "length hdr = 4" "r_data r = hdr @ json @ r_data r'"
      "length json = unat (from_be_bytes hdr)" "length json \<le> MAX_FRAME"
    using read_frame_InrD [OF assms] by blast
  have "to_be_bytes (word_of_nat (length json)) = hdr"
    using to_from_be_bytes [OF h(1)] by (simp add: h(3))
  then show ?thesis using h by (simp add: frame_bytes_eq)
qed

end
