(* ===== verification/Auth.thy ===== *)
theory Auth
  imports Prelude
begin

unbundle bit_operations_syntax

text \<open>
  How a phone proves that it may connect: \<open>bearer_bytes\<close> and the upgrade callback of \<open>net.rs\<close>,
  \<open>token_eq\<close> of \<open>config.rs\<close>. The \<open>Authorization\<close> header is the value the HTTP library hands over
  when there is one and it is visible ASCII (\<open>get\<close>, then \<open>to_str\<close>), \<open>None\<close> otherwise.
\<close>

section \<open>Strings\<close>

text \<open>
  \<open>char::is_whitespace\<close> on ASCII, the only characters a header value that \<open>to_str\<close> accepts can
  hold: tab to carriage return, and space.
\<close>

definition is_space :: "char \<Rightarrow> bool" where
  "is_space c \<longleftrightarrow> (of_char c :: nat) \<in> {9, 10, 11, 12, 13, 32}"

definition trim :: "string \<Rightarrow> string" where
  "trim s = rev (dropWhile is_space (rev (dropWhile is_space s)))"

fun split_once :: "char \<Rightarrow> string \<Rightarrow> (string \<times> string) option" where
  "split_once c [] = None"
| "split_once c (x # xs) =
     (if x = c then Some ([], xs)
      else (case split_once c xs of None \<Rightarrow> None | Some (a, b) \<Rightarrow> Some (x # a, b)))"

definition to_lower :: "char \<Rightarrow> char" where
  "to_lower c = (let n = of_char c :: nat in if 65 \<le> n \<and> n \<le> 90 then char_of (n + 32) else c)"

definition eq_ignore_ascii_case :: "string \<Rightarrow> string \<Rightarrow> bool" where
  "eq_ignore_ascii_case s t \<longleftrightarrow> map to_lower s = map to_lower t"

section \<open>The check\<close>

definition bearer_bytes :: "string \<Rightarrow> bytes option" where
  "bearer_bytes header =
     (case split_once CHR '' '' (trim header) of
        None \<Rightarrow> None
      | Some (scheme, rest) \<Rightarrow>
          if eq_ignore_ascii_case scheme ''Bearer'' then Some (as_bytes (trim rest)) else None)"

definition token_eq :: "bytes \<Rightarrow> bytes \<Rightarrow> bool" where
  "token_eq provided expected =
     (if length provided \<noteq> length expected then False
      else foldl (\<lambda>diff (a, b). diff OR (a XOR b)) (0 :: u8) (zip provided expected) = 0)"

text \<open>The callback of \<open>accept_hdr_async\<close>: the status of the upgrade response.\<close>

datatype upgrade = Accept | Unauthorized

definition phone_upgrade :: "bytes \<Rightarrow> string option \<Rightarrow> upgrade" where
  "phone_upgrade expected header =
     (case bearer_bytes (case header of Some h \<Rightarrow> h | None \<Rightarrow> '''') of
        Some provided \<Rightarrow> if token_eq provided expected then Accept else Unauthorized
      | None \<Rightarrow> Unauthorized)"

section \<open>Facts\<close>

lemma or_eq_0_iff: "(a :: 'a::len word) OR b = 0 \<longleftrightarrow> a = 0 \<and> b = 0"
  by (auto simp: bit_eq_iff bit_or_iff)

lemma xor_eq_0_iff: "(a :: 'a::len word) XOR b = 0 \<longleftrightarrow> a = b"
  by (auto simp: bit_eq_iff bit_xor_iff)

lemma fold_diff_eq_0:
  "foldl (\<lambda>diff (a, b). diff OR (a XOR b)) (d :: u8) ps = 0 \<longleftrightarrow> d = 0 \<and> (\<forall>(a, b) \<in> set ps. a = b)"
  by (induction ps arbitrary: d) (auto simp: or_eq_0_iff xor_eq_0_iff)

lemma token_eq_iff: "token_eq provided expected \<longleftrightarrow> provided = expected"
proof -
  have "token_eq provided expected \<longleftrightarrow>
      length provided = length expected \<and> (\<forall>(a, b) \<in> set (zip provided expected). a = b)"
    by (simp add: token_eq_def fold_diff_eq_0)
  also have "\<dots> \<longleftrightarrow> provided = expected" by (rule list_eq_iff_zip_eq [symmetric])
  finally show ?thesis .
qed

lemma dropWhile_head: "dropWhile P xs = x # ys \<Longrightarrow> \<not> P x"
  by (induction xs) (auto split: if_splits)

lemma trim_ends:
  assumes "trim s \<noteq> ''''"
  shows "\<not> is_space (hd (trim s)) \<and> \<not> is_space (last (trim s))"
proof -
  let ?d = "dropWhile is_space s"
  let ?r = "dropWhile is_space (rev ?d)"
  have r: "trim s = rev ?r" by (simp add: trim_def)
  obtain y ys where y: "?r = y # ys" using assms r by (cases ?r) auto
  then have "\<not> is_space (last (trim s))" using dropWhile_head [OF y] by (simp add: r)
  moreover have "\<not> is_space (hd (trim s))"
  proof -
    have "rev ?d = takeWhile is_space (rev ?d) @ ?r" by simp
    then have d: "?d = trim s @ rev (takeWhile is_space (rev ?d))"
      unfolding r by (metis rev_append rev_rev_ident)
    have "hd ?d = hd (trim s)" by (subst d) (simp add: assms)
    moreover have "?d \<noteq> []" by (subst d) (simp add: assms)
    ultimately show ?thesis using hd_dropWhile [of is_space s] by simp
  qed
  ultimately show ?thesis by simp
qed

lemma split_once_Some: "split_once c s = Some (a, b) \<Longrightarrow> s = a @ c # b \<and> c \<notin> set a"
  by (induction s arbitrary: a) (auto split: if_splits option.splits)

lemma split_once_append: "c \<notin> set a \<Longrightarrow> split_once c (a @ c # b) = Some (a, b)"
  by (induction a) auto

text \<open>
  C27: A phone's upgrade is accepted exactly when its header, without white space at the ends, is
  a scheme that reads \<open>Bearer\<close> in any case, one space, and, again without white space at the
  ends, the very bytes of the configured token; the comparison that looks at every byte decides
  equality. In every other case the answer is 401.
\<close>

theorem upgrade_accepted_iff:
  "phone_upgrade expected header = Accept \<longleftrightarrow>
     (\<exists>h scheme rest. header = Some h \<and> trim h = scheme @ CHR '' '' # rest \<and> CHR '' '' \<notin> set scheme \<and>
        eq_ignore_ascii_case scheme ''Bearer'' \<and> as_bytes (trim rest) = expected)"
proof
  assume "phone_upgrade expected header = Accept"
  then obtain h scheme rest where h: "h = (case header of Some h \<Rightarrow> h | None \<Rightarrow> '''')"
    and s: "split_once CHR '' '' (trim h) = Some (scheme, rest)"
    and ok: "eq_ignore_ascii_case scheme ''Bearer''" "as_bytes (trim rest) = expected"
    by (auto simp: phone_upgrade_def bearer_bytes_def token_eq_iff split: option.splits if_splits)
  have "header \<noteq> None"
  proof
    assume "header = None"
    then have "trim h = ''''" using h by (simp add: trim_def)
    with s show False by simp
  qed
  then have "header = Some h" using h by auto
  with split_once_Some [OF s] ok show "\<exists>h scheme rest. header = Some h \<and> trim h = scheme @ CHR '' '' # rest \<and>
      CHR '' '' \<notin> set scheme \<and> eq_ignore_ascii_case scheme ''Bearer'' \<and> as_bytes (trim rest) = expected"
    by blast
qed (auto simp: phone_upgrade_def bearer_bytes_def token_eq_iff split_once_append)

text \<open>
  A token with white space at either end, which the configuration accepts, can never be
  presented: every phone is turned away.
\<close>

theorem padded_token_unusable:
  assumes "expected = as_bytes token" and "token \<noteq> ''''" and "is_space (hd token) \<or> is_space (last token)"
  shows "phone_upgrade expected header = Unauthorized"
proof (rule ccontr)
  assume "phone_upgrade expected header \<noteq> Unauthorized"
  then obtain provided where "bearer_bytes (case header of Some h \<Rightarrow> h | None \<Rightarrow> '''') = Some provided"
    and "provided = expected"
    by (auto simp: phone_upgrade_def token_eq_iff split: option.splits if_splits)
  then obtain rest where "as_bytes (trim rest) = as_bytes token"
    by (auto simp: bearer_bytes_def assms(1) split: option.splits if_splits)
  then have "trim rest = token" by simp
  with trim_ends [of rest] assms(2,3) show False by simp
qed

lemma padded_token_unusable_witness:
  "phone_upgrade (as_bytes ''secret '') (Some ''Bearer secret '') = Unauthorized"
  by (rule padded_token_unusable [where token = "''secret ''"]) (simp_all add: is_space_def)

end
