(* ===== verification/Connections.thy ===== *)
theory Connections
  imports Frames Hub Auth
begin

text \<open>
  The tasks of \<open>crates/topside/src/net.rs\<close> that stand between a socket and the hub: one per home
  connection, one per phone. A task is a loop around \<open>select!\<close>; its turns are driven by what
  becomes ready. A turn of \<open>select!\<close> drops the branches that did not finish, and \<open>read_exact\<close>,
  which is documented as not cancellation safe, forgets with its future the bytes it has taken.
\<close>

section \<open>A home connection\<close>

text \<open>
  \<open>peer_bytes\<close> have arrived and are unread, \<open>taken_bytes\<close> are held by the read in progress.
  \<open>hub_open\<close> says whether the hub still takes messages.
\<close>

record home_task =
  peer_bytes :: bytes
  taken_bytes :: bytes
  peer_end :: "io_error option option"
  wire_out :: writer
  hub_told :: "to_hub list"
  hub_open :: bool
  running :: bool

datatype home_wake =
    Arrive bytes
  | Hangup "io_error option"
  | PollRead
  | Command "leader_client option"
  | PingTick
  | HaltFired
  | HubClosed

definition tell :: "to_hub \<Rightarrow> home_task \<Rightarrow> home_task" where
  "tell msg t = (if hub_open t then t\<lparr>hub_told := hub_told t @ [msg]\<rparr> else t)"

definition stop_task :: "home_task \<Rightarrow> home_task" where
  "stop_task t = t\<lparr>running := False\<rparr>"

text \<open>\<open>from_slice(...).unwrap_or(Unknown)\<close>.\<close>

definition leader_msg :: "codec \<Rightarrow> bytes \<Rightarrow> leader_server" where
  "leader_msg C json = (case from_slice C json of Some msg \<Rightarrow> msg | None \<Rightarrow> leader_server.Unknown)"

text \<open>The branch that reads: it goes on from what it has taken, and either finishes or waits for more.\<close>

definition poll_read :: "codec \<Rightarrow> home_gen \<Rightarrow> home_task \<Rightarrow> home_task" where
  "poll_read C g t =
     (case read_frame \<lparr>r_data = taken_bytes t @ peer_bytes t,
                       r_end = (case peer_end t of None \<Rightarrow> None | Some e \<Rightarrow> e)\<rparr> of
        Inr (json, r) \<Rightarrow>
          let t1 = t\<lparr>taken_bytes := [], peer_bytes := r_data r\<rparr> in
          if hub_open t1 then tell (HomeFrame g (leader_msg C json)) t1 else stop_task t1
      | Inl (TooLarge n) \<Rightarrow> stop_task (tell (HomeEof g) t)
      | Inl (Io e) \<Rightarrow>
          (case peer_end t of
             None \<Rightarrow> t\<lparr>taken_bytes := taken_bytes t @ peer_bytes t, peer_bytes := []\<rparr>
           | Some _ \<Rightarrow> stop_task (tell (HomeEof g) t)))"

text \<open>The branches that write, with the read dropped.\<close>

definition write_out :: "codec \<Rightarrow> home_gen \<Rightarrow> leader_client \<Rightarrow> home_task \<Rightarrow> home_task" where
  "write_out C g msg t =
     (case to_vec C msg of
        None \<Rightarrow> t
      | Some json \<Rightarrow>
          (case write_frame json (wire_out t) of
             (Inl _, out') \<Rightarrow> stop_task (tell (HomeEof g) (t\<lparr>wire_out := out'\<rparr>))
           | (Inr _, out') \<Rightarrow> t\<lparr>wire_out := out'\<rparr>))"

definition drop_read :: "home_task \<Rightarrow> home_task" where
  "drop_read t = t\<lparr>taken_bytes := []\<rparr>"

fun home_turn :: "codec \<Rightarrow> home_gen \<Rightarrow> home_wake \<Rightarrow> home_task \<Rightarrow> home_task" where
  "home_turn C g (Arrive bs) t = t\<lparr>peer_bytes := peer_bytes t @ bs\<rparr>"
| "home_turn C g (Hangup e) t = t\<lparr>peer_end := Some e\<rparr>"
| "home_turn C g HubClosed t = t\<lparr>hub_open := False\<rparr>"
| "home_turn C g PollRead t = (if running t then poll_read C g t else t)"
| "home_turn C g (Command (Some msg)) t =
     (if running t then write_out C g msg (drop_read t) else t)"
| "home_turn C g (Command None) t = (if running t then stop_task t else t)"
| "home_turn C g PingTick t = (if running t then write_out C g Ping (drop_read t) else t)"
| "home_turn C g HaltFired t = (if running t then stop_task t else t)"

text \<open>
  What happens before the loop: the TLS handshake, the announcement to the hub, the identity the
  hub gives back, the registration. The result is what the hub was told and, if the task gets
  that far, the state the loop starts in.
\<close>

definition home_start ::
  "codec \<Rightarrow> bool \<Rightarrow> chan \<Rightarrow> chan \<Rightarrow> chan \<Rightarrow> bool \<Rightarrow> home_gen option \<Rightarrow> writer \<Rightarrow> to_hub list \<times> home_task option" where
  "home_start C accepted out_ch halt_ch bind_ch hub_up bound sink =
     (if \<not> accepted then ([], None)
      else if \<not> hub_up then ([], None)
      else let told = [Accepted out_ch halt_ch bind_ch] in
        (case bound of
           None \<Rightarrow> (told, None)
         | Some g \<Rightarrow>
             (case to_vec C register of
                None \<Rightarrow> (told, None)
              | Some json \<Rightarrow>
                  (case write_frame json sink of
                     (Inl _, _) \<Rightarrow> (told @ [HomeEof g], None)
                   | (Inr _, sink') \<Rightarrow>
                       (told, Some \<lparr>peer_bytes = [], taken_bytes = [], peer_end = None,
                          wire_out = sink', hub_told = told, hub_open = True, running = True\<rparr>)))))"

section \<open>Reading frames\<close>

lemma write_out_reading [simp]:
  "peer_bytes (write_out C g msg t) = peer_bytes t" "taken_bytes (write_out C g msg t) = taken_bytes t"
  by (simp_all add: write_out_def stop_task_def tell_def split: option.splits prod.splits sum.splits)

text \<open>What the hub is told of a connection: its frames, then at most its end.\<close>

definition told_frames :: "codec \<Rightarrow> home_gen \<Rightarrow> bytes list \<Rightarrow> to_hub list" where
  "told_frames C g jsons = map (\<lambda>json. HomeFrame g (leader_msg C json)) jsons"

text \<open>
  The relation between the stream that arrived so far, the frames that were delivered, and the
  bytes still held.
\<close>

definition stream_ok :: "codec \<Rightarrow> home_gen \<Rightarrow> to_hub list \<Rightarrow> bytes \<Rightarrow> home_task \<Rightarrow> bool" where
  "stream_ok C g told arrived t \<longleftrightarrow>
     (\<exists>jsons bss tail. list_all2 (\<lambda>json bs. frame_bytes json = Some bs) jsons bss \<and>
        arrived = concat bss @ taken_bytes t @ peer_bytes t \<and>
        hub_told t = told @ told_frames C g jsons @ tail \<and>
        (if running t then tail = [] else tail = [] \<or> tail = [HomeEof g]))"

text \<open>A write comes only while no frame is half read, and the hub is there.\<close>

fun undisturbed :: "home_wake \<Rightarrow> home_task \<Rightarrow> bool" where
  "undisturbed (Command (Some msg)) t \<longleftrightarrow> taken_bytes t = []"
| "undisturbed PingTick t \<longleftrightarrow> taken_bytes t = []"
| "undisturbed HubClosed t \<longleftrightarrow> False"
| "undisturbed _ t \<longleftrightarrow> True"

fun arrived_with :: "home_wake \<Rightarrow> bytes" where
  "arrived_with (Arrive bs) = bs"
| "arrived_with _ = []"

fun home_turns :: "codec \<Rightarrow> home_gen \<Rightarrow> home_wake list \<Rightarrow> home_task \<Rightarrow> home_task" where
  "home_turns C g [] t = t"
| "home_turns C g (k # ks) t = home_turns C g ks (home_turn C g k t)"

fun all_undisturbed :: "codec \<Rightarrow> home_gen \<Rightarrow> home_wake list \<Rightarrow> home_task \<Rightarrow> bool" where
  "all_undisturbed C g [] t \<longleftrightarrow> True"
| "all_undisturbed C g (k # ks) t \<longleftrightarrow> undisturbed k t \<and> all_undisturbed C g ks (home_turn C g k t)"

lemma stream_okI:
  assumes "list_all2 (\<lambda>json bs. frame_bytes json = Some bs) jsons bss"
    and "arrived = concat bss @ taken_bytes t @ peer_bytes t"
    and "hub_told t = told @ told_frames C g jsons @ tail"
    and "if running t then tail = [] else tail = [] \<or> tail = [HomeEof g]"
  shows "stream_ok C g told arrived t"
  using assms unfolding stream_ok_def by blast

lemma stream_okE:
  assumes "stream_ok C g told arrived t"
  obtains jsons bss tail where "list_all2 (\<lambda>json bs. frame_bytes json = Some bs) jsons bss"
    and "arrived = concat bss @ taken_bytes t @ peer_bytes t"
    and "hub_told t = told @ told_frames C g jsons @ tail"
    and "if running t then tail = [] else tail = [] \<or> tail = [HomeEof g]"
  using assms unfolding stream_ok_def by blast

lemma stop_told_stream:
  assumes "stream_ok C g told arrived t" and "running t"
  shows "stream_ok C g told arrived (stop_task (tell (HomeEof g) t))"
    and "stream_ok C g told arrived (stop_task t)"
  using assms by (elim stream_okE; auto simp: stop_task_def tell_def intro: stream_okI)+

lemma poll_read_stream:
  assumes ok: "stream_ok C g told arrived t" and run: "running t" and hub: "hub_open t"
  shows "stream_ok C g told arrived (poll_read C g t)"
proof -
  from ok run obtain jsons bss where s: "list_all2 (\<lambda>json bs. frame_bytes json = Some bs) jsons bss"
    "arrived = concat bss @ taken_bytes t @ peer_bytes t" "hub_told t = told @ told_frames C g jsons"
    by (auto elim: stream_okE)
  let ?r = "\<lparr>r_data = taken_bytes t @ peer_bytes t, r_end = (case peer_end t of None \<Rightarrow> None | Some e \<Rightarrow> e)\<rparr>"
  show ?thesis
  proof (cases "read_frame ?r")
    case (Inr x)
    then obtain json r where r: "read_frame ?r = Inr (json, r)" by (cases x) auto
    obtain bs where bs: "frame_bytes json = Some bs" "taken_bytes t @ peer_bytes t = bs @ r_data r"
      using read_frame_bytes [OF r] by auto
    have "list_all2 (\<lambda>json bs. frame_bytes json = Some bs) (jsons @ [json]) (bss @ [bs])"
      using s(1) bs(1) by (simp add: list_all2_appendI)
    then show ?thesis
      by (rule stream_okI [where tail = "[]"])
        (use s r bs hub run in \<open>simp_all add: poll_read_def tell_def told_frames_def Let_def\<close>)
  next
    case (Inl e)
    then show ?thesis using s stop_told_stream [OF ok run] run
      by (cases e) (auto simp: poll_read_def intro: stream_okI split: option.splits)
  qed
qed

lemma write_out_stream:
  assumes "stream_ok C g told arrived t" and "running t"
  shows "stream_ok C g told arrived (write_out C g msg t)"
proof -
  have "stream_ok C g told arrived (t\<lparr>wire_out := x\<rparr>)" for x
    using assms by (elim stream_okE) (auto intro: stream_okI)
  then show ?thesis using assms stop_told_stream(1)
    by (auto simp: write_out_def split: option.splits prod.splits sum.splits)
qed

lemma home_turn_stream:
  assumes ok: "stream_ok C g told arrived t" and calm: "undisturbed k t" and hub: "hub_open t"
  shows "stream_ok C g told (arrived @ arrived_with k) (home_turn C g k t)"
    and "hub_open (home_turn C g k t)"
proof -
  have drop: "drop_read t = t" if "taken_bytes t = []" using that by (simp add: drop_read_def)
  have extra: "stream_ok C g told (arrived @ bs) (t\<lparr>peer_bytes := peer_bytes t @ bs\<rparr>)" for bs
    using ok by (elim stream_okE) (auto intro: stream_okI)
  have closed: "stream_ok C g told arrived (t\<lparr>peer_end := e\<rparr>)" for e
    using ok by (elim stream_okE) (auto intro: stream_okI)
  show "stream_ok C g told (arrived @ arrived_with k) (home_turn C g k t)"
    using ok calm hub drop extra closed poll_read_stream write_out_stream stop_told_stream(2)
    by (cases "(C, g, k, t)" rule: home_turn.cases) auto
  show "hub_open (home_turn C g k t)"
    using hub calm
    by (cases "(C, g, k, t)" rule: home_turn.cases)
      (auto simp: poll_read_def write_out_def tell_def stop_task_def drop_read_def Let_def
        split: sum.splits prod.splits option.splits wire_error.splits)
qed

lemma home_turns_stream:
  assumes "stream_ok C g told arrived t" and "all_undisturbed C g ks t" and "hub_open t"
  shows "stream_ok C g told (arrived @ concat (map arrived_with ks)) (home_turns C g ks t)"
  using assms
proof (induction ks arbitrary: t arrived)
  case (Cons k ks)
  then have k: "undisturbed k t" and ks: "all_undisturbed C g ks (home_turn C g k t)" by simp_all
  note T = home_turn_stream [OF Cons.prems(1) k Cons.prems(3)]
  from Cons.IH [OF T(1) ks T(2)] show ?case by simp
qed simp

text \<open>
  As long as no write falls into the middle of a frame, a home connection delivers what the
  peer sent however the network cuts it up: the hub is told exactly the frames that have arrived
  in full, each once and in order, then at most the end of the connection, and every other byte
  that arrived is still held.
\<close>

theorem home_frames_in_order:
  assumes "all_undisturbed C g ks t" and "hub_open t" and "running t"
    and "taken_bytes t = []" and "peer_bytes t = []" and "t' = home_turns C g ks t"
  shows "\<exists>jsons bss tail. list_all2 (\<lambda>json bs. frame_bytes json = Some bs) jsons bss \<and>
    concat (map arrived_with ks) = concat bss @ taken_bytes t' @ peer_bytes t' \<and>
    hub_told t' = hub_told t @ map (\<lambda>json. HomeFrame g (leader_msg C json)) jsons @ tail \<and>
    (if running t' then tail = [] else tail = [] \<or> tail = [HomeEof g])"
proof -
  have "stream_ok C g (hub_told t) [] t"
    using assms(3-5) by (intro stream_okI [where jsons = "[]" and bss = "[]"]) (simp_all add: told_frames_def)
  from home_turns_stream [OF this assms(1,2)]
  show ?thesis unfolding assms(6) stream_ok_def told_frames_def by simp
qed

definition demo_codec :: codec where
  "demo_codec = \<lparr>de_value = (\<lambda>_. None), de_end = (\<lambda>_. True), to_text = (\<lambda>_. ''''),
     to_vec = (\<lambda>msg. case msg of Ping \<Rightarrow> Some [80] | _ \<Rightarrow> None),
     from_slice = (\<lambda>bs. if bs = [82] then Some LeaderReady else None)\<rparr>"

definition demo_task :: home_task where
  "demo_task = \<lparr>peer_bytes = [], taken_bytes = [], peer_end = None,
     wire_out = \<lparr>w_data = [], w_room = None, w_flush = None\<rparr>, hub_told = [], hub_open = True, running = True\<rparr>"

definition demo_reads :: "home_wake list" where
  "demo_reads = [Arrive [0, 0], PollRead, Arrive [0, 1, 82, 0], PollRead]"

lemma home_frames_in_order_witness:
  "\<exists>jsons bss tail. list_all2 (\<lambda>json bs. frame_bytes json = Some bs) jsons bss \<and>
    concat (map arrived_with demo_reads) = concat bss @
      taken_bytes (home_turns demo_codec (HomeGen 1) demo_reads demo_task) @
      peer_bytes (home_turns demo_codec (HomeGen 1) demo_reads demo_task) \<and>
    hub_told (home_turns demo_codec (HomeGen 1) demo_reads demo_task) = hub_told demo_task @
      map (\<lambda>json. HomeFrame (HomeGen 1) (leader_msg demo_codec json)) jsons @ tail \<and>
    (if running (home_turns demo_codec (HomeGen 1) demo_reads demo_task) then tail = []
     else tail = [] \<or> tail = [HomeEof (HomeGen 1)])"
  by (rule home_frames_in_order [OF _ _ _ _ _ refl]) (simp_all add: demo_reads_def demo_task_def)

text \<open>A frame cut short is not an error yet.\<close>

lemma read_frame_partial:
  assumes "frame_bytes json = Some (xs @ ys)" and "ys \<noteq> []"
  shows "read_frame \<lparr>r_data = xs, r_end = None\<rparr> = Inl (Io UnexpectedEof)"
proof -
  let ?hdr = "to_be_bytes (word_of_nat (length json))"
  have ok: "length json \<le> MAX_FRAME" and eq: "?hdr @ json = xs @ ys"
    using assms(1) by (simp_all add: frame_bytes_eq split: if_splits)
  have "length (?hdr @ json) = length (xs @ ys)" by (simp only: eq)
  then have "4 + length json = length xs + length ys" by simp
  moreover have "0 < length ys" using assms(2) by simp
  ultimately have len: "length xs < 4 + length json" by linarith
  show ?thesis
  proof (cases "length xs < 4")
    case False
    then have "take 4 xs = ?hdr"
      using arg_cong [OF eq, of "take 4"] by simp
    then show ?thesis using False len ok
      by (auto simp: read_frame_def read_exact_def from_to_be_bytes MAX_FRAME_fits Let_def)
  qed (simp add: read_frame_def read_exact_def)
qed

lemma read_frame_whole:
  "frame_bytes json = Some bs \<Longrightarrow>
   read_frame \<lparr>r_data = bs, r_end = e\<rparr> = Inr (json, \<lparr>r_data = [], r_end = e\<rparr>)"
  using read_frame_ok [of json "[]" e] by (simp add: frame_bytes_eq split: if_splits)

text \<open>
  C28: A write that does fall into the middle of a frame loses what was read of it. A frame that
  arrives in two pieces is delivered when nothing happens in between; when the ping timer fires
  between the pieces, the first piece is gone, nothing is delivered, and the connection, still
  running, goes on reading in the middle of the frame.
\<close>

theorem write_amid_frame_loses_it:
  assumes "frame_bytes json = Some (xs @ ys)" and "ys \<noteq> []"
    and "running t" and "hub_open t" and "taken_bytes t = []" and "peer_bytes t = []" and "peer_end t = None"
    and "to_vec C Ping = Some ping" and "length ping \<le> MAX_FRAME"
    and "w_room (wire_out t) = None" and "w_flush (wire_out t) = None"
    and "interrupted = home_turns C g [Arrive xs, PollRead, PingTick, Arrive ys] t"
  shows "hub_told (home_turns C g [Arrive xs, PollRead, Arrive ys, PollRead] t) =
      hub_told t @ [HomeFrame g (leader_msg C json)] \<and>
    hub_told interrupted = hub_told t \<and> taken_bytes interrupted = [] \<and>
    peer_bytes interrupted = ys \<and> running interrupted"
  using assms(3-11) read_frame_partial [OF assms(1,2)] read_frame_whole [OF assms(1), of None]
  by (simp add: assms(12) poll_read_def write_out_def drop_read_def write_frame_ok tell_def)

lemma write_amid_frame_loses_it_witness:
  "peer_bytes (home_turns demo_codec (HomeGen 1) [Arrive [0, 0, 0, 1], PollRead, PingTick, Arrive [82]] demo_task) = [82]"
proof -
  have "frame_bytes [82] = Some ([0, 0, 0, 1] @ [82])"
    by (simp add: frame_bytes_eq MAX_FRAME_def to_be_bytes_def)
  from write_amid_frame_loses_it [OF this _ _ _ _ _ _ _ _ _ _ refl, of demo_task demo_codec "[80]" "HomeGen 1"]
  show ?thesis by (simp add: demo_task_def demo_codec_def MAX_FRAME_def)
qed

section \<open>A phone\<close>

text \<open>
  The WebSocket library turns the byte stream into messages; \<open>stream.next()\<close> gives a message, an
  error, or the end.
\<close>

datatype ws_message =
    Text string
  | WsPing bytes
  | WsPong bytes
  | WsFrame bytes
  | Binary bytes
  | Close

datatype ws_item = Got ws_message | Failed | Finished

record phone_task =
  ws_out :: "ws_message list"
  phone_told :: "to_hub list"
  phone_hub_open :: bool
  phone_running :: bool

text \<open>
  A turn: an item came in, or the hub has a text for the phone; the flag says whether the socket
  takes what the turn sends.
\<close>

datatype phone_wake =
    Incoming ws_item bool
  | Outgoing "string option" bool
  | HubGone

definition phone_eof :: "phone_id \<Rightarrow> phone_task \<Rightarrow> phone_task" where
  "phone_eof p t = t\<lparr>phone_told := (if phone_hub_open t then phone_told t @ [PhoneEof p] else phone_told t),
     phone_running := False\<rparr>"

fun phone_turn :: "phone_id \<Rightarrow> phone_wake \<Rightarrow> phone_task \<Rightarrow> phone_task" where
  "phone_turn p (Incoming (Got (Text s)) took) t =
     (if \<not> phone_running t then t
      else if phone_hub_open t then t\<lparr>phone_told := phone_told t @ [PhoneText p s]\<rparr>
      else t\<lparr>phone_running := False\<rparr>)"
| "phone_turn p (Incoming (Got (WsPing payload)) took) t =
     (if phone_running t \<and> took then t\<lparr>ws_out := ws_out t @ [WsPong payload]\<rparr> else t)"
| "phone_turn p (Incoming (Got (WsPong payload)) took) t = t"
| "phone_turn p (Incoming (Got (WsFrame payload)) took) t = t"
| "phone_turn p (Incoming (Got (Binary payload)) took) t = t"
| "phone_turn p (Incoming (Got Close) took) t = (if phone_running t then phone_eof p t else t)"
| "phone_turn p (Incoming Failed took) t = (if phone_running t then phone_eof p t else t)"
| "phone_turn p (Incoming Finished took) t = (if phone_running t then phone_eof p t else t)"
| "phone_turn p (Outgoing (Some s) took) t =
     (if \<not> phone_running t then t
      else if took then t\<lparr>ws_out := ws_out t @ [Text s]\<rparr> else phone_eof p t)"
| "phone_turn p (Outgoing None took) t = (if phone_running t then t\<lparr>phone_running := False\<rparr> else t)"
| "phone_turn p HubGone t = t\<lparr>phone_hub_open := False\<rparr>"

text \<open>What comes before the loop: the upgrade, the announcement, the identity.\<close>

definition phone_start ::
  "upgrade \<Rightarrow> bool \<Rightarrow> chan \<Rightarrow> chan \<Rightarrow> bool \<Rightarrow> phone_id option \<Rightarrow> to_hub list \<times> phone_task option" where
  "phone_start answer handshake out_ch bind_ch hub_up bound =
     (if answer \<noteq> Accept \<or> \<not> handshake then ([], None)
      else if \<not> hub_up then ([], None)
      else let told = [PhoneHello out_ch bind_ch] in
        (case bound of
           None \<Rightarrow> (told, None)
         | Some p \<Rightarrow> (told, Some \<lparr>ws_out = [], phone_told = told, phone_hub_open = True, phone_running = True\<rparr>)))"

text \<open>The texts among the items that came in.\<close>

fun text_in :: "phone_wake \<Rightarrow> string list" where
  "text_in (Incoming (Got (Text s)) took) = [s]"
| "text_in _ = []"

definition incoming_texts :: "phone_wake list \<Rightarrow> string list" where
  "incoming_texts ks = concat (map text_in ks)"

lemma phone_stopped:
  "\<not> phone_running t \<Longrightarrow> phone_told (fold (phone_turn p) ks t) = phone_told t \<and>
     \<not> phone_running (fold (phone_turn p) ks t)"
proof (induction ks arbitrary: t)
  case (Cons k ks)
  have "phone_told (phone_turn p k t) = phone_told t \<and> \<not> phone_running (phone_turn p k t)"
    using Cons.prems by (cases "(p, k, t)" rule: phone_turn.cases) auto
  with Cons.IH [of "phone_turn p k t"] show ?case by simp
qed simp

lemma phone_turn_told:
  assumes "k \<noteq> HubGone" and "phone_hub_open t" and "phone_running t"
  shows "phone_hub_open (phone_turn p k t)"
    and "phone_told (phone_turn p k t) = phone_told t @
      (if phone_running (phone_turn p k t) then map (PhoneText p) (text_in k)
       else if phone_told (phone_turn p k t) = phone_told t then [] else [PhoneEof p])"
  using assms by (cases "(p, k, t)" rule: phone_turn.cases; auto simp: phone_eof_def)+

lemma phone_texts_told:
  assumes "HubGone \<notin> set ks" and "phone_hub_open t" and "phone_running t"
  shows "\<exists>n tail. phone_told (fold (phone_turn p) ks t) =
      phone_told t @ map (PhoneText p) (take n (incoming_texts ks)) @ tail \<and>
    (if phone_running (fold (phone_turn p) ks t) then n = length (incoming_texts ks) \<and> tail = []
     else tail = [] \<or> tail = [PhoneEof p])"
  using assms
proof (induction ks arbitrary: t)
  case Nil
  then show ?case by (simp add: incoming_texts_def)
next
  case (Cons k ks)
  let ?t = "phone_turn p k t"
  from Cons.prems have k: "k \<noteq> HubGone" and ks: "HubGone \<notin> set ks" by auto
  note T = phone_turn_told [OF k Cons.prems(2,3), of p]
  show ?case
  proof (cases "phone_running ?t")
    case True
    from Cons.IH [OF ks T(1) True] obtain n tail where
      n: "phone_told (fold (phone_turn p) ks ?t) = phone_told ?t @ map (PhoneText p) (take n (incoming_texts ks)) @ tail"
        "if phone_running (fold (phone_turn p) ks ?t) then n = length (incoming_texts ks) \<and> tail = []
         else tail = [] \<or> tail = [PhoneEof p]"
      by blast
    have "incoming_texts (k # ks) = text_in k @ incoming_texts ks" by (simp add: incoming_texts_def)
    then show ?thesis using n T(2) True
      by (intro exI [of _ "length (text_in k) + n"] exI [of _ tail]) (simp split: if_splits)
  next
    case False
    then show ?thesis using phone_stopped [OF False, of p ks] T(2)
      by (intro exI [of _ 0] exI [of _ "if phone_told ?t = phone_told t then [] else [PhoneEof p]"]) simp
  qed
qed

text \<open>
  C29: A phone's task tells the hub the texts of the phone in order and unchanged: all of them
  while it runs, those up to the end when it has stopped, and then at most the end, once, and
  nothing after it. Frames that are not text never reach the hub.
\<close>

theorem phone_texts_in_order:
  assumes "HubGone \<notin> set ks" and "phone_hub_open t" and "phone_running t"
    and "t' = fold (phone_turn p) ks t"
  shows "\<exists>n tail. phone_told t' = phone_told t @ map (PhoneText p) (take n (incoming_texts ks)) @ tail \<and>
    (if phone_running t' then n = length (incoming_texts ks) \<and> tail = []
     else tail = [] \<or> tail = [PhoneEof p])"
  unfolding assms(4) by (rule phone_texts_told [OF assms(1-3)])

definition demo_phone :: phone_task where
  "demo_phone = \<lparr>ws_out = [], phone_told = [], phone_hub_open = True, phone_running = True\<rparr>"

definition demo_items :: "phone_wake list" where
  "demo_items = [Incoming (Got (Text ''a'')) True, Incoming (Got (Binary [1])) True, Outgoing (Some ''b'') True,
     Incoming (Got (Text ''c'')) True, Incoming Finished True, Incoming (Got (Text ''d'')) True]"

lemma phone_texts_in_order_witness:
  "\<exists>n tail. phone_told (fold (phone_turn (PhoneId 1)) demo_items demo_phone) =
      phone_told demo_phone @ map (PhoneText (PhoneId 1)) (take n (incoming_texts demo_items)) @ tail \<and>
    (if phone_running (fold (phone_turn (PhoneId 1)) demo_items demo_phone)
     then n = length (incoming_texts demo_items) \<and> tail = []
     else tail = [] \<or> tail = [PhoneEof (PhoneId 1)])"
  by (rule phone_texts_in_order [OF _ _ _ refl]) (simp_all add: demo_items_def demo_phone_def)

end
