(* ===== verification/Tls_Files.thy ===== *)
theory Tls_Files
  imports Wire
begin

text \<open>
  What both programs share when they load their TLS files: the results of fallible calls and the
  \<open>?\<close> that hands an error on, the library calls they make (opening a file, the PEM parsers of
  \<open>rustls_pemfile\<close>, the root store of \<open>rustls\<close>), and, as the interface \<open>cert_files\<close>, what their
  loaders of certificates and roots promise.
\<close>

section \<open>Results\<close>

definition and_then :: "'e + 'a \<Rightarrow> ('a \<Rightarrow> 'e + 'b) \<Rightarrow> 'e + 'b" where
  "and_then r f = (case r of Inl e \<Rightarrow> Inl e | Inr x \<Rightarrow> f x)"

definition map_err :: "('e \<Rightarrow> 'f) \<Rightarrow> 'e + 'a \<Rightarrow> 'f + 'a" where
  "map_err f r = (case r of Inl e \<Rightarrow> Inl (f e) | Inr x \<Rightarrow> Inr x)"

definition ok_or :: "'e \<Rightarrow> 'a option \<Rightarrow> 'e + 'a" where
  "ok_or e r = (case r of Some x \<Rightarrow> Inr x | None \<Rightarrow> Inl e)"

text \<open>\<open>collect\<close> of an iterator of results stops at the first error.\<close>

fun collect :: "('e + 'a) list \<Rightarrow> 'e + 'a list" where
  "collect [] = Inr []"
| "collect (Inl e # rs) = Inl e"
| "collect (Inr x # rs) = (case collect rs of Inl e \<Rightarrow> Inl e | Inr xs \<Rightarrow> Inr (x # xs))"

named_theorems ok_simps \<open>when a result is a value\<close>

lemma and_then_simps [simp]: "and_then (Inl e) f = Inl e" "and_then (Inr x) f = f x"
  by (simp_all add: and_then_def)

lemma and_then_Inr [ok_simps]: "and_then r f = Inr y \<longleftrightarrow> (\<exists>x. r = Inr x \<and> f x = Inr y)"
  by (cases r) simp_all

lemma map_err_Inr [ok_simps]: "map_err f r = Inr x \<longleftrightarrow> r = Inr x"
  by (cases r) (simp_all add: map_err_def)

lemma map_err_simps [simp]: "map_err f (Inl e) = Inl (f e)" "map_err f (Inr x) = Inr x"
  by (simp_all add: map_err_def)

lemma ok_or_Inr [ok_simps]: "ok_or e r = Inr x \<longleftrightarrow> r = Some x"
  by (cases r) (simp_all add: ok_or_def)

section \<open>The libraries\<close>

type_synonym path = string
type_synonym cert = bytes
type_synonym key = bytes

record tls_library =
  open_file :: "path \<Rightarrow> io_error + bytes"
  certs_in :: "bytes \<Rightarrow> (io_error + cert) list"
  private_key_in :: "bytes \<Rightarrow> io_error + key option"
  root_ok :: "cert \<Rightarrow> bool"

text \<open>A PEM file that holds certificates, and one that holds a key.\<close>

definition cert_file :: "'m tls_library_scheme \<Rightarrow> path \<Rightarrow> cert list \<Rightarrow> bool" where
  "cert_file L p certs \<longleftrightarrow>
     (\<exists>file. open_file L p = Inr file \<and> collect (certs_in L file) = Inr certs) \<and> certs \<noteq> []"

definition key_file :: "'m tls_library_scheme \<Rightarrow> path \<Rightarrow> key \<Rightarrow> bool" where
  "key_file L p k \<longleftrightarrow> (\<exists>file. open_file L p = Inr file \<and> private_key_in L file = Inr (Some k))"

section \<open>The interface of a loader\<close>

locale cert_files =
  fixes certs_ok :: "path \<Rightarrow> cert list \<Rightarrow> bool"
    and trusted :: "cert \<Rightarrow> bool"
    and load_file :: "path \<Rightarrow> string \<Rightarrow> 'e + cert list"
    and load_trusted :: "path \<Rightarrow> 'e + cert list"
  assumes file_law: "load_file p flag = Inr certs \<longleftrightarrow> certs_ok p certs"
    and nonempty: "certs_ok p certs \<Longrightarrow> certs \<noteq> []"
    and trusted_law: "load_trusted p = Inr roots \<longleftrightarrow> certs_ok p roots \<and> list_all trusted roots"
begin

text \<open>The flag only names the file in an error.\<close>

lemma flag_irrelevant: "load_file p f = Inr certs \<longleftrightarrow> load_file p g = Inr certs"
  by (simp add: file_law)

lemma one_result: "certs_ok p certs \<Longrightarrow> certs_ok p certs' \<Longrightarrow> certs = certs'"
  by (metis file_law sum.inject(2))

lemma first_cert: "load_file p flag = Inr certs \<Longrightarrow> \<exists>leaf rest. certs = leaf # rest"
  using nonempty by (cases certs) (auto simp: file_law)

lemma trusted_file: "load_trusted p = Inr roots \<Longrightarrow> load_file p flag = Inr roots \<and> roots \<noteq> []"
  using nonempty [of p roots] by (simp add: file_law trusted_law)

end

end
