(* ===== verification/Std_Net.thy ===== *)
theory Std_Net
  imports Prelude
begin

text \<open>
  What the configuration uses of the Rust standard library: the parsers behind
  \<open>parse::<SocketAddr>()\<close>, \<open>parse::<IpAddr>()\<close> and \<open>parse::<u16>()\<close>, the \<open>Display\<close> of an address,
  \<open>str::trim\<close> and \<open>rsplit_once\<close>. A parser takes a text and gives what it read with the rest; one
  that fails leaves the text alone, so its result is \<open>None\<close>.
\<close>

section \<open>Digits\<close>

definition hex_digit :: "nat \<Rightarrow> char" where
  "hex_digit d = char_of (if d < 10 then 48 + d else 87 + d)"

definition to_digit :: "nat \<Rightarrow> char \<Rightarrow> nat option" where
  "to_digit radix c =
     (let n = of_char c :: nat;
          d = (if 48 \<le> n \<and> n \<le> 57 then Some (n - 48)
               else if 97 \<le> n \<and> n \<le> 122 then Some (n - 87)
               else if 65 \<le> n \<and> n \<le> 90 then Some (n - 55) else None)
      in case d of Some k \<Rightarrow> if k < radix then Some k else None | None \<Rightarrow> None)"

definition is_digit :: "nat \<Rightarrow> char \<Rightarrow> bool" where
  "is_digit radix c \<longleftrightarrow> to_digit radix c \<noteq> None"

definition digits_value :: "nat \<Rightarrow> string \<Rightarrow> nat" where
  "digits_value radix ds = foldl (\<lambda>n c. radix * n + (case to_digit radix c of Some d \<Rightarrow> d | None \<Rightarrow> 0)) 0 ds"

text \<open>\<open>{:x}\<close> of an unsigned integer.\<close>

fun show_hex :: "nat \<Rightarrow> string" where
  "show_hex n = (if n < 16 then [hex_digit n] else show_hex (n div 16) @ [hex_digit (n mod 16)])"

declare show_hex.simps [simp del]

section \<open>Parsing\<close>

definition read_given_char :: "char \<Rightarrow> string \<Rightarrow> string option" where
  "read_given_char target s = (case s of c # cs \<Rightarrow> if c = target then Some cs else None | [] \<Rightarrow> None)"

text \<open>
  \<open>read_number\<close>: all the digits there are, in the radix; at least one and at most \<open>max_digits\<close>, a
  leading zero only where it is allowed, and a value that fits the type.
\<close>

definition read_number :: "nat \<Rightarrow> nat option \<Rightarrow> bool \<Rightarrow> nat \<Rightarrow> string \<Rightarrow> (nat \<times> string) option" where
  "read_number radix max_digits allow_zero_prefix largest s =
     (let ds = takeWhile (is_digit radix) s; n = digits_value radix ds in
      if ds = [] then None
      else if (case max_digits of Some m \<Rightarrow> length ds > m | None \<Rightarrow> False) then None
      else if \<not> allow_zero_prefix \<and> hd ds = CHR ''0'' \<and> length ds > 1 then None
      else if n > largest then None
      else Some (n, dropWhile (is_digit radix) s))"

definition read_separator :: "char \<Rightarrow> nat \<Rightarrow> (string \<Rightarrow> ('a \<times> string) option) \<Rightarrow> string \<Rightarrow> ('a \<times> string) option" where
  "read_separator sep index inner s =
     (if index > 0 then Option.bind (read_given_char sep s) inner else inner s)"

datatype ip_addr =
    V4 u8 u8 u8 u8
  | V6 "u16 list"

definition read_octet :: "string \<Rightarrow> (u8 \<times> string) option" where
  "read_octet s = map_option (map_prod word_of_nat id) (read_number 10 (Some 3) False 255 s)"

definition read_ipv4_addr :: "string \<Rightarrow> ((u8 \<times> u8 \<times> u8 \<times> u8) \<times> string) option" where
  "read_ipv4_addr s =
     Option.bind (read_separator CHR ''.'' 0 read_octet s) (\<lambda>(a, s).
     Option.bind (read_separator CHR ''.'' 1 read_octet s) (\<lambda>(b, s).
     Option.bind (read_separator CHR ''.'' 2 read_octet s) (\<lambda>(c, s).
     Option.bind (read_separator CHR ''.'' 3 read_octet s) (\<lambda>(d, s).
       Some ((a, b, c, d), s)))))"

definition read_group :: "string \<Rightarrow> (u16 \<times> string) option" where
  "read_group s = map_option (map_prod word_of_nat id) (read_number 16 (Some 4) True 65535 s)"

definition pair_u16 :: "u8 \<Rightarrow> u8 \<Rightarrow> u16" where
  "pair_u16 a b = word_of_nat (256 * unat a + unat b)"

text \<open>
  \<open>read_groups\<close>: groups between colons into a slice of length \<open>limit\<close>, an embedded IPv4 address
  wherever two groups are left. The result is the groups, whether the last two came from an IPv4
  address, and the rest.
\<close>

function read_groups :: "nat \<Rightarrow> nat \<Rightarrow> string \<Rightarrow> u16 list \<times> bool \<times> string" where
  "read_groups limit i s =
     (if limit \<le> i then ([], False, s)
      else
        (case (if i < limit - 1 then read_separator CHR '':'' i read_ipv4_addr s else None) of
           Some ((a, b, c, d), s') \<Rightarrow> ([pair_u16 a b, pair_u16 c d], True, s')
         | None \<Rightarrow>
             (case read_separator CHR '':'' i read_group s of
                Some (g, s') \<Rightarrow>
                  (let (gs, v4, s'') = read_groups limit (Suc i) s' in (g # gs, v4, s''))
              | None \<Rightarrow> ([], False, s))))"
  by pat_completeness auto
termination by (relation "measure (\<lambda>(limit, i, s). limit - i)") auto

declare read_groups.simps [simp del]

definition read_ipv6_addr :: "string \<Rightarrow> (u16 list \<times> string) option" where
  "read_ipv6_addr s =
     (let (head, head_ipv4, s1) = read_groups 8 0 s in
      if length head = 8 then Some (head, s1)
      else if head_ipv4 then None
      else
        Option.bind (read_given_char CHR '':'' s1) (\<lambda>s2.
        Option.bind (read_given_char CHR '':'' s2) (\<lambda>s3.
          let limit = 8 - (length head + 1);
              (tail, _, s4) = read_groups limit 0 s3
          in Some (head @ replicate (8 - length head - length tail) 0 @ tail, s4))))"

definition read_ip_addr :: "string \<Rightarrow> (ip_addr \<times> string) option" where
  "read_ip_addr s =
     (case read_ipv4_addr s of
        Some ((a, b, c, d), s') \<Rightarrow> Some (V4 a b c d, s')
      | None \<Rightarrow> map_option (map_prod V6 id) (read_ipv6_addr s))"

definition read_port :: "string \<Rightarrow> (u16 \<times> string) option" where
  "read_port s =
     Option.bind (read_given_char CHR '':'' s) (\<lambda>s.
       map_option (map_prod word_of_nat id) (read_number 10 None True 65535 s))"

definition read_scope_id :: "string \<Rightarrow> (u32 \<times> string) option" where
  "read_scope_id s =
     Option.bind (read_given_char CHR ''%'' s) (\<lambda>s.
       map_option (map_prod word_of_nat id) (read_number 10 None True 4294967295 s))"

record socket_addr =
  sa_ip :: ip_addr
  sa_port :: u16
  sa_scope :: u32

definition read_socket_addr_v4 :: "string \<Rightarrow> (socket_addr \<times> string) option" where
  "read_socket_addr_v4 s =
     Option.bind (read_ipv4_addr s) (\<lambda>((a, b, c, d), s).
     Option.bind (read_port s) (\<lambda>(port, s).
       Some (\<lparr>sa_ip = V4 a b c d, sa_port = port, sa_scope = 0\<rparr>, s)))"

definition read_socket_addr_v6 :: "string \<Rightarrow> (socket_addr \<times> string) option" where
  "read_socket_addr_v6 s =
     Option.bind (read_given_char CHR ''['' s) (\<lambda>s.
     Option.bind (read_ipv6_addr s) (\<lambda>(ip, s).
       let (scope, s) = (case read_scope_id s of Some x \<Rightarrow> x | None \<Rightarrow> (0, s)) in
     Option.bind (read_given_char CHR '']'' s) (\<lambda>s.
     Option.bind (read_port s) (\<lambda>(port, s).
       Some (\<lparr>sa_ip = V6 ip, sa_port = port, sa_scope = scope\<rparr>, s)))))"

definition read_socket_addr :: "string \<Rightarrow> (socket_addr \<times> string) option" where
  "read_socket_addr s =
     (case read_socket_addr_v4 s of Some x \<Rightarrow> Some x | None \<Rightarrow> read_socket_addr_v6 s)"

text \<open>\<open>parse_with\<close>: the whole text has to be read.\<close>

definition whole :: "('a \<times> string) option \<Rightarrow> 'a option" where
  "whole r = (case r of Some (x, []) \<Rightarrow> Some x | _ \<Rightarrow> None)"

definition parse_ip_addr :: "string \<Rightarrow> ip_addr option" where
  "parse_ip_addr s = whole (read_ip_addr s)"

definition parse_socket_addr :: "string \<Rightarrow> socket_addr option" where
  "parse_socket_addr s = whole (read_socket_addr s)"

text \<open>\<open>u16::from_str\<close>: digits with an optional plus sign.\<close>

definition parse_u16 :: "string \<Rightarrow> u16 option" where
  "parse_u16 s =
     (let ds = (if s \<noteq> [] \<and> hd s = CHR ''+'' then tl s else s) in
      if ds = [] \<or> \<not> list_all (is_digit 10) ds then None
      else if digits_value 10 ds > 65535 then None
      else Some (word_of_nat (digits_value 10 ds)))"

section \<open>Rendering\<close>

text \<open>The longest run of zero groups, the first of several that are equally long.\<close>

fun zero_run :: "nat \<Rightarrow> nat \<times> nat \<Rightarrow> nat \<times> nat \<Rightarrow> u16 list \<Rightarrow> nat \<times> nat" where
  "zero_run i longest current [] = longest"
| "zero_run i longest current (g # gs) =
     (if g = 0
      then let current' = (if snd current = 0 then i else fst current, snd current + 1);
               longest' = (if snd current' > snd longest then current' else longest)
           in zero_run (Suc i) longest' current' gs
      else zero_run (Suc i) longest (0, 0) gs)"

fun fmt_subslice :: "u16 list \<Rightarrow> string" where
  "fmt_subslice [] = []"
| "fmt_subslice [g] = show_hex (unat g)"
| "fmt_subslice (g # gs) = show_hex (unat g) @ CHR '':'' # fmt_subslice gs"

definition show_ipv4 :: "u8 \<Rightarrow> u8 \<Rightarrow> u8 \<Rightarrow> u8 \<Rightarrow> string" where
  "show_ipv4 a b c d =
     show_nat (unat a) @ CHR ''.'' # show_nat (unat b) @ CHR ''.'' # show_nat (unat c) @
       CHR ''.'' # show_nat (unat d)"

text \<open>\<open>to_ipv4_mapped\<close>: the addresses \<open>::ffff:a.b.c.d\<close>.\<close>

definition ipv4_mapped :: "u16 list \<Rightarrow> (u8 \<times> u8 \<times> u8 \<times> u8) option" where
  "ipv4_mapped gs =
     (case gs of
        [a, b, c, d, e, f, g, h] \<Rightarrow>
          if a = 0 \<and> b = 0 \<and> c = 0 \<and> d = 0 \<and> e = 0 \<and> f = 65535
          then Some (word_of_nat (unat g div 256), word_of_nat (unat g mod 256),
                     word_of_nat (unat h div 256), word_of_nat (unat h mod 256))
          else None
      | _ \<Rightarrow> None)"

definition show_ipv6 :: "u16 list \<Rightarrow> string" where
  "show_ipv6 gs =
     (case ipv4_mapped gs of
        Some (a, b, c, d) \<Rightarrow> ''::ffff:'' @ show_ipv4 a b c d
      | None \<Rightarrow>
          (let (start, len) = zero_run 0 (0, 0) (0, 0) gs in
           if len > 1
           then fmt_subslice (take start gs) @ ''::'' @ fmt_subslice (drop (start + len) gs)
           else fmt_subslice gs))"

fun show_ip :: "ip_addr \<Rightarrow> string" where
  "show_ip (V4 a b c d) = show_ipv4 a b c d"
| "show_ip (V6 gs) = show_ipv6 gs"

text \<open>An IPv6 address is an array of eight groups.\<close>

fun ip_ok :: "ip_addr \<Rightarrow> bool" where
  "ip_ok (V4 a b c d) \<longleftrightarrow> True"
| "ip_ok (V6 gs) \<longleftrightarrow> length gs = 8"

section \<open>Trimming and splitting\<close>

text \<open>
  \<open>char::is_whitespace\<close> in UTF-8. No encoding is part of another character's, so looking at the
  bytes at the ends of a text is looking at its characters there.
\<close>

definition white_spaces :: "string list" where
  "white_spaces = map (map char_of)
     ([[9], [10], [11], [12], [13], [32], [194, 133], [194, 160], [225, 154, 128]] @
      map (\<lambda>n. [226, 128, n]) [128 ..< 139] @
      [[226, 128, 168], [226, 128, 169], [226, 128, 175], [226, 129, 159], [227, 128, 128 :: nat]])"

function trim_with :: "string list \<Rightarrow> string \<Rightarrow> string" where
  "trim_with pats s =
     (case filter (\<lambda>w. w \<noteq> [] \<and> take (length w) s = w) pats of
        w # _ \<Rightarrow> trim_with pats (drop (length w) s)
      | [] \<Rightarrow> s)"
  by pat_completeness auto
termination
proof (relation "measure (\<lambda>(pats, s). length s)")
  fix pats :: "string list" and s w ws
  assume "filter (\<lambda>w. w \<noteq> [] \<and> take (length w) s = w) pats = w # ws"
  from arg_cong [OF this, of set] have "w \<noteq> [] \<and> take (length w) s = w" by auto
  then have "length w > 0" and "length s > 0" by auto
  then show "((pats, drop (length w) s), (pats, s)) \<in> measure (\<lambda>(pats, s). length s)" by simp
qed simp

declare trim_with.simps [simp del]

definition trim_text :: "string \<Rightarrow> string" where
  "trim_text s = rev (trim_with (map rev white_spaces) (rev (trim_with white_spaces s)))"

text \<open>\<open>rsplit_once\<close>: around the last occurrence.\<close>

fun rsplit_once :: "char \<Rightarrow> string \<Rightarrow> (string \<times> string) option" where
  "rsplit_once c [] = None"
| "rsplit_once c (x # xs) =
     (case rsplit_once c xs of
        Some (a, b) \<Rightarrow> Some (x # a, b)
      | None \<Rightarrow> if x = c then Some ([], xs) else None)"

end
