(* ===== verification/Std_Net_Facts.thy ===== *)
theory Std_Net_Facts
  imports Std_Net
begin

text \<open>
  What is printed is read back: numbers, octets and groups, IPv4 and IPv6 addresses in their
  canonical text, and socket addresses.
\<close>

section \<open>Digits and numbers\<close>

lemma to_digit_hex_digit: "d < 16 \<Longrightarrow> to_digit r (hex_digit d) = (if d < r then Some d else None)"
  by (auto simp: to_digit_def hex_digit_def)

lemma is_digit_hex_digit: "d < 16 \<Longrightarrow> is_digit r (hex_digit d) \<longleftrightarrow> d < r"
  by (simp add: is_digit_def to_digit_hex_digit)

lemma digit_hex_digit: "d < 10 \<Longrightarrow> digit d = hex_digit d"
  by (simp add: digit_def hex_digit_def)

lemma of_char_hex_digit: "d < 16 \<Longrightarrow> of_char (hex_digit d) = (if d < 10 then 48 + d else 87 + d :: nat)"
  by (simp add: hex_digit_def)

lemma digits_value_snoc:
  "digits_value r (ds @ [c]) = r * digits_value r ds + (case to_digit r c of Some d \<Rightarrow> d | None \<Rightarrow> 0)"
  by (simp add: digits_value_def)

lemma show_hex_facts:
  "show_hex n \<noteq> [] \<and> list_all (is_digit 16) (show_hex n) \<and> digits_value 16 (show_hex n) = n \<and>
   (k > 0 \<longrightarrow> n < 16 ^ k \<longrightarrow> length (show_hex n) \<le> k)"
proof (induction n arbitrary: k rule: show_hex.induct)
  case (1 n)
  show ?case
  proof (cases "n < 16")
    case True
    then show ?thesis
      by (simp add: show_hex.simps [of n] is_digit_hex_digit to_digit_hex_digit digits_value_def)
  next
    case False
    note IH = 1 [OF False]
    have len: "length (show_hex n) \<le> k" if "k > 0" "n < 16 ^ k"
    proof -
      obtain j where j: "k = Suc j" using \<open>k > 0\<close> by (cases k) auto
      with that False have "j > 0" "n div 16 < 16 ^ j" by (cases j; simp add: less_mult_imp_div_less)+
      with IH [of j] False j show ?thesis by (simp add: show_hex.simps [of n])
    qed
    have "list_all (is_digit 16) (show_hex n) \<and> digits_value 16 (show_hex n) = n"
      using IH False by (simp add: show_hex.simps [of n] is_digit_hex_digit to_digit_hex_digit digits_value_snoc)
    moreover have "show_hex n \<noteq> []" using False by (simp add: show_hex.simps [of n])
    ultimately show ?thesis using len by blast
  qed
qed

lemma show_nat_facts:
  "show_nat n \<noteq> [] \<and> list_all (is_digit 10) (show_nat n) \<and> digits_value 10 (show_nat n) = n \<and>
   (k > 0 \<longrightarrow> n < 10 ^ k \<longrightarrow> length (show_nat n) \<le> k) \<and>
   (length (show_nat n) > 1 \<longrightarrow> hd (show_nat n) \<noteq> CHR ''0'')"
proof (induction n arbitrary: k rule: show_nat.induct)
  case (1 n)
  show ?case
  proof (cases "n < 10")
    case True
    then show ?thesis
      by (simp add: show_nat.simps [of n] is_digit_hex_digit digit_hex_digit to_digit_hex_digit digits_value_def)
  next
    case False
    note IH = 1 [OF False]
    have len: "length (show_nat n) \<le> k" if "k > 0" "n < 10 ^ k"
    proof -
      obtain j where j: "k = Suc j" using \<open>k > 0\<close> by (cases k) auto
      with that False have "j > 0" "n div 10 < 10 ^ j" by (cases j; simp add: less_mult_imp_div_less)+
      with IH [of j] False j show ?thesis by (simp add: show_nat.simps [of n])
    qed
    have hd: "hd (show_nat n) \<noteq> CHR ''0''"
    proof (cases "n div 10 < 10")
      case True
      have "n div 10 \<noteq> 0" using False by simp
      then have "digit (n div 10) \<noteq> CHR ''0''"
        using True of_char_digit [OF True] by (auto dest: arg_cong [where f = "of_char :: char \<Rightarrow> nat"])
      then show ?thesis using True False by (simp add: show_nat.simps [of n] show_nat.simps [of "n div 10"])
    next
      case big: False
      then have "length (show_nat (n div 10)) > 1" using IH
        by (simp add: show_nat.simps [of "n div 10"] show_nat.simps [of "n div 10 div 10"])
      then show ?thesis using IH False by (auto simp: show_nat.simps [of n] hd_append)
    qed
    have "list_all (is_digit 10) (show_nat n) \<and> digits_value 10 (show_nat n) = n"
      using IH False by (simp add: show_nat.simps [of n] is_digit_hex_digit digit_hex_digit to_digit_hex_digit digits_value_snoc)
    moreover have "show_nat n \<noteq> []" using False by (simp add: show_nat.simps [of n])
    ultimately show ?thesis using len hd by blast
  qed
qed

text \<open>The digits end where the rest begins.\<close>

definition ends_digits :: "nat \<Rightarrow> string \<Rightarrow> bool" where
  "ends_digits r s \<longleftrightarrow> (case s of c # _ \<Rightarrow> \<not> is_digit r c | [] \<Rightarrow> True)"

lemma takeWhile_digits:
  "list_all (is_digit r) ds \<Longrightarrow> ends_digits r rest \<Longrightarrow>
   takeWhile (is_digit r) (ds @ rest) = ds \<and> dropWhile (is_digit r) (ds @ rest) = rest"
  by (induction ds) (auto simp: ends_digits_def split: list.splits)

lemma read_octet_show:
  assumes "ends_digits 10 rest"
  shows "read_octet (show_nat (unat (a :: u8)) @ rest) = Some (a, rest)"
proof -
  have "unat a < 256" using unsigned_less [of a] by simp
  then show ?thesis
    using show_nat_facts [of "unat a" 3] takeWhile_digits [OF _ assms, of "show_nat (unat a)"]
    by (auto simp: read_octet_def read_number_def Let_def)
qed

lemma read_group_show:
  assumes "ends_digits 16 rest"
  shows "read_group (show_hex (unat (g :: u16)) @ rest) = Some (g, rest)"
proof -
  have "unat g < 65536" using unsigned_less [of g] by simp
  then show ?thesis
    using show_hex_facts [of "unat g" 4] takeWhile_digits [OF _ assms, of "show_hex (unat g)"]
    by (auto simp: read_group_def read_number_def Let_def)
qed

lemma read_port_show:
  assumes "ends_digits 10 rest"
  shows "read_port (CHR '':'' # show_nat (unat (p :: u16)) @ rest) = Some (p, rest)"
proof -
  have "unat p < 65536" using unsigned_less [of p] by simp
  then show ?thesis
    using show_nat_facts [of "unat p" 5] takeWhile_digits [OF _ assms, of "show_nat (unat p)"]
    by (auto simp: read_port_def read_given_char_def read_number_def Let_def)
qed

lemma read_scope_show:
  assumes "ends_digits 10 rest"
  shows "read_scope_id (CHR ''%'' # show_nat (unat (p :: u32)) @ rest) = Some (p, rest)"
proof -
  have "unat p < 4294967296" using unsigned_less [of p] by simp
  then show ?thesis
    using show_nat_facts [of "unat p" 10] takeWhile_digits [OF _ assms, of "show_nat (unat p)"]
    by (auto simp: read_scope_id_def read_given_char_def read_number_def Let_def)
qed

lemma parse_u16_show: "parse_u16 (show_nat (unat p)) = Some p"
proof -
  have "unat p < 65536" using unsigned_less [of p] by simp
  moreover have "hd (show_nat (unat p)) \<noteq> CHR ''+''"
    using show_nat_facts [of "unat p" 1] by (cases "show_nat (unat p)") (auto simp: is_digit_def to_digit_def)
  ultimately show ?thesis using show_nat_facts [of "unat p" 5]
    by (simp add: parse_u16_def Let_def)
qed

section \<open>IPv4\<close>

lemma ends_digits_char [simp]: "ends_digits r (c # s) \<longleftrightarrow> \<not> is_digit r c"
  by (simp add: ends_digits_def)

lemma ends_digits_Nil [simp]: "ends_digits r []"
  by (simp add: ends_digits_def)

lemma not_digit [simp]:
  "\<not> is_digit r CHR ''.''" "\<not> is_digit r CHR '':''" "\<not> is_digit r CHR '']''" "\<not> is_digit r CHR ''%''"
  by (simp_all add: is_digit_def to_digit_def)

lemma read_ipv4_show:
  assumes "ends_digits 10 rest"
  shows "read_ipv4_addr (show_ipv4 a b c d @ rest) = Some ((a, b, c, d), rest)"
  using assms
  by (simp add: read_ipv4_addr_def show_ipv4_def read_separator_def read_octet_show read_given_char_def)

text \<open>An IPv4 address has a dot after its first digits.\<close>

lemma read_ipv4_dot:
  assumes "read_ipv4_addr s \<noteq> None"
  shows "\<exists>r. dropWhile (is_digit 10) s = CHR ''.'' # r"
proof -
  from assms obtain a s1 where a: "read_octet s = Some (a, s1)"
    and s1: "read_separator CHR ''.'' 1 read_octet s1 \<noteq> None"
    by (auto simp: read_ipv4_addr_def read_separator_def bind_eq_Some_conv)
  have "s1 = dropWhile (is_digit 10) s"
    using a by (auto simp: read_octet_def read_number_def Let_def split: if_splits)
  then show ?thesis using s1
    by (auto simp: read_separator_def read_given_char_def bind_eq_Some_conv split: list.splits if_splits)
qed

section \<open>IPv6\<close>

text \<open>The text of groups as \<open>read_groups\<close> meets it from group \<open>i\<close> on, and where it stops.\<close>

definition seps :: "nat \<Rightarrow> u16 list \<Rightarrow> string" where
  "seps i gs = (if i = 0 then fmt_subslice gs else concat (map (\<lambda>g. CHR '':'' # show_hex (unat g)) gs))"

definition stops :: "string \<Rightarrow> bool" where
  "stops rest \<longleftrightarrow> ends_digits 16 rest \<and> take 1 rest \<noteq> ''.'' \<and> (\<forall>cs. rest = CHR '':'' # cs \<longrightarrow> ends_digits 16 cs)"

lemma fmt_subslice_Cons: "fmt_subslice (g # gs) = show_hex (unat g) @ seps 1 gs"
  by (induction gs arbitrary: g) (simp_all add: seps_def)

lemma seps_Cons:
  "seps i (g # gs) = (if i = 0 then [] else '':'') @ show_hex (unat g) @ seps (Suc i) gs"
  using fmt_subslice_Cons by (simp add: seps_def)

lemma seps_Nil [simp]: "seps i [] = []"
  by (simp add: seps_def)

lemma ends_digits_16_10: "ends_digits 16 s \<Longrightarrow> ends_digits 10 s"
  by (auto simp: ends_digits_def is_digit_def to_digit_def Let_def split: list.splits option.splits if_splits)

lemma no_digits:
  "ends_digits r s \<Longrightarrow> takeWhile (is_digit r) s = [] \<and> dropWhile (is_digit r) s = s"
  by (auto simp: ends_digits_def split: list.splits)

lemma read_group_none: "ends_digits 16 s \<Longrightarrow> read_group s = None"
  using no_digits [of 16 s] by (simp add: read_group_def read_number_def Let_def)

lemma read_ipv4_none: "ends_digits 10 s \<Longrightarrow> read_ipv4_addr s = None"
  using no_digits [of 10 s]
  by (simp add: read_ipv4_addr_def read_separator_def read_octet_def read_number_def Let_def)

lemma read_groups_stop:
  assumes "stops rest"
  shows "read_groups limit i rest = ([], False, rest)"
proof -
  have here: "read_group rest = None" "read_ipv4_addr rest = None"
    using assms by (simp_all add: stops_def read_group_none read_ipv4_none ends_digits_16_10)
  have after: "read_group cs = None" "read_ipv4_addr cs = None" if "read_given_char CHR '':'' rest = Some cs" for cs
    using assms that by (auto simp: stops_def read_given_char_def read_group_none read_ipv4_none ends_digits_16_10
        split: list.splits if_splits)
  show ?thesis
    using here after by (cases "read_given_char CHR '':'' rest")
      (simp_all add: read_groups.simps [of limit i rest] read_separator_def)
qed

lemma hex_not_ipv4:
  assumes "ends_digits 16 s" and "take 1 s \<noteq> ''.''"
  shows "read_ipv4_addr (show_hex n @ s) = None"
proof (rule ccontr)
  assume "read_ipv4_addr (show_hex n @ s) \<noteq> None"
  then obtain r where r: "dropWhile (is_digit 10) (show_hex n @ s) = CHR ''.'' # r"
    using read_ipv4_dot by blast
  have hex: "list_all (is_digit 16) (show_hex n)" using show_hex_facts by blast
  show False
  proof (cases "list_all (is_digit 10) (show_hex n)")
    case True
    then have "dropWhile (is_digit 10) (show_hex n @ s) = s"
      using takeWhile_digits ends_digits_16_10 [OF assms(1)] by blast
    with r assms(2) show False by simp
  next
    case False
    then obtain x where "x \<in> set (show_hex n)" "\<not> is_digit 10 x" by (auto simp: list_all_iff)
    then have "dropWhile (is_digit 10) (show_hex n) @ s = CHR ''.'' # r"
      using r dropWhile_append1 by metis
    moreover have "dropWhile (is_digit 10) (show_hex n) \<noteq> []"
      using \<open>x \<in> set (show_hex n)\<close> \<open>\<not> is_digit 10 x\<close> by (auto simp: dropWhile_eq_Nil_conv)
    ultimately have "CHR ''.'' \<in> set (dropWhile (is_digit 10) (show_hex n))"
      by (metis append_eq_Cons_conv list.set_intros(1))
    then have "CHR ''.'' \<in> set (show_hex n)" using set_dropWhileD by metis
    with hex show False by (auto simp: list_all_iff)
  qed
qed

lemma stops_seps:
  assumes "stops rest"
  shows "ends_digits 16 (seps (Suc i) gs @ rest) \<and> take 1 (seps (Suc i) gs @ rest) \<noteq> ''.''"
  using assms by (cases gs) (simp_all add: seps_Cons stops_def)

lemma read_groups_show:
  assumes "stops rest" and "i + length gs \<le> limit"
  shows "read_groups limit i (seps i gs @ rest) = (gs, False, rest)"
  using assms(2)
proof (induction gs arbitrary: i)
  case Nil
  then show ?case using read_groups_stop [OF assms(1)] by simp
next
  case (Cons g gs)
  let ?s = "seps (Suc i) gs @ rest"
  note S = stops_seps [OF assms(1), of i gs]
  have no4: "read_separator CHR '':'' i read_ipv4_addr (seps i (g # gs) @ rest) = None"
  proof -
    have "read_ipv4_addr (show_hex (unat g) @ ?s) = None" using hex_not_ipv4 S by blast
    then show ?thesis by (cases "i = 0") (simp_all add: read_separator_def seps_Cons read_given_char_def)
  qed
  have grp: "read_separator CHR '':'' i read_group (seps i (g # gs) @ rest) = Some (g, ?s)"
  proof -
    have "read_group (show_hex (unat g) @ ?s) = Some (g, ?s)" using read_group_show S by blast
    then show ?thesis by (cases "i = 0") (simp_all add: read_separator_def seps_Cons read_given_char_def)
  qed
  have "read_groups limit (Suc i) ?s = (gs, False, rest)" using Cons by simp
  then show ?case using no4 grp Cons.prems
    by (simp add: read_groups.simps [of limit i "seps i (g # gs) @ rest"])
qed

section \<open>The longest run of zeros\<close>

definition zeros_at :: "u16 list \<Rightarrow> nat \<times> nat \<Rightarrow> bool" where
  "zeros_at gs sp \<longleftrightarrow> fst sp + snd sp \<le> length gs \<and> (\<forall>j. fst sp \<le> j \<and> j < fst sp + snd sp \<longrightarrow> gs ! j = 0)"

lemma zero_run_zeros:
  assumes "zeros_at (done' @ gs) longest" and "zeros_at (done' @ gs) current"
    and "snd current > 0 \<longrightarrow> fst current + snd current = length done'"
  shows "zeros_at (done' @ gs) (zero_run (length done') longest current gs)"
  using assms
proof (induction gs arbitrary: done' longest current)
  case (Cons g gs)
  show ?case
  proof (cases "g = 0")
    case True
    define cur where "cur = (if snd current = 0 then length done' else fst current, snd current + 1)"
    have z: "zeros_at ((done' @ [g]) @ gs) cur"
      using Cons.prems True by (auto simp: zeros_at_def cur_def nth_append less_Suc_eq)
    have e: "fst cur + snd cur = length (done' @ [g])"
      using Cons.prems by (simp add: cur_def)
    have "zero_run (length done') longest current (g # gs) =
        zero_run (length (done' @ [g])) (if snd cur > snd longest then cur else longest) cur gs"
      by (simp add: True cur_def Let_def)
    then show ?thesis
      using Cons.IH [of "done' @ [g]" "if snd cur > snd longest then cur else longest" cur] z e Cons.prems(1)
      by simp
  next
    case False
    have "zeros_at ((done' @ [g]) @ gs) (0, 0)" by (simp add: zeros_at_def)
    then show ?thesis using Cons.IH [of "done' @ [g]" longest "(0, 0)"] Cons.prems False by simp
  qed
qed simp

lemma zero_run_split:
  assumes "zero_run 0 (0, 0) (0, 0) gs = (start, len)"
  shows "gs = take start gs @ replicate len 0 @ drop (start + len) gs \<and> start + len \<le> length gs"
proof -
  have "zeros_at gs (start, len)"
    using zero_run_zeros [of "[]" gs "(0, 0)" "(0, 0)"] assms by (simp add: zeros_at_def)
  then have le: "start + len \<le> length gs" and z: "\<And>j. start \<le> j \<Longrightarrow> j < start + len \<Longrightarrow> gs ! j = 0"
    by (auto simp: zeros_at_def)
  have "take len (drop start gs) = replicate len 0"
    using le z by (intro nth_equalityI) auto
  then have "drop start gs = replicate len 0 @ drop (start + len) gs"
    by (metis append_take_drop_id drop_drop add.commute)
  then show ?thesis using le by (metis append_take_drop_id)
qed

section \<open>Addresses\<close>

lemma seps_0: "seps 0 gs = fmt_subslice gs"
  by (simp add: seps_def)

lemma stops_double_colon: "stops (''::'' @ s)"
  by (simp add: stops_def)

text \<open>An address cut by a double colon.\<close>

lemma read_ipv6_compressed:
  assumes "stops rest" and "length hd_gs + length tl_gs < 8"
  shows "read_ipv6_addr (fmt_subslice hd_gs @ ''::'' @ fmt_subslice tl_gs @ rest) =
    Some (hd_gs @ replicate (8 - length hd_gs - length tl_gs) 0 @ tl_gs, rest)"
proof -
  have "read_groups 8 0 (fmt_subslice hd_gs @ ''::'' @ fmt_subslice tl_gs @ rest) =
      (hd_gs, False, ''::'' @ fmt_subslice tl_gs @ rest)"
    using read_groups_show [OF stops_double_colon, of 0 hd_gs 8] assms(2) by (simp add: seps_0)
  moreover have "read_groups (8 - (length hd_gs + 1)) 0 (fmt_subslice tl_gs @ rest) = (tl_gs, False, rest)"
    using read_groups_show [OF assms(1), of 0 tl_gs "8 - (length hd_gs + 1)"] assms(2) by (simp add: seps_0)
  ultimately show ?thesis using assms(2) by (simp add: read_ipv6_addr_def read_given_char_def)
qed

lemma read_ipv6_full:
  assumes "stops rest" and "length gs = 8"
  shows "read_ipv6_addr (fmt_subslice gs @ rest) = Some (gs, rest)"
  using read_groups_show [OF assms(1), of 0 gs 8] assms(2) by (simp add: seps_0 read_ipv6_addr_def)

text \<open>An address that ends in an IPv4 address.\<close>

lemma read_ipv6_mapped:
  assumes "stops rest"
  shows "read_ipv6_addr (''::ffff:'' @ show_ipv4 a b c d @ rest) =
    Some ([0, 0, 0, 0, 0, 65535, pair_u16 a b, pair_u16 c d], rest)"
proof -
  let ?q = "show_ipv4 a b c d @ rest"
  have rest: "ends_digits 10 rest" using assms by (simp add: stops_def ends_digits_16_10)
  have ffff: "''ffff'' = show_hex (unat (65535 :: u16))"
    by (simp add: show_hex.simps hex_digit_def) (simp add: char_of_def bit_0)
  have one: "read_groups 8 0 (''::ffff:'' @ ?q) = ([], False, ''::ffff:'' @ ?q)"
    using read_groups_stop [OF stops_double_colon [of "''ffff:'' @ ?q"]] by simp
  have sep: "ends_digits 16 (CHR '':'' # ?q)" "take 1 (CHR '':'' # ?q) \<noteq> ''.''" by simp_all
  have "read_ipv4_addr (''ffff'' @ CHR '':'' # ?q) = None"
    unfolding ffff by (rule hex_not_ipv4 [OF sep])
  moreover have "read_group (''ffff'' @ CHR '':'' # ?q) = Some (65535, CHR '':'' # ?q)"
    unfolding ffff by (rule read_group_show [OF sep(1)])
  moreover have "read_groups 7 (Suc 0) (CHR '':'' # ?q) = ([pair_u16 a b, pair_u16 c d], True, rest)"
    by (simp add: read_groups.simps [of 7] read_separator_def read_given_char_def read_ipv4_show [OF rest])
  ultimately have "read_groups 7 0 (''ffff:'' @ ?q) = ([65535, pair_u16 a b, pair_u16 c d], True, rest)"
    by (simp add: read_groups.simps [of 7 0] read_separator_def)
  with one show ?thesis by (simp add: read_ipv6_addr_def read_given_char_def numeral_eq_Suc)
qed

lemma pair_u16_split:
  "pair_u16 (word_of_nat (unat g div 256)) (word_of_nat (unat g mod 256)) = (g :: u16)"
proof -
  have "unat g < 65536" using unsigned_less [of g] by simp
  then have "unat g div 256 < 256" by auto
  then show ?thesis by (simp add: pair_u16_def unat_of_nat)
qed

lemma ipv4_mapped_SomeD:
  assumes "ipv4_mapped gs = Some (a, b, c, d)"
  shows "gs = [0, 0, 0, 0, 0, 65535, pair_u16 a b, pair_u16 c d]"
  using assms by (auto simp: ipv4_mapped_def pair_u16_split split: list.splits if_splits)

lemma read_show_ipv6:
  assumes "stops rest" and "length gs = 8"
  shows "read_ipv6_addr (show_ipv6 gs @ rest) = Some (gs, rest)"
proof (cases "ipv4_mapped gs")
  case (Some x)
  then obtain a b c d where m: "ipv4_mapped gs = Some (a, b, c, d)" by (cases x) auto
  then show ?thesis using read_ipv6_mapped [OF assms(1), of a b c d] ipv4_mapped_SomeD [OF m]
    by (simp add: show_ipv6_def)
next
  case None
  obtain start len where z: "zero_run 0 (0, 0) (0, 0) gs = (start, len)" by fastforce
  note split = zero_run_split [OF z]
  show ?thesis
  proof (cases "len > 1")
    case True
    let ?h = "take start gs" and ?t = "drop (start + len) gs"
    have n: "8 - length ?h - length ?t = len" "length ?h + length ?t < 8"
      using split assms(2) True by auto
    show ?thesis
      using read_ipv6_compressed [OF assms(1) n(2)] n(1) split None z True
      by (simp add: show_ipv6_def)
  next
    case False
    then show ?thesis using None z read_ipv6_full [OF assms] by (simp add: show_ipv6_def)
  qed
qed

lemma fmt_subslice_start:
  "fmt_subslice gs = [] \<or> (\<exists>c cs. fmt_subslice gs = c # cs \<and> is_digit 16 c)"
proof (cases gs)
  case (Cons g gs')
  then show ?thesis using show_hex_facts [of "unat g" 1]
    by (cases "show_hex (unat g)") (auto simp: fmt_subslice_Cons)
qed simp

text \<open>The text of an IPv6 address is no IPv4 address and does not start with a bracket.\<close>

lemma show_ipv6_not_ipv4:
  assumes "length gs = 8"
  shows "read_ipv4_addr (show_ipv6 gs @ rest) = None"
proof (cases "ipv4_mapped gs")
  case (Some x)
  then show ?thesis by (cases x) (simp add: show_ipv6_def read_ipv4_none)
next
  case None
  obtain start len where z: "zero_run 0 (0, 0) (0, 0) gs = (start, len)" by fastforce
  have group: "read_ipv4_addr (fmt_subslice (g # gs') @ CHR '':'' # r) = None" for g gs' r
    using hex_not_ipv4 [of "seps 1 gs' @ CHR '':'' # r" "unat g"]
    by (cases gs') (simp_all add: fmt_subslice_Cons seps_Cons)
  have full: "read_ipv4_addr (fmt_subslice (g # h # gs') @ r) = None" for g h gs' r
    using hex_not_ipv4 [of "seps 1 (h # gs') @ r" "unat g"]
    by (simp add: fmt_subslice_Cons seps_Cons)
  show ?thesis
  proof (cases "len > 1")
    case True
    have "read_ipv4_addr (fmt_subslice h @ ''::'' @ r) = None" for h r
      using group by (cases h) (simp_all add: read_ipv4_none)
    then show ?thesis using None z True by (simp add: show_ipv6_def)
  next
    case False
    obtain g h gs' where "gs = g # h # gs'" using assms
      by (cases gs; cases "tl gs") auto
    then show ?thesis using None z False full by (simp add: show_ipv6_def del: fmt_subslice.simps)
  qed
qed

lemma read_show_ip:
  assumes "ip_ok a" and "stops rest"
  shows "read_ip_addr (show_ip a @ rest) = Some (a, rest)"
  using assms
  by (cases a) (simp_all add: read_ip_addr_def read_show_ipv6 show_ipv6_not_ipv4
      read_ipv4_show ends_digits_16_10 stops_def)

lemma stops_Nil [simp]: "stops []"
  by (simp add: stops_def)

lemma parse_show_ip: "ip_ok a \<Longrightarrow> parse_ip_addr (show_ip a) = Some a"
  using read_show_ip [of a "[]"] by (simp add: parse_ip_addr_def whole_def)

section \<open>Socket addresses\<close>

lemma parse_show_socket_v4:
  "parse_socket_addr (show_ipv4 a b c d @ CHR '':'' # show_nat (unat p)) =
     Some \<lparr>sa_ip = V4 a b c d, sa_port = p, sa_scope = 0\<rparr>"
  using read_ipv4_show [of "CHR '':'' # show_nat (unat p)" a b c d] read_port_show [of "[]" p]
  by (simp add: parse_socket_addr_def read_socket_addr_def read_socket_addr_v4_def whole_def)

text \<open>An IPv6 address in brackets, with and without a scope.\<close>

lemma stops_bracket [simp]: "stops (CHR '']'' # s)" "stops (CHR ''%'' # s)"
  by (simp_all add: stops_def)

lemma not_v4_bracket: "read_socket_addr_v4 (CHR ''['' # s) = None"
proof -
  have "read_ipv4_addr (CHR ''['' # s) = None"
    by (rule read_ipv4_none) (simp add: is_digit_def to_digit_def)
  then show ?thesis by (simp add: read_socket_addr_v4_def)
qed

lemma parse_show_socket_v6:
  assumes "length gs = 8"
  shows "parse_socket_addr (CHR ''['' # show_ipv6 gs @ '']:'' @ show_nat (unat p)) =
      Some \<lparr>sa_ip = V6 gs, sa_port = p, sa_scope = 0\<rparr>"
    and "parse_socket_addr (CHR ''['' # show_ipv6 gs @ CHR ''%'' # show_nat (unat sc) @ '']:'' @ show_nat (unat p)) =
      Some \<lparr>sa_ip = V6 gs, sa_port = p, sa_scope = sc\<rparr>"
proof -
  have port: "read_port (CHR '':'' # show_nat (unat p)) = Some (p, [])"
    using read_port_show [of "[]" p] by simp
  have no_scope: "read_scope_id (CHR '']'' # s) = None" for s
    by (simp add: read_scope_id_def read_given_char_def)
  have scope: "read_scope_id (CHR ''%'' # show_nat (unat sc) @ CHR '']'' # s) = Some (sc, CHR '']'' # s)" for s
    by (rule read_scope_show) simp
  show "parse_socket_addr (CHR ''['' # show_ipv6 gs @ '']:'' @ show_nat (unat p)) =
      Some \<lparr>sa_ip = V6 gs, sa_port = p, sa_scope = 0\<rparr>"
    using read_show_ipv6 [OF stops_bracket(1) assms] port no_scope
    by (simp add: parse_socket_addr_def read_socket_addr_def not_v4_bracket read_socket_addr_v6_def
        read_given_char_def whole_def)
  show "parse_socket_addr (CHR ''['' # show_ipv6 gs @ CHR ''%'' # show_nat (unat sc) @ '']:'' @ show_nat (unat p)) =
      Some \<lparr>sa_ip = V6 gs, sa_port = p, sa_scope = sc\<rparr>"
    using read_show_ipv6 [OF stops_bracket(2) assms] port scope
    by (simp add: parse_socket_addr_def read_socket_addr_def not_v4_bracket read_socket_addr_v6_def
        read_given_char_def whole_def)
qed

text \<open>The bare text of an address is no socket address: there is no port.\<close>

lemma parse_socket_ip: "ip_ok a \<Longrightarrow> parse_socket_addr (show_ip a) = None"
proof (cases a)
  case (V4 a b c d)
  have "read_socket_addr_v4 (show_ipv4 a b c d) = None"
    using read_ipv4_show [of "[]" a b c d] by (simp add: read_socket_addr_v4_def read_port_def read_given_char_def)
  moreover have "read_given_char CHR ''['' (show_ipv4 a b c d) = None"
  proof (rule ccontr)
    assume "read_given_char CHR ''['' (show_ipv4 a b c d) \<noteq> None"
    then obtain s where "show_ipv4 a b c d = CHR ''['' # s"
      by (auto simp: read_given_char_def split: list.splits if_splits)
    then have "read_ipv4_addr (show_ipv4 a b c d) = None"
      using read_ipv4_none [of "CHR ''['' # s"] by (simp add: is_digit_def to_digit_def)
    then show False using read_ipv4_show [of "[]" a b c d] by simp
  qed
  ultimately show ?thesis using V4
    by (simp add: parse_socket_addr_def read_socket_addr_def read_socket_addr_v6_def whole_def)
next
  case (V6 gs)
  assume ok: "ip_ok a"
  then have "read_socket_addr_v4 (show_ipv6 gs) = None"
    using show_ipv6_not_ipv4 [of gs "[]"] V6 by (simp add: read_socket_addr_v4_def)
  moreover have "read_given_char CHR ''['' (show_ipv6 gs) = None"
  proof (rule ccontr)
    assume "read_given_char CHR ''['' (show_ipv6 gs) \<noteq> None"
    then obtain s where s: "show_ipv6 gs = CHR ''['' # s"
      by (auto simp: read_given_char_def split: list.splits if_splits)
    have "stops (CHR ''['' # s)" by (simp add: stops_def is_digit_def to_digit_def)
    then have "read_ipv6_addr (show_ipv6 gs) = None"
      unfolding s by (simp add: read_ipv6_addr_def read_groups_stop read_given_char_def)
    then show False using read_show_ipv6 [of "[]" gs] ok V6 by simp
  qed
  ultimately show ?thesis using V6
    by (simp add: parse_socket_addr_def read_socket_addr_def read_socket_addr_v6_def whole_def)
qed

end
