(* ===== verification/Topside_Config.thy ===== *)
theory Topside_Config
  imports Auth Tls_Files Std_Net_Facts
begin

text \<open>
  \<open>crates/topside/src/config.rs\<close>: the command line, \<open>Config::load\<close> with its loaders and errors, and
  the verifier that lets one client certificate in. What \<open>rustls\<close> does is a parameter: the
  verifier it builds from the roots, and whether a chain and a key make a server identity.
\<close>

section \<open>Command line and configuration\<close>

definition DEFAULT_SNORKEL :: string where
  "DEFAULT_SNORKEL = ''0.0.0.0:1943''"

definition DEFAULT_PHONE :: string where
  "DEFAULT_PHONE = ''0.0.0.0:7678''"

record cli =
  cli_cert :: path
  cli_key :: path
  cli_ca :: path
  cli_client_cert :: path
  cli_token :: string
  cli_snorkel :: socket_addr
  cli_phone :: socket_addr

datatype tls_error = ApplicationVerificationFailure | OtherTlsError string

type_synonym unix_time = nat
type_synonym signature_scheme = u16
type_synonym signed_struct = "signature_scheme \<times> bytes"

text \<open>The trait \<open>ClientCertVerifier\<close>.\<close>

record verifier =
  root_hint_subjects :: "bytes list"
  verify_client_cert :: "cert \<Rightarrow> cert list \<Rightarrow> unix_time \<Rightarrow> tls_error + unit"
  verify_tls12_signature :: "bytes \<Rightarrow> cert \<Rightarrow> signed_struct \<Rightarrow> tls_error + unit"
  verify_tls13_signature :: "bytes \<Rightarrow> cert \<Rightarrow> signed_struct \<Rightarrow> tls_error + unit"
  supported_verify_schemes :: "signature_scheme list"
  offer_client_auth :: bool
  client_auth_mandatory :: bool
  requires_raw_public_keys :: bool

record topside_library = tls_library +
  client_verifier_of :: "cert list \<Rightarrow> string + verifier"
  server_identity :: "cert list \<Rightarrow> key \<Rightarrow> string + unit"

record server_tls =
  client_verifier :: verifier
  cert_chain :: "cert list"
  private_key :: key
  stores_sessions :: bool
  send_tls13_tickets :: nat

record config =
  cfg_snorkel :: socket_addr
  cfg_phone :: socket_addr
  cfg_tls :: server_tls
  cfg_token :: bytes

datatype config_error =
    EmptyToken
  | ReadPem string path io_error
  | NoCertificates string path
  | NoPrivateKey path
  | InvalidCa path
  | ClientVerifier string
  | ServerIdentity string

section \<open>The pinned verifier\<close>

text \<open>\<open>PinnedClientVerifier { inner, leaf }\<close>.\<close>

definition pinned_verify :: "verifier \<Rightarrow> cert \<Rightarrow> cert \<Rightarrow> cert list \<Rightarrow> unix_time \<Rightarrow> tls_error + unit" where
  "pinned_verify inner leaf end_entity intermediates now =
     and_then (verify_client_cert inner end_entity intermediates now) (\<lambda>_.
       if end_entity \<noteq> leaf then Inl ApplicationVerificationFailure else Inr ())"

definition pinned_client_verifier :: "verifier \<Rightarrow> cert \<Rightarrow> verifier" where
  "pinned_client_verifier inner leaf =
     \<lparr>root_hint_subjects = root_hint_subjects inner,
      verify_client_cert = pinned_verify inner leaf,
      verify_tls12_signature = verify_tls12_signature inner,
      verify_tls13_signature = verify_tls13_signature inner,
      supported_verify_schemes = supported_verify_schemes inner,
      offer_client_auth = offer_client_auth inner,
      client_auth_mandatory = client_auth_mandatory inner,
      requires_raw_public_keys = requires_raw_public_keys inner\<rparr>"

section \<open>Loading\<close>

definition pem_reader :: "'m tls_library_scheme \<Rightarrow> path \<Rightarrow> string \<Rightarrow> config_error + bytes" where
  "pem_reader L p flag = map_err (ReadPem flag p) (open_file L p)"

definition load_certs :: "'m tls_library_scheme \<Rightarrow> path \<Rightarrow> string \<Rightarrow> config_error + cert list" where
  "load_certs L p flag =
     and_then (pem_reader L p flag) (\<lambda>file.
     and_then (map_err (ReadPem flag p) (collect (certs_in L file))) (\<lambda>certs.
       if certs = [] then Inl (NoCertificates flag p) else Inr certs))"

definition load_key :: "'m tls_library_scheme \<Rightarrow> path \<Rightarrow> config_error + key" where
  "load_key L p =
     and_then (pem_reader L p ''--key'') (\<lambda>file.
     and_then (map_err (ReadPem ''--key'' p) (private_key_in L file)) (\<lambda>k.
       ok_or (NoPrivateKey p) k))"

fun add_roots :: "'m tls_library_scheme \<Rightarrow> path \<Rightarrow> cert list \<Rightarrow> cert list \<Rightarrow> config_error + cert list" where
  "add_roots L p [] roots = Inr roots"
| "add_roots L p (c # cs) roots =
     (if root_ok L c then add_roots L p cs (roots @ [c]) else Inl (InvalidCa p))"

definition load_roots :: "'m tls_library_scheme \<Rightarrow> path \<Rightarrow> config_error + cert list" where
  "load_roots L p = and_then (load_certs L p ''--ca'') (\<lambda>certs. add_roots L p certs [])"

text \<open>
  \<open>Config::load\<close>. The result is \<open>None\<close> when it panics, which \<open>pin_certs[0]\<close> does on an empty list.
\<close>

definition load :: "topside_library \<Rightarrow> cli \<Rightarrow> (config_error + config) option" where
  "load L c =
     (if cli_token c = [] then Some (Inl EmptyToken)
      else case load_roots L (cli_ca c) of Inl e \<Rightarrow> Some (Inl e) | Inr roots \<Rightarrow>
        (case load_certs L (cli_cert c) ''--cert'' of Inl e \<Rightarrow> Some (Inl e) | Inr server_certs \<Rightarrow>
        (case load_key L (cli_key c) of Inl e \<Rightarrow> Some (Inl e) | Inr server_key \<Rightarrow>
        (case load_certs L (cli_client_cert c) ''--client-cert'' of
           Inl e \<Rightarrow> Some (Inl e)
         | Inr [] \<Rightarrow> None
         | Inr (leaf # _) \<Rightarrow>
             (case map_err ClientVerifier (client_verifier_of L roots) of Inl e \<Rightarrow> Some (Inl e) | Inr inner \<Rightarrow>
             (case map_err ServerIdentity (server_identity L server_certs server_key) of
                Inl e \<Rightarrow> Some (Inl e)
              | Inr _ \<Rightarrow>
                  Some (Inr \<lparr>cfg_snorkel = cli_snorkel c, cfg_phone = cli_phone c,
                    cfg_tls = \<lparr>client_verifier = pinned_client_verifier inner leaf,
                      cert_chain = server_certs, private_key = server_key,
                      stores_sessions = False, send_tls13_tickets = 0\<rparr>,
                    cfg_token = as_bytes (cli_token c)\<rparr>)))))))"

section \<open>The loaders keep their contract\<close>

lemma load_certs_Inr: "load_certs L p flag = Inr certs \<longleftrightarrow> cert_file L p certs"
  by (auto simp: load_certs_def pem_reader_def cert_file_def ok_simps split: if_splits)

lemma load_key_Inr: "load_key L p = Inr k \<longleftrightarrow> key_file L p k"
  by (auto simp: load_key_def pem_reader_def key_file_def ok_simps)

lemma add_roots_Inr:
  "add_roots L p certs roots = Inr all' \<longleftrightarrow> list_all (root_ok L) certs \<and> all' = roots @ certs"
  by (induction certs arbitrary: roots) auto

interpretation topside_files: cert_files "cert_file L" "root_ok L" "load_certs L" "load_roots L"
  by unfold_locales
    (auto simp: load_certs_Inr load_roots_def add_roots_Inr ok_simps cert_file_def)

lemma load_steps:
  "load L c = Some (Inr cfg) \<longleftrightarrow>
     (\<exists>roots certs k leaf rest inner. cli_token c \<noteq> [] \<and> load_roots L (cli_ca c) = Inr roots \<and>
        load_certs L (cli_cert c) ''--cert'' = Inr certs \<and> load_key L (cli_key c) = Inr k \<and>
        load_certs L (cli_client_cert c) ''--client-cert'' = Inr (leaf # rest) \<and> client_verifier_of L roots = Inr inner \<and>
        server_identity L certs k = Inr () \<and>
        cfg = \<lparr>cfg_snorkel = cli_snorkel c, cfg_phone = cli_phone c,
          cfg_tls = \<lparr>client_verifier = pinned_client_verifier inner leaf, cert_chain = certs,
            private_key = k, stores_sessions = False, send_tls13_tickets = 0\<rparr>,
          cfg_token = as_bytes (cli_token c)\<rparr>)"
  by (auto simp: load_def map_err_def split: sum.splits list.splits)

lemma load_eq:
  "load L c = Some (Inr cfg) \<longleftrightarrow>
     (\<exists>roots certs k leaf rest inner. cli_token c \<noteq> [] \<and> load_roots L (cli_ca c) = Inr roots \<and>
        cert_file L (cli_cert c) certs \<and> key_file L (cli_key c) k \<and>
        cert_file L (cli_client_cert c) (leaf # rest) \<and> client_verifier_of L roots = Inr inner \<and>
        server_identity L certs k = Inr () \<and>
        cfg = \<lparr>cfg_snorkel = cli_snorkel c, cfg_phone = cli_phone c,
          cfg_tls = \<lparr>client_verifier = pinned_client_verifier inner leaf, cert_chain = certs,
            private_key = k, stores_sessions = False, send_tls13_tickets = 0\<rparr>,
          cfg_token = as_bytes (cli_token c)\<rparr>)"
  by (simp only: load_steps load_certs_Inr load_key_Inr)

section \<open>Properties\<close>

lemma load_returns: "load L c \<noteq> None"
proof -
  have pins: "\<exists>leaf rest. pins = leaf # rest"
    if "load_certs L (cli_client_cert c) ''--client-cert'' = Inr pins" for pins
    using topside_files.first_cert [OF that] .
  show ?thesis by (auto simp: load_def split: sum.splits list.splits dest: pins)
qed

text \<open>
  \<open>Config::load\<close> never panics, and it succeeds exactly when there is a token, the files hold
  at least one certificate each and a key, every certificate of the \<open>--ca\<close> file can be a root, and
  \<open>rustls\<close> accepts the roots and the identity; every other outcome is one of its errors, and an
  empty token is reported before any file is opened.
\<close>

theorem config_load_total:
  "load L c \<noteq> None \<and>
   ((\<exists>cfg. load L c = Some (Inr cfg)) \<longleftrightarrow>
     cli_token c \<noteq> [] \<and>
     (\<exists>roots inner certs k pins. cert_file L (cli_ca c) roots \<and> list_all (root_ok L) roots \<and>
       client_verifier_of L roots = Inr inner \<and> cert_file L (cli_cert c) certs \<and>
       key_file L (cli_key c) k \<and> server_identity L certs k = Inr () \<and>
       cert_file L (cli_client_cert c) pins)) \<and>
   (cli_token c = [] \<longleftrightarrow> load L c = Some (Inl EmptyToken))"
proof (intro conjI)
  show "load L c \<noteq> None" by (rule load_returns)
  show "(\<exists>cfg. load L c = Some (Inr cfg)) \<longleftrightarrow> cli_token c \<noteq> [] \<and>
     (\<exists>roots inner certs k pins. cert_file L (cli_ca c) roots \<and> list_all (root_ok L) roots \<and>
       client_verifier_of L roots = Inr inner \<and> cert_file L (cli_cert c) certs \<and>
       key_file L (cli_key c) k \<and> server_identity L certs k = Inr () \<and>
       cert_file L (cli_client_cert c) pins)"
  proof -
    have "(\<exists>leaf rest. cert_file L p (leaf # rest)) \<longleftrightarrow> (\<exists>pins. cert_file L p pins)" for p
      by (auto simp: cert_file_def neq_Nil_conv)
    moreover have "(\<exists>cfg. load L c = Some (Inr cfg)) \<longleftrightarrow> cli_token c \<noteq> [] \<and>
        (\<exists>roots certs k inner. load_roots L (cli_ca c) = Inr roots \<and> cert_file L (cli_cert c) certs \<and>
          key_file L (cli_key c) k \<and> client_verifier_of L roots = Inr inner \<and>
          server_identity L certs k = Inr ()) \<and> (\<exists>leaf rest. cert_file L (cli_client_cert c) (leaf # rest))"
      unfolding load_eq by blast
    ultimately show ?thesis unfolding topside_files.trusted_law by blast
  qed
  have no_token: "load_certs L p f \<noteq> Inl EmptyToken" "load_key L p \<noteq> Inl EmptyToken" for p f
    by (auto simp: load_certs_def load_key_def pem_reader_def and_then_def map_err_def ok_or_def
        split: sum.splits option.splits)
  have "add_roots L p certs roots \<noteq> Inl EmptyToken" for p certs roots
    by (induction certs arbitrary: roots) auto
  with no_token have "load_roots L p \<noteq> Inl EmptyToken" for p
    by (auto simp: load_roots_def and_then_def split: sum.splits)
  with no_token show "cli_token c = [] \<longleftrightarrow> load L c = Some (Inl EmptyToken)"
    by (auto simp: load_def map_err_def split: sum.splits list.splits)
qed

lemma only_pinned_core:
  assumes "load L c = Some (Inr cfg)"
  shows "\<exists>roots inner leaf rest. cert_file L (cli_ca c) roots \<and> list_all (root_ok L) roots \<and>
    client_verifier_of L roots = Inr inner \<and> cert_file L (cli_client_cert c) (leaf # rest) \<and>
    (\<forall>cert chain now. verify_client_cert (client_verifier (cfg_tls cfg)) cert chain now =
       (case verify_client_cert inner cert chain now of
          Inl e \<Rightarrow> Inl e
        | Inr _ \<Rightarrow> if cert = leaf then Inr () else Inl ApplicationVerificationFailure)) \<and>
    client_auth_mandatory (client_verifier (cfg_tls cfg)) = client_auth_mandatory inner \<and>
    \<not> stores_sessions (cfg_tls cfg) \<and> send_tls13_tickets (cfg_tls cfg) = 0"
proof -
  from assms obtain roots certs k leaf rest inner where
    *: "load_roots L (cli_ca c) = Inr roots" "cert_file L (cli_client_cert c) (leaf # rest)"
      "client_verifier_of L roots = Inr inner"
      "cfg_tls cfg = \<lparr>client_verifier = pinned_client_verifier inner leaf, cert_chain = certs,
         private_key = k, stores_sessions = False, send_tls13_tickets = 0\<rparr>"
    unfolding load_eq by auto
  have "verify_client_cert (client_verifier (cfg_tls cfg)) cert chain now =
       (case verify_client_cert inner cert chain now of
          Inl e \<Rightarrow> Inl e
        | Inr _ \<Rightarrow> if cert = leaf then Inr () else Inl ApplicationVerificationFailure)" for cert chain now
    by (simp add: *(4) pinned_client_verifier_def pinned_verify_def and_then_def split: sum.splits)
  moreover have "client_auth_mandatory (client_verifier (cfg_tls cfg)) = client_auth_mandatory inner"
    "\<not> stores_sessions (cfg_tls cfg)" "send_tls13_tickets (cfg_tls cfg) = 0"
    by (simp_all add: *(4) pinned_client_verifier_def)
  ultimately show ?thesis using *(1-3) topside_files.trusted_law by blast
qed

text \<open>
  C33: Only one client gets in. A configuration that was loaded accepts a client certificate exactly
  when it is, byte for byte, the first certificate of the \<open>--client-cert\<close> file and \<open>rustls\<close> accepts
  it for the roots of the \<open>--ca\<close> file; another certificate of the same authority is refused as an
  application verification failure, an error of \<open>rustls\<close> comes first, and no session can be resumed.
\<close>

theorem only_pinned_client:
  assumes "load L c = Some (Inr cfg)"
  shows "\<exists>roots inner leaf rest. cert_file L (cli_ca c) roots \<and> list_all (root_ok L) roots \<and>
    client_verifier_of L roots = Inr inner \<and> cert_file L (cli_client_cert c) (leaf # rest) \<and>
    (\<forall>cert chain now. verify_client_cert (client_verifier (cfg_tls cfg)) cert chain now =
       (case verify_client_cert inner cert chain now of
          Inl e \<Rightarrow> Inl e
        | Inr _ \<Rightarrow> if cert = leaf then Inr () else Inl ApplicationVerificationFailure)) \<and>
    client_auth_mandatory (client_verifier (cfg_tls cfg)) = client_auth_mandatory inner \<and>
    \<not> stores_sessions (cfg_tls cfg) \<and> send_tls13_tickets (cfg_tls cfg) = 0"
  by (rule only_pinned_core [OF assms])

text \<open>A concrete library: four files, a verifier that accepts what starts with 1.\<close>

definition demo_verifier :: verifier where
  "demo_verifier = \<lparr>root_hint_subjects = [],
     verify_client_cert = (\<lambda>c chain now. if take 1 c = [1] then Inr () else Inl (OtherTlsError ''issuer'')),
     verify_tls12_signature = (\<lambda>m c d. Inr ()), verify_tls13_signature = (\<lambda>m c d. Inr ()),
     supported_verify_schemes = [], offer_client_auth = True, client_auth_mandatory = True,
     requires_raw_public_keys = False\<rparr>"

definition demo_library :: topside_library where
  "demo_library = \<lparr>open_file = (\<lambda>p. if p = ''missing'' then Inl (OtherIo 2) else Inr (as_bytes p)),
     certs_in = (\<lambda>file. [Inr (1 # file), Inr [1, 1]]),
     private_key_in = (\<lambda>file. Inr (Some file)), root_ok = (\<lambda>c. True),
     client_verifier_of = (\<lambda>roots. Inr demo_verifier), server_identity = (\<lambda>certs k. Inr ())\<rparr>"

definition demo_addr :: "u16 \<Rightarrow> socket_addr" where
  "demo_addr p = \<lparr>sa_ip = V4 0 0 0 0, sa_port = p, sa_scope = 0\<rparr>"

definition demo_cli :: "string \<Rightarrow> cli" where
  "demo_cli token = \<lparr>cli_cert = ''cert'', cli_key = ''key'', cli_ca = ''ca'', cli_client_cert = ''pin'',
     cli_token = token, cli_snorkel = demo_addr 1943, cli_phone = demo_addr 7678\<rparr>"

lemma demo_load:
  assumes "token \<noteq> ''''"
  shows "\<exists>cfg. load demo_library (demo_cli token) = Some (Inr cfg) \<and> cfg_token cfg = as_bytes token \<and>
    client_verifier (cfg_tls cfg) = pinned_client_verifier demo_verifier (1 # as_bytes ''pin'')"
  using assms
  by (simp add: load_def load_roots_def load_certs_def load_key_def pem_reader_def ok_or_def
      demo_library_def demo_cli_def)

lemma only_pinned_client_witness:
  "\<exists>cfg (inner :: verifier) leaf. load demo_library (demo_cli ''t'') = Some (Inr cfg) \<and>
    (\<forall>cert chain now. verify_client_cert (client_verifier (cfg_tls cfg)) cert chain now =
       (case verify_client_cert inner cert chain now of
          Inl e \<Rightarrow> Inl e
        | Inr _ \<Rightarrow> if cert = leaf then Inr () else Inl ApplicationVerificationFailure))"
proof -
  obtain cfg where cfg: "load demo_library (demo_cli ''t'') = Some (Inr cfg)"
    using demo_load [of "''t''"] by auto
  from only_pinned_client [OF cfg] obtain inner :: verifier and leaf where
    "\<forall>cert chain now. verify_client_cert (client_verifier (cfg_tls cfg)) cert chain now =
       (case verify_client_cert inner cert chain now of
          Inl e \<Rightarrow> Inl e
        | Inr _ \<Rightarrow> if cert = leaf then Inr () else Inl ApplicationVerificationFailure)"
    by (elim exE conjE) (rule that)
  with cfg show ?thesis by (intro exI conjI)
qed

text \<open>A header value that \<open>to_str\<close> accepts: visible ASCII and tabs.\<close>

definition header_text :: "string \<Rightarrow> bool" where
  "header_text h \<longleftrightarrow> list_all (\<lambda>c. (of_char c :: nat) = 9 \<or> (32 \<le> (of_char c :: nat) \<and> (of_char c :: nat) < 127)) h"

lemma list_all_trim: "list_all P s \<Longrightarrow> list_all P (trim s)"
  by (auto simp: trim_def list_all_iff dest!: set_dropWhileD)

lemma trim_id: "s = [] \<or> (\<not> is_space (hd s) \<and> \<not> is_space (last s)) \<Longrightarrow> trim s = s"
proof -
  assume "s = [] \<or> (\<not> is_space (hd s) \<and> \<not> is_space (last s))"
  then have "dropWhile is_space s = s" "dropWhile is_space (rev s) = rev s"
    by (auto simp: dropWhile_eq_self_iff hd_rev)
  then show "trim s = s" by (simp add: trim_def)
qed

text \<open>
  C34: Which tokens of a loaded configuration a phone can use: exactly those of visible characters
  (and tabs) that have no white space at either end. Every other token, which \<open>load\<close> accepts as
  well, turns every phone away.
\<close>

theorem token_usable_iff:
  assumes "load L c = Some (Inr cfg)"
  shows "(\<exists>h. header_text h \<and> phone_upgrade (cfg_token cfg) (Some h) = Accept) \<longleftrightarrow>
    header_text (cli_token c) \<and> \<not> is_space (hd (cli_token c)) \<and> \<not> is_space (last (cli_token c))"
proof
  have token: "cfg_token cfg = as_bytes (cli_token c)" "cli_token c \<noteq> []"
    using assms unfolding load_eq by auto
  {
    assume "\<exists>h. header_text h \<and> phone_upgrade (cfg_token cfg) (Some h) = Accept"
    then obtain h provided where h: "header_text h" and b: "bearer_bytes h = Some provided"
      and p: "provided = as_bytes (cli_token c)"
      by (auto simp: phone_upgrade_def token_eq_iff token split: option.splits if_splits)
    from b obtain scheme rest where s: "trim h = scheme @ CHR '' '' # rest"
      and r: "provided = as_bytes (trim rest)"
      by (auto simp: bearer_bytes_def dest: split_once_Some split: option.splits if_splits)
    have "list_all (\<lambda>c. (of_char c :: nat) = 9 \<or> (32 \<le> (of_char c :: nat) \<and> (of_char c :: nat) < 127)) (trim h)"
      using h list_all_trim unfolding header_text_def by blast
    then have "header_text (trim rest)" unfolding header_text_def using s by (simp add: list_all_trim)
    moreover have "cli_token c = trim rest" using r p by simp
    ultimately show "header_text (cli_token c) \<and> \<not> is_space (hd (cli_token c)) \<and> \<not> is_space (last (cli_token c))"
      using trim_ends [of rest] token(2) by simp
  }
  assume ok: "header_text (cli_token c) \<and> \<not> is_space (hd (cli_token c)) \<and> \<not> is_space (last (cli_token c))"
  let ?h = "''Bearer '' @ cli_token c"
  have "trim ?h = ''Bearer'' @ CHR '' '' # cli_token c"
    using ok token(2) by (subst trim_id) (simp_all add: is_space_def)
  moreover have "trim (cli_token c) = cli_token c" using ok by (simp add: trim_id)
  moreover have "split_once CHR '' '' (''Bearer'' @ CHR '' '' # cli_token c) = Some (''Bearer'', cli_token c)"
    by (rule split_once_append) simp
  ultimately have "phone_upgrade (cfg_token cfg) (Some ?h) = Accept"
    by (simp add: phone_upgrade_def bearer_bytes_def token token_eq_iff eq_ignore_ascii_case_def)
  moreover have "header_text ?h" using ok by (simp add: header_text_def)
  ultimately show "\<exists>h. header_text h \<and> phone_upgrade (cfg_token cfg) (Some h) = Accept" by blast
qed

lemma token_usable_iff_witness:
  "\<exists>cfg cfg'. load demo_library (demo_cli ''key'') = Some (Inr cfg) \<and>
    (\<exists>h. header_text h \<and> phone_upgrade (cfg_token cfg) (Some h) = Accept) \<and>
    load demo_library (demo_cli ''key '') = Some (Inr cfg') \<and>
    \<not> (\<exists>h. header_text h \<and> phone_upgrade (cfg_token cfg') (Some h) = Accept)"
proof -
  obtain cfg cfg' where l: "load demo_library (demo_cli ''key'') = Some (Inr cfg)"
    "load demo_library (demo_cli ''key '') = Some (Inr cfg')"
    using demo_load [of "''key''"] demo_load [of "''key ''"] by auto
  have "header_text ''key''" "\<not> is_space CHR ''k''" "\<not> is_space CHR ''y''" "is_space CHR '' ''"
    by (simp_all add: header_text_def is_space_def)
  then show ?thesis using l token_usable_iff [OF l(1)] token_usable_iff [OF l(2)] by (auto simp: demo_cli_def)
qed

lemma default_addresses:
  "parse_socket_addr DEFAULT_SNORKEL = Some (demo_addr 1943) \<and> parse_socket_addr DEFAULT_PHONE = Some (demo_addr 7678)"
proof -
  have port: "unat (1943 :: u16) = 1943" "unat (7678 :: u16) = 7678" by simp_all
  have "show_nat 1943 = ''1943''" "show_nat 7678 = ''7678''" "show_nat 0 = ''0''"
    by (simp_all add: show_nat.simps digit_def char_of_def bit_0)
  then show ?thesis
    using parse_show_socket_v4 [of 0 0 0 0 1943] parse_show_socket_v4 [of 0 0 0 0 7678]
    by (simp add: DEFAULT_SNORKEL_def DEFAULT_PHONE_def demo_addr_def show_ipv4_def)
qed

end
