(* ===== verification/Shutdown_Flag.thy ===== *)
theory Shutdown_Flag
  imports Wire
begin

text \<open>
  \<open>shutdown.rs\<close>, the same file in both programs: a \<open>watch\<close> channel of a flag. Every store gives the
  channel a new version; a receiver remembers the version it has seen. \<open>changed()\<close> is ready when
  there is a newer one, fails when there is none and no sender is left, and waits otherwise.
\<close>

record watch_rx =
  flag :: bool
  version :: nat
  seen :: nat
  senders :: bool

definition manual :: watch_rx where
  "manual = \<lparr>flag = False, version = 0, seen = 0, senders = True\<rparr>"

text \<open>\<open>send_replace(true)\<close>, by the closure \<open>stop\<close> or by the task that waits for a signal.\<close>

definition stop :: "watch_rx \<Rightarrow> watch_rx" where
  "stop s = s\<lparr>flag := True, version := version s + 1\<rparr>"

definition drop_senders :: "watch_rx \<Rightarrow> watch_rx" where
  "drop_senders s = s\<lparr>senders := False\<rparr>"

text \<open>\<open>on_signals\<close>: what installing the two handlers gave.\<close>

definition on_signals :: "io_error + unit \<Rightarrow> io_error + unit \<Rightarrow> io_error + watch_rx" where
  "on_signals interrupt terminate =
     (case interrupt of Inl e \<Rightarrow> Inl e | Inr _ \<Rightarrow>
     (case terminate of Inl e \<Rightarrow> Inl e | Inr _ \<Rightarrow> Inr manual))"

definition is_set :: "watch_rx \<Rightarrow> bool" where
  "is_set s = flag s"

definition changed :: "watch_rx \<Rightarrow> bool option \<times> watch_rx" where
  "changed s =
     (if version s \<noteq> seen s then (Some True, s\<lparr>seen := version s\<rparr>)
      else if senders s then (None, s) else (Some False, s))"

text \<open>
  \<open>wait\<close>, here \<open>wait_flag\<close>: a poll that starts the loop, and one that goes on with \<open>changed()\<close>. The first result says
  whether the loop has returned.
\<close>

function wait_changed :: "watch_rx \<Rightarrow> bool \<times> watch_rx" where
  "wait_changed s =
     (case changed s of
        (None, s') \<Rightarrow> (False, s')
      | (Some False, s') \<Rightarrow> (True, s')
      | (Some True, s') \<Rightarrow> if is_set s' then (True, s') else wait_changed s')"
  by pat_completeness auto
termination
  by (relation "measure (\<lambda>s. if version s = seen s then 0 else 1)") (auto simp: changed_def split: if_splits)

declare wait_changed.simps [simp del]

definition wait_flag :: "watch_rx \<Rightarrow> bool \<times> watch_rx" where
  "wait_flag s = (if is_set s then (True, s) else wait_changed s)"

text \<open>A task that waits: stores, the end of the senders, and polls, in any order.\<close>

datatype flag_event = Stored | SendersGone | Polled

datatype waiter = NotYet | Waiting | Returned

fun flag_next :: "flag_event \<Rightarrow> waiter \<times> watch_rx \<Rightarrow> waiter \<times> watch_rx" where
  "flag_next Stored (w, s) = (w, if senders s then stop s else s)"
| "flag_next SendersGone (w, s) = (w, drop_senders s)"
| "flag_next Polled (Returned, s) = (Returned, s)"
| "flag_next Polled (NotYet, s) = (case wait_flag s of (r, s') \<Rightarrow> (if r then Returned else Waiting, s'))"
| "flag_next Polled (Waiting, s) = (case wait_changed s of (r, s') \<Rightarrow> (if r then Returned else Waiting, s'))"

section \<open>Facts\<close>

text \<open>A newer version means that the flag was stored, which is never taken back.\<close>

definition flag_ok :: "waiter \<times> watch_rx \<Rightarrow> bool" where
  "flag_ok x \<longleftrightarrow> (case x of (w, s) \<Rightarrow>
     (version s \<noteq> seen s \<longrightarrow> flag s) \<and> (w = Waiting \<longrightarrow> flag s \<longrightarrow> version s \<noteq> seen s) \<and> seen s \<le> version s)"

lemma wait_changed_eq:
  "(version s \<noteq> seen s \<longrightarrow> flag s) \<Longrightarrow> wait_changed s =
     (if version s \<noteq> seen s then (True, s\<lparr>seen := version s\<rparr>) else (\<not> senders s, s))"
  by (simp add: wait_changed.simps [of s] changed_def is_set_def)

lemma wait_flag_eq:
  "(version s \<noteq> seen s \<longrightarrow> flag s) \<Longrightarrow> wait_flag s = (if flag s then (True, s) else (\<not> senders s, s))"
  by (auto simp: wait_flag_def is_set_def wait_changed_eq)

lemmas flag_steps = flag_ok_def wait_flag_eq wait_changed_eq stop_def drop_senders_def

lemma flag_next_ok: "flag_ok x \<Longrightarrow> flag_ok (flag_next e x)"
  by (cases "(e, x)" rule: flag_next.cases) (auto simp: flag_steps split: if_splits)

lemma flag_next_keeps:
  "flag_ok x \<Longrightarrow> flag (snd (flag_next e x)) = (flag (snd x) \<or> (e = Stored \<and> senders (snd x)))"
  "flag_ok x \<Longrightarrow> senders (snd (flag_next e x)) = (senders (snd x) \<and> e \<noteq> SendersGone)"
  by (cases "(e, x)" rule: flag_next.cases; simp add: flag_steps)+

lemma flag_run_ok: "flag_ok x \<Longrightarrow> flag_ok (fold flag_next es x)"
  by (rule fold_invariant) (auto intro: flag_next_ok)

text \<open>What a history of the channel did to it: stored while there was a sender, and whether senders are left.\<close>

fun was_stored :: "flag_event list \<Rightarrow> bool" where
  "was_stored [] \<longleftrightarrow> False"
| "was_stored (Stored # es) \<longleftrightarrow> True"
| "was_stored (SendersGone # es) \<longleftrightarrow> False"
| "was_stored (Polled # es) \<longleftrightarrow> was_stored es"

lemma flag_run_state:
  assumes "flag_ok x"
  shows "flag (snd (fold flag_next es x)) \<longleftrightarrow> flag (snd x) \<or> (senders (snd x) \<and> was_stored es)"
    and "senders (snd (fold flag_next es x)) \<longleftrightarrow> senders (snd x) \<and> SendersGone \<notin> set es"
proof -
  have "(flag (snd (fold flag_next es x)) \<longleftrightarrow> flag (snd x) \<or> (senders (snd x) \<and> was_stored es)) \<and>
    (senders (snd (fold flag_next es x)) \<longleftrightarrow> senders (snd x) \<and> SendersGone \<notin> set es)"
    using assms
  proof (induction es arbitrary: x)
    case (Cons e es)
    from Cons.IH [OF flag_next_ok [OF Cons.prems, of e]] flag_next_keeps [OF Cons.prems, of e]
    show ?case by (cases e) auto
  qed simp
  then show "flag (snd (fold flag_next es x)) \<longleftrightarrow> flag (snd x) \<or> (senders (snd x) \<and> was_stored es)"
    and "senders (snd (fold flag_next es x)) \<longleftrightarrow> senders (snd x) \<and> SendersGone \<notin> set es" by simp_all
qed

lemma returned_stays: "fst x = Returned \<Longrightarrow> fst (flag_next e x) = Returned"
  by (cases "(e, x)" rule: flag_next.cases) auto

lemma flag_run_returned:
  assumes "flag_ok x" and "fst (fold flag_next es x) = Returned" and "fst x \<noteq> Returned"
  shows "flag (snd (fold flag_next es x)) \<or> \<not> senders (snd (fold flag_next es x))"
  using assms
proof (induction es rule: rev_induct)
  case (snoc e es)
  let ?y = "fold flag_next es x"
  have ok: "flag_ok ?y" by (rule flag_run_ok [OF snoc.prems(1)])
  show ?case
  proof (cases "fst ?y = Returned")
    case True
    then show ?thesis using snoc flag_next_keeps [OF ok, of e] by auto
  next
    case False
    obtain w s where y: "?y = (w, s)" by fastforce
    have "fst (flag_next e (w, s)) = Returned" using snoc.prems(2) y by simp
    then have "flag (snd (flag_next e (w, s))) \<or> \<not> senders (snd (flag_next e (w, s)))"
      using ok False unfolding y
      by (cases "(e, w, s)" rule: flag_next.cases) (simp_all add: flag_steps split: if_splits)
    then show ?thesis using y by simp
  qed
qed simp

text \<open>
  A task that waits for the shutdown flag, whenever it started and however stores and polls
  fall together, has returned after a poll exactly when the flag was stored or the last sender is
  gone by then; no store between two polls is missed, and a set flag is never cleared.
\<close>

theorem wait_returns_iff:
  "(fst (fold flag_next (es @ [Polled]) (NotYet, manual)) = Returned \<longleftrightarrow>
      was_stored es \<or> SendersGone \<in> set es) \<and>
   (is_set (snd (fold flag_next es (NotYet, manual))) \<longleftrightarrow> was_stored es)"
proof -
  let ?x = "(NotYet, manual)"
  let ?y = "fold flag_next es ?x"
  have start: "flag_ok ?x" by (simp add: flag_ok_def manual_def)
  then have ok: "flag_ok ?y" by (rule flag_run_ok)
  note S = flag_run_state [OF start, of es]
  have s: "flag (snd ?y) \<longleftrightarrow> was_stored es" "senders (snd ?y) \<longleftrightarrow> SendersGone \<notin> set es"
    using S by (simp_all add: manual_def)
  have "fst (flag_next Polled ?y) = Returned \<longleftrightarrow> flag (snd ?y) \<or> \<not> senders (snd ?y)"
  proof (cases "fst ?y = Returned")
    case True
    then show ?thesis using flag_run_returned [OF start True] returned_stays [of ?y Polled] by simp
  next
    case False
    obtain w s where y: "?y = (w, s)" by fastforce
    show ?thesis using ok False unfolding y by (cases w) (auto simp: flag_steps)
  qed
  then show ?thesis using s by (simp add: is_set_def)
qed

end
