(* ===== verification/Snorkel_Config.thy ===== *)
theory Snorkel_Config
  imports Tls_Files Std_Net_Facts
begin

text \<open>
  \<open>crates/snorkel/src/config.rs\<close>: \<open>Endpoint::parse\<close>, \<open>parse_port\<close>, \<open>Config::load\<close> with its loaders
  and errors. \<open>ServerName::try_from\<close> and the client identity of \<open>rustls\<close> are parameters.
\<close>

section \<open>Configuration\<close>

definition DEFAULT_PORT :: u16 where
  "DEFAULT_PORT = 1943"

record 'n endpoint =
  host :: string
  port :: u16
  server_name :: 'n

record 'n snorkel_config =
  sc_socket :: path
  sc_endpoint :: "'n endpoint"
  sc_roots :: "cert list"
  sc_certs :: "cert list"
  sc_key :: key
  sc_once :: bool

datatype snorkel_error =
    EmptySocket
  | BadServer string
  | BadPort string
  | ReadPem string path io_error
  | NoCertificates string path
  | NoPrivateKey path
  | ClientIdentity string
  | InvalidCa path

record 'n snorkel_library = tls_library +
  server_name_of :: "string \<Rightarrow> 'n option"
  client_identity :: "cert list \<Rightarrow> key \<Rightarrow> string + unit"

section \<open>The server's address\<close>

definition parse_port :: "string \<Rightarrow> string \<Rightarrow> snorkel_error + u16" where
  "parse_port p original =
     ok_or (BadPort original)
       (Option.bind (parse_u16 p) (\<lambda>n. if n \<noteq> 0 then Some n else None))"

fun find_char :: "char \<Rightarrow> string \<Rightarrow> nat option" where
  "find_char c [] = None"
| "find_char c (x # xs) = (if x = c then Some 0 else map_option Suc (find_char c xs))"

text \<open>
  \<open>&value[a..b]\<close>, which panics when the range is not one of the text, and \<open>value.get(a..)\<close>.
\<close>

definition slice :: "nat \<Rightarrow> nat \<Rightarrow> string \<Rightarrow> string option" where
  "slice a b s = (if a \<le> b \<and> b \<le> length s then Some (take (b - a) (drop a s)) else None)"

definition get_from :: "nat \<Rightarrow> string \<Rightarrow> string option" where
  "get_from a s = (if a \<le> length s then Some (drop a s) else None)"

text \<open>
  The branches of \<open>parse\<close> up to the server name: host and port, an error, or, as \<open>None\<close>, a panic.
\<close>

definition split_host_port :: "string \<Rightarrow> (snorkel_error + string \<times> u16) option" where
  "split_host_port value =
     (case parse_socket_addr value of
        Some addr \<Rightarrow> Some (Inr (show_ip (sa_ip addr), sa_port addr))
      | None \<Rightarrow>
     (case parse_ip_addr value of
        Some ip \<Rightarrow> Some (Inr (show_ip ip, DEFAULT_PORT))
      | None \<Rightarrow>
     if take 1 value = ''['' then
       (case find_char CHR '']'' value of
          None \<Rightarrow> Some (Inl (BadServer value))
        | Some last' \<Rightarrow>
            (case slice 1 last' value of
               None \<Rightarrow> None
             | Some h \<Rightarrow>
                 (case get_from (last' + 1) value of
                    None \<Rightarrow> Some (Inl (BadServer value))
                  | Some rest \<Rightarrow>
                      if rest = '''' then Some (Inr (h, DEFAULT_PORT))
                      else if take 1 rest = '':''
                      then map_option (\<lambda>p. and_then (parse_port p value) (\<lambda>n. Inr (h, n)))
                             (slice 1 (length rest) rest)
                      else Some (Inl (BadServer value)))))
     else
       (case rsplit_once CHR '':'' value of
          Some (h, p) \<Rightarrow>
            if h = '''' then Some (Inl (BadServer value))
            else Some (and_then (parse_port p value) (\<lambda>n. Inr (h, n)))
        | None \<Rightarrow> Some (Inr (value, DEFAULT_PORT)))))"

definition parse_endpoint :: "(string \<Rightarrow> 'n option) \<Rightarrow> string \<Rightarrow> (snorkel_error + 'n endpoint) option" where
  "parse_endpoint name_of text' =
     (let value = trim_text text' in
      if value = '''' then Some (Inl (BadServer ''server is empty''))
      else map_option (\<lambda>r. and_then r (\<lambda>(h, p).
             and_then (ok_or (BadServer value) (name_of h)) (\<lambda>n.
               Inr \<lparr>host = h, port = p, server_name = n\<rparr>))) (split_host_port value))"

section \<open>Loading\<close>

definition snorkel_reader :: "'m tls_library_scheme \<Rightarrow> path \<Rightarrow> string \<Rightarrow> snorkel_error + bytes" where
  "snorkel_reader L p flag = map_err (ReadPem flag p) (open_file L p)"

definition snorkel_load_certs :: "'m tls_library_scheme \<Rightarrow> path \<Rightarrow> string \<Rightarrow> snorkel_error + cert list" where
  "snorkel_load_certs L p flag =
     and_then (snorkel_reader L p flag) (\<lambda>file.
     and_then (map_err (ReadPem flag p) (collect (certs_in L file))) (\<lambda>certs.
       if certs = [] then Inl (NoCertificates flag p) else Inr certs))"

definition snorkel_load_key :: "'m tls_library_scheme \<Rightarrow> path \<Rightarrow> snorkel_error + key" where
  "snorkel_load_key L p =
     and_then (snorkel_reader L p ''--key'') (\<lambda>file.
     and_then (map_err (ReadPem ''--key'' p) (private_key_in L file)) (\<lambda>k.
       ok_or (NoPrivateKey p) k))"

fun snorkel_add_roots :: "'m tls_library_scheme \<Rightarrow> path \<Rightarrow> cert list \<Rightarrow> cert list \<Rightarrow> snorkel_error + cert list" where
  "snorkel_add_roots L p [] roots = Inr roots"
| "snorkel_add_roots L p (c # cs) roots =
     (if root_ok L c then snorkel_add_roots L p cs (roots @ [c]) else Inl (InvalidCa p))"

definition snorkel_load_roots :: "'m tls_library_scheme \<Rightarrow> path \<Rightarrow> snorkel_error + cert list" where
  "snorkel_load_roots L p =
     and_then (snorkel_load_certs L p ''--ca'') (\<lambda>certs. snorkel_add_roots L p certs [])"

definition snorkel_load ::
  "'n snorkel_library \<Rightarrow> path \<Rightarrow> string \<Rightarrow> path \<Rightarrow> path \<Rightarrow> path \<Rightarrow> bool \<Rightarrow> (snorkel_error + 'n snorkel_config) option" where
  "snorkel_load L socket server cert key ca once =
     (if socket = '''' then Some (Inl EmptySocket)
      else map_option (\<lambda>r.
        and_then r (\<lambda>e.
        and_then (snorkel_load_roots L ca) (\<lambda>roots.
        and_then (snorkel_load_certs L cert ''--cert'') (\<lambda>certs.
        and_then (snorkel_load_key L key) (\<lambda>k.
        and_then (map_err ClientIdentity (client_identity L certs k)) (\<lambda>_.
          Inr \<lparr>sc_socket = socket, sc_endpoint = e, sc_roots = roots, sc_certs = certs,
               sc_key = k, sc_once = once\<rparr>))))))
        (parse_endpoint (server_name_of L) server))"

section \<open>The loaders keep their contract\<close>

lemma snorkel_load_certs_Inr: "snorkel_load_certs L p flag = Inr certs \<longleftrightarrow> cert_file L p certs"
  by (auto simp: snorkel_load_certs_def snorkel_reader_def cert_file_def ok_simps split: if_splits)

lemma snorkel_load_key_Inr: "snorkel_load_key L p = Inr k \<longleftrightarrow> key_file L p k"
  by (auto simp: snorkel_load_key_def snorkel_reader_def key_file_def ok_simps)

lemma snorkel_add_roots_Inr:
  "snorkel_add_roots L p certs roots = Inr all' \<longleftrightarrow> list_all (root_ok L) certs \<and> all' = roots @ certs"
  by (induction certs arbitrary: roots) auto

interpretation snorkel_files: cert_files "cert_file L" "root_ok L" "snorkel_load_certs L" "snorkel_load_roots L"
  by unfold_locales
    (auto simp: snorkel_load_certs_Inr snorkel_load_roots_def snorkel_add_roots_Inr ok_simps cert_file_def)

section \<open>The text of an endpoint\<close>

lemma find_char_Some: "find_char c s = Some i \<Longrightarrow> i < length s \<and> s ! i = c"
  by (induction s arbitrary: i) (auto split: if_splits)

text \<open>No slice is out of range.\<close>

lemma split_host_port_total: "split_host_port v \<noteq> None"
proof -
  have "slice 1 i v \<noteq> None" if "take 1 v = ''[''" "find_char CHR '']'' v = Some i" for i
    using that find_char_Some [of "CHR '']''" v i] by (cases v; cases i) (auto simp: slice_def)
  moreover have "slice 1 (length rest) rest \<noteq> None" if "rest \<noteq> ''''" for rest
    using that by (cases rest) (auto simp: slice_def)
  ultimately show ?thesis
    by (auto simp: split_host_port_def split: option.splits)
qed

lemma parse_endpoint_total: "parse_endpoint name_of s \<noteq> None"
  using split_host_port_total by (simp add: parse_endpoint_def Let_def)

text \<open>Visible ASCII at the ends is nothing to trim.\<close>

definition visible :: "char \<Rightarrow> bool" where
  "visible c \<longleftrightarrow> 33 \<le> (of_char c :: nat) \<and> (of_char c :: nat) \<le> 126"

lemma trim_with_visible:
  assumes "list_all (\<lambda>w. w \<noteq> [] \<and> \<not> visible (hd w)) pats" and "s = [] \<or> visible (hd s)"
  shows "trim_with pats s = s"
proof -
  have "\<not> (w \<noteq> [] \<and> take (length w) s = w)" if w: "w \<in> set pats" for w
  proof
    assume m: "w \<noteq> [] \<and> take (length w) s = w"
    then have "s \<noteq> []" and "hd w = hd s" by (auto simp: hd_take dest: arg_cong [where f = hd])
    with assms w m show False by (auto simp: list_all_iff)
  qed
  then have "filter (\<lambda>w. w \<noteq> [] \<and> take (length w) s = w) pats = []" by (auto simp: filter_empty_conv)
  then show ?thesis by (simp add: trim_with.simps [of pats s])
qed

lemma trim_text_visible:
  assumes "s = [] \<or> visible (hd s) \<and> visible (last s)"
  shows "trim_text s = s"
proof -
  have W: "list_all (\<lambda>w. w \<noteq> [] \<and> \<not> visible (hd w)) white_spaces"
    "list_all (\<lambda>w. w \<noteq> [] \<and> \<not> visible (hd w)) (map rev white_spaces)"
    by (simp_all add: white_spaces_def visible_def list_all_iff)
  have "trim_with white_spaces s = s" "trim_with (map rev white_spaces) (rev s) = rev s"
    using assms by (auto intro!: trim_with_visible [OF W(1)] trim_with_visible [OF W(2)] simp: hd_rev)
  then show ?thesis by (simp add: trim_text_def)
qed

lemma digit_visible: "is_digit r c \<Longrightarrow> visible c"
  by (auto simp: is_digit_def to_digit_def visible_def Let_def split: option.splits if_splits)

lemma show_nat_visible: "show_nat n \<noteq> [] \<and> list_all visible (show_nat n)"
  using show_nat_facts [of n 1] digit_visible by (auto simp: list_all_iff)

lemma show_hex_visible: "show_hex n \<noteq> [] \<and> list_all visible (show_hex n)"
  using show_hex_facts [of n 1] digit_visible by (auto simp: list_all_iff)

lemma visible_signs [simp]: "visible CHR ''.''" "visible CHR '':''" "visible CHR ''[''" "visible CHR ''f''"
  by (simp_all add: visible_def)

lemma fmt_subslice_visible: "list_all visible (fmt_subslice gs) \<and> (gs \<noteq> [] \<longrightarrow> fmt_subslice gs \<noteq> [])"
  by (induction gs rule: fmt_subslice.induct) (use show_hex_visible in auto)

lemma show_ip_visible: "ip_ok a \<Longrightarrow> show_ip a \<noteq> [] \<and> list_all visible (show_ip a)"
proof (cases a)
  case (V6 gs)
  assume "ip_ok a"
  then have "gs \<noteq> []" using V6 by auto
  then show ?thesis using V6 fmt_subslice_visible show_nat_visible
    by (auto simp: show_ipv6_def show_ipv4_def split: option.splits prod.splits)
qed (use show_nat_visible in \<open>auto simp: show_ipv4_def\<close>)

lemma visible_ends: "list_all visible s \<Longrightarrow> s = [] \<or> visible (hd s) \<and> visible (last s)"
  by (cases s) (auto simp: list_all_iff)

section \<open>Addresses\<close>

text \<open>The \<open>Display\<close> of a socket address.\<close>

fun show_socket :: "ip_addr \<Rightarrow> u16 \<Rightarrow> string" where
  "show_socket (V4 a b c d) p = show_ipv4 a b c d @ CHR '':'' # show_nat (unat p)"
| "show_socket (V6 gs) p = CHR ''['' # show_ipv6 gs @ '']:'' @ show_nat (unat p)"

lemma parse_show_socket:
  "ip_ok a \<Longrightarrow> parse_socket_addr (show_socket a p) = Some \<lparr>sa_ip = a, sa_port = p, sa_scope = 0\<rparr>"
  using parse_show_socket_v6(1) by (cases a) (auto simp: parse_show_socket_v4)

lemma show_socket_ends: "ip_ok a \<Longrightarrow> show_socket a p \<noteq> [] \<and> trim_text (show_socket a p) = show_socket a p"
proof -
  assume ok: "ip_ok a"
  have "list_all visible (CHR ''['' # s)" if "list_all visible s" for s using that by simp
  have "hd (show_socket a p) = (case a of V4 _ _ _ _ \<Rightarrow> hd (show_ip a) | V6 _ \<Rightarrow> CHR ''['')"
    using show_ip_visible [OF ok] by (cases a) simp_all
  moreover have "last (show_socket a p) = last (show_nat (unat p))"
    using show_nat_visible [of "unat p"] by (cases a) (auto simp: last_append)
  moreover have "visible (hd (show_ip a))" "visible (last (show_nat (unat p)))"
    using show_ip_visible [OF ok] show_nat_visible [of "unat p"] visible_ends by blast+
  moreover have "show_socket a p \<noteq> []" by (cases a) simp_all
  ultimately show ?thesis by (intro conjI trim_text_visible) (auto split: ip_addr.splits)
qed

lemma endpoint_socket_core:
  "ip_ok a \<Longrightarrow> parse_endpoint name_of (show_socket a p) =
     Some (and_then (ok_or (BadServer (show_socket a p)) (name_of (show_ip a)))
       (\<lambda>n. Inr \<lparr>host = show_ip a, port = p, server_name = n\<rparr>))"
  using show_socket_ends [of a p]
  by (simp add: parse_endpoint_def split_host_port_def parse_show_socket Let_def)

lemma endpoint_ip_core:
  assumes "ip_ok a"
  shows "parse_endpoint name_of (show_ip a) =
     Some (and_then (ok_or (BadServer (show_ip a)) (name_of (show_ip a)))
       (\<lambda>n. Inr \<lparr>host = show_ip a, port = DEFAULT_PORT, server_name = n\<rparr>))"
proof -
  have "trim_text (show_ip a) = show_ip a"
    using show_ip_visible [OF assms] visible_ends by (intro trim_text_visible) blast
  then show ?thesis using show_ip_visible [OF assms] assms
    by (simp add: parse_endpoint_def split_host_port_def parse_socket_ip parse_show_ip Let_def)
qed

text \<open>
  C35: An IP address given as the server, alone or with a port, in the text the library
  itself prints: the host of the endpoint is the canonical text of the very same address, which
  reads back as that address when it is dialled; the port is the one given, or 1943.
\<close>

theorem endpoint_ip_round_trip:
  assumes "ip_ok a" and "name_of (show_ip a) = Some n"
  shows "parse_endpoint name_of (show_socket a p) =
      Some (Inr \<lparr>host = show_ip a, port = p, server_name = n\<rparr>) \<and>
    parse_endpoint name_of (show_ip a) =
      Some (Inr \<lparr>host = show_ip a, port = 1943, server_name = n\<rparr>) \<and>
    parse_ip_addr (show_ip a) = Some a"
  using assms
  by (simp add: endpoint_socket_core endpoint_ip_core parse_show_ip ok_or_def DEFAULT_PORT_def)

lemma endpoint_ip_round_trip_witness:
  "parse_endpoint Some ''192.168.0.1:443'' =
    Some (Inr \<lparr>host = ''192.168.0.1'', port = 443, server_name = ''192.168.0.1''\<rparr>)"
proof -
  have "show_nat 192 = ''192''" "show_nat 168 = ''168''" "show_nat 0 = ''0''" "show_nat 1 = ''1''" "show_nat 443 = ''443''"
    by (simp_all add: show_nat.simps digit_def char_of_def bit_0)
  moreover have "unat (192 :: u8) = 192" "unat (168 :: u8) = 168" "unat (443 :: u16) = 443" by simp_all
  ultimately show ?thesis
    using endpoint_ip_round_trip [of "V4 192 168 0 1" Some "''192.168.0.1''" 443]
    by (simp add: show_ipv4_def)
qed

section \<open>Names\<close>

text \<open>What a parser of an IPv4 address has read.\<close>

lemma read_octet_reads:
  "read_octet s = Some (a, r) \<Longrightarrow> \<exists>u. s = u @ r \<and> list_all (is_digit 10) u"
  by (auto simp: read_octet_def read_number_def Let_def list_all_iff dest: set_takeWhileD split: if_splits
      intro!: exI [of _ "takeWhile (is_digit 10) s"])

lemma read_dot_octet_reads:
  "i > 0 \<Longrightarrow> read_separator CHR ''.'' i read_octet s = Some (a, r) \<Longrightarrow>
   \<exists>u. s = u @ r \<and> list_all (\<lambda>c. is_digit 10 c \<or> c = CHR ''.'') u"
  by (auto simp: read_separator_def read_given_char_def bind_eq_Some_conv list_all_iff
      dest!: read_octet_reads split: list.splits if_splits)

lemma read_ipv4_reads:
  assumes "read_ipv4_addr s = Some (v, r)"
  shows "\<exists>u. s = u @ r \<and> list_all (\<lambda>c. is_digit 10 c \<or> c = CHR ''.'') u"
proof -
  let ?P = "list_all (\<lambda>c. is_digit 10 c \<or> c = CHR ''.'')"
  from assms obtain a b c d s1 s2 s3 where "read_octet s = Some (a, s1)"
    "read_separator CHR ''.'' 1 read_octet s1 = Some (b, s2)" "read_separator CHR ''.'' 2 read_octet s2 = Some (c, s3)"
    "read_separator CHR ''.'' 3 read_octet s3 = Some (d, r)"
    by (auto simp: read_ipv4_addr_def read_separator_def bind_eq_Some_conv)
  then have "\<exists>u. s = u @ s1 \<and> list_all (is_digit 10) u" "\<exists>u. s1 = u @ s2 \<and> ?P u"
    "\<exists>u. s2 = u @ s3 \<and> ?P u" "\<exists>u. s3 = u @ r \<and> ?P u"
    using read_octet_reads [of s] read_dot_octet_reads [of 1 s1] read_dot_octet_reads [of 2 s2]
      read_dot_octet_reads [of 3 s3] by simp_all
  then obtain u1 u2 u3 u4 where "s = u1 @ s1" "list_all (is_digit 10) u1" "s1 = u2 @ s2" "?P u2"
    "s2 = u3 @ s3" "?P u3" "s3 = u4 @ r" "?P u4" by blast
  then have "s = (u1 @ u2 @ u3 @ u4) @ r \<and> ?P (u1 @ u2 @ u3 @ u4)" by (auto simp: list_all_iff)
  then show ?thesis by blast
qed

lemma dropWhile_colons: "count_list (dropWhile P s) c \<le> count_list s c"
  by (induction s) auto

lemma read_group_colons:
  "read_group s = Some (g, r) \<Longrightarrow> count_list r CHR '':'' \<le> count_list s CHR '':''"
  by (auto simp: read_group_def read_number_def Let_def dropWhile_colons split: if_splits)

lemma read_ipv4_colons:
  "read_ipv4_addr s = Some (v, r) \<Longrightarrow> count_list r CHR '':'' \<le> count_list s CHR '':''"
  by (auto dest!: read_ipv4_reads)

lemma read_groups_colons:
  "read_groups limit i s = (gs, v4, r) \<Longrightarrow>
   count_list r CHR '':'' + length gs \<le> count_list s CHR '':'' + 1 + (if i = 0 then 1 else 0) \<and>
   count_list r CHR '':'' \<le> count_list s CHR '':''"
proof (induction limit i s arbitrary: gs v4 r rule: read_groups.induct)
  case (1 limit i s)
  show ?case
  proof (cases "limit \<le> i")
    case True
    then show ?thesis using 1(2) by (simp add: read_groups.simps [of limit i s])
  next
    case False
    let ?v = "if i < limit - 1 then read_separator CHR '':'' i read_ipv4_addr s else None"
    show ?thesis
    proof (cases ?v)
      case (Some x)
      obtain a b c d s' where x: "x = ((a, b, c, d), s')" by (cases x) auto
      have "gs = [pair_u16 a b, pair_u16 c d]" "r = s'"
        using 1(2) False Some x by (simp_all add: read_groups.simps [of limit i s])
      moreover have "count_list s' CHR '':'' + (if i = 0 then 0 else 1) \<le> count_list s CHR '':''"
        using Some x read_ipv4_colons
        by (fastforce simp: read_separator_def read_given_char_def bind_eq_Some_conv split: if_splits list.splits)
      ultimately show ?thesis by auto
    next
      case None
      show ?thesis
      proof (cases "read_separator CHR '':'' i read_group s")
        case None': None
        then show ?thesis using 1(2) False None by (simp add: read_groups.simps [of limit i s])
      next
        case (Some y)
        then obtain g s' where y: "read_separator CHR '':'' i read_group s = Some (g, s')" by (cases y) auto
        obtain gs' w r' where rec: "read_groups limit (Suc i) s' = (gs', w, r')" by (metis prod_cases3)
        have "gs = g # gs'" "r = r'"
          using 1(2) False None y rec by (simp_all add: read_groups.simps [of limit i s])
        moreover have "count_list r' CHR '':'' + length gs' \<le> count_list s' CHR '':'' + 1 \<and>
            count_list r' CHR '':'' \<le> count_list s' CHR '':''"
          using 1(1) [OF False None y _ rec] by simp
        moreover have "count_list s' CHR '':'' + (if i = 0 then 0 else 1) \<le> count_list s CHR '':''"
          using y read_group_colons
          by (fastforce simp: read_separator_def read_given_char_def bind_eq_Some_conv split: if_splits list.splits)
        ultimately show ?thesis by auto
      qed
    qed
  qed
qed

lemma read_ipv6_colons: "read_ipv6_addr s \<noteq> None \<Longrightarrow> 2 \<le> count_list s CHR '':''"
proof -
  assume a: "read_ipv6_addr s \<noteq> None"
  obtain gs v4 r where g: "read_groups 8 0 s = (gs, v4, r)" by (metis prod_cases3)
  note C = read_groups_colons [OF g]
  show ?thesis
  proof (cases "length gs = 8")
    case True
    then show ?thesis using C by simp
  next
    case False
    then obtain r' where "r = CHR '':'' # CHR '':'' # r'"
      using a g by (auto simp: read_ipv6_addr_def read_given_char_def bind_eq_Some_conv split: if_splits list.splits)
    then have "2 \<le> count_list r CHR '':''" by simp
    moreover have "count_list r CHR '':'' \<le> count_list s CHR '':''"
      using C by simp
    ultimately show ?thesis by simp
  qed
qed

text \<open>
  A host name: visible characters, no colon, no opening bracket in front, and something besides
  digits and dots in it.
\<close>

definition host_name :: "string \<Rightarrow> bool" where
  "host_name h \<longleftrightarrow> h \<noteq> '''' \<and> list_all visible h \<and> CHR '':'' \<notin> set h \<and> hd h \<noteq> CHR ''['' \<and>
     (\<exists>c \<in> set h. \<not> is_digit 10 c \<and> c \<noteq> CHR ''.'')"

lemma whole_SomeD: "whole r = Some x \<Longrightarrow> r = Some (x, [])"
  by (auto simp: whole_def split: option.splits list.splits)

lemma name_not_ipv4:
  assumes "host_name h" and "read_ipv4_addr (h @ t) = Some (v, r)"
  shows "\<exists>u1 u2. h = u1 @ u2 \<and> u2 \<noteq> [] \<and> r = u2 @ t \<and> list_all (\<lambda>c. is_digit 10 c \<or> c = CHR ''.'') u1"
proof -
  obtain u where u: "h @ t = u @ r" "list_all (\<lambda>c. is_digit 10 c \<or> c = CHR ''.'') u"
    using read_ipv4_reads [OF assms(2)] by blast
  have "\<not> list_all (\<lambda>c. is_digit 10 c \<or> c = CHR ''.'') h"
    using assms(1) by (auto simp: host_name_def list_all_iff)
  then have "\<not> (\<exists>us. u = h @ us)" using u(2) by auto
  then obtain us where "h = u @ us" "r = us @ t" using u(1) by (auto simp: append_eq_append_conv2)
  moreover have "us \<noteq> []" using calculation u(2) \<open>\<not> (\<exists>us. u = h @ us)\<close> by auto
  ultimately show ?thesis using u(2) by blast
qed

lemma name_not_socket:
  assumes h: "host_name h" and t: "t = [] \<or> (\<exists>p. t = CHR '':'' # p)"
  shows "parse_socket_addr (h @ t) = None"
proof -
  have "read_socket_addr_v4 (h @ t) = None"
  proof (rule ccontr)
    assume "read_socket_addr_v4 (h @ t) \<noteq> None"
    then obtain v r where v: "read_ipv4_addr (h @ t) = Some (v, r)" and r: "read_port r \<noteq> None"
      by (auto simp: read_socket_addr_v4_def bind_eq_Some_conv split: prod.splits)
    obtain u1 u2 where u: "h = u1 @ u2" "u2 \<noteq> []" "r = u2 @ t" using name_not_ipv4 [OF h v] by blast
    from r u(2,3) have "hd u2 = CHR '':''"
      by (cases u2) (auto simp: read_port_def read_given_char_def split: if_splits)
    then have "CHR '':'' \<in> set h" using u by (cases u2) auto
    with h show False by (simp add: host_name_def)
  qed
  moreover have "read_socket_addr_v6 (h @ t) = None"
    using h by (cases h) (auto simp: host_name_def read_socket_addr_v6_def read_given_char_def)
  ultimately show ?thesis by (simp add: parse_socket_addr_def read_socket_addr_def whole_def)
qed

lemma name_not_ip:
  assumes h: "host_name h" and t: "t = [] \<or> (\<exists>p. t = CHR '':'' # p \<and> CHR '':'' \<notin> set p)"
  shows "parse_ip_addr (h @ t) = None"
proof (rule ccontr)
  assume "parse_ip_addr (h @ t) \<noteq> None"
  then obtain ip where ip: "read_ip_addr (h @ t) = Some (ip, [])"
    by (auto simp: parse_ip_addr_def dest: whole_SomeD)
  show False
  proof (cases "read_ipv4_addr (h @ t)")
    case (Some x)
    then obtain v where "read_ipv4_addr (h @ t) = Some (v, [])"
      using ip by (cases x) (auto simp: read_ip_addr_def)
    from name_not_ipv4 [OF h this] show False by auto
  next
    case None
    then have "read_ipv6_addr (h @ t) \<noteq> None" using ip by (auto simp: read_ip_addr_def)
    then have "2 \<le> count_list (h @ t) CHR '':''" by (rule read_ipv6_colons)
    moreover have "count_list h CHR '':'' = 0" using h by (simp add: host_name_def count_list_0_iff)
    moreover have "count_list t CHR '':'' \<le> 1" using t by (auto simp: count_list_0_iff)
    ultimately show False by (simp add: count_list_append)
  qed
qed

lemma rsplit_once_none: "c \<notin> set s \<Longrightarrow> rsplit_once c s = None"
  by (induction s) auto

lemma rsplit_once_last: "c \<notin> set b \<Longrightarrow> rsplit_once c (a @ c # b) = Some (a, b)"
  by (induction a) (auto simp: rsplit_once_none)

lemma endpoint_name_core:
  assumes h: "host_name h" and t: "t = [] \<or> (\<exists>p. t = CHR '':'' # p \<and> CHR '':'' \<notin> set p \<and> list_all visible p)"
  shows "parse_endpoint name_of (h @ t) = map_option (\<lambda>r. and_then r (\<lambda>(k, p).
             and_then (ok_or (BadServer (h @ t)) (name_of k)) (\<lambda>n. Inr \<lparr>host = k, port = p, server_name = n\<rparr>)))
     (case rsplit_once CHR '':'' (h @ t) of
          Some (k, p) \<Rightarrow> Some (and_then (parse_port p (h @ t)) (\<lambda>n. Inr (k, n)))
        | None \<Rightarrow> Some (Inr (h @ t, DEFAULT_PORT)))"
proof -
  obtain c cs where hc: "h = c # cs" "c \<noteq> CHR ''[''" using h by (cases h) (auto simp: host_name_def)
  then have ne: "h @ t \<noteq> []" and brk: "take 1 (h @ t) \<noteq> ''[''" by simp_all
  have "list_all visible t" using t by auto
  then have vis: "list_all visible (h @ t)" using h by (simp add: host_name_def)
  have trim: "trim_text (h @ t) = h @ t" using visible_ends [OF vis] by (rule trim_text_visible)
  have "t = [] \<or> (\<exists>p. t = CHR '':'' # p)" "t = [] \<or> (\<exists>p. t = CHR '':'' # p \<and> CHR '':'' \<notin> set p)"
    using t by auto
  then have "parse_socket_addr (h @ t) = None" "parse_ip_addr (h @ t) = None"
    by (simp_all only: name_not_socket [OF h] name_not_ip [OF h])
  moreover have "(case rsplit_once CHR '':'' (h @ t) of
          Some (k, p) \<Rightarrow> if k = '''' then Some (Inl (BadServer (h @ t)))
            else Some (and_then (parse_port p (h @ t)) (\<lambda>n. Inr (k, n)))
        | None \<Rightarrow> Some (Inr (h @ t, DEFAULT_PORT))) =
      (case rsplit_once CHR '':'' (h @ t) of
          Some (k, p) \<Rightarrow> Some (and_then (parse_port p (h @ t)) (\<lambda>n. Inr (k, n)))
        | None \<Rightarrow> Some (Inr (h @ t, DEFAULT_PORT)))"
    using t rsplit_once_last [of "CHR '':''" _ h] rsplit_once_none [of "CHR '':''" h] h hc
    by (elim disjE exE conjE) (simp_all add: host_name_def)
  ultimately show ?thesis using trim ne brk
    by (simp only: parse_endpoint_def split_host_port_def Let_def if_False option.case)
qed

text \<open>
  A server that is a host name keeps it as its host. Alone it gets port 1943; after a
  colon, the port has to be a decimal number from 1 to 65535, with an optional plus sign, and
  anything else, zero included, is a bad port that names the whole value.
\<close>

theorem endpoint_of_name:
  assumes "host_name h" and "name_of h = Some n" and "CHR '':'' \<notin> set p" and "list_all visible p"
  shows "parse_endpoint name_of h = Some (Inr \<lparr>host = h, port = 1943, server_name = n\<rparr>) \<and>
    parse_endpoint name_of (h @ CHR '':'' # p) = Some
      (case parse_u16 p of
         Some q \<Rightarrow> if q \<noteq> 0 then Inr \<lparr>host = h, port = q, server_name = n\<rparr> else Inl (BadPort (h @ CHR '':'' # p))
       | None \<Rightarrow> Inl (BadPort (h @ CHR '':'' # p)))"
proof -
  have "rsplit_once CHR '':'' h = None" using assms(1) by (simp add: host_name_def rsplit_once_none)
  then have "parse_endpoint name_of h = Some (Inr \<lparr>host = h, port = 1943, server_name = n\<rparr>)"
    using endpoint_name_core [OF assms(1), of "[]" name_of] assms(2)
    by (simp add: ok_or_def DEFAULT_PORT_def)
  moreover have "rsplit_once CHR '':'' (h @ CHR '':'' # p) = Some (h, p)"
    using assms(3) by (rule rsplit_once_last)
  ultimately show ?thesis
    using endpoint_name_core [OF assms(1), of "CHR '':'' # p" name_of] assms(2-4)
    by (simp add: parse_port_def ok_or_def split: option.splits)
qed

lemma home_is_name: "host_name ''home.example''"
proof -
  have "CHR ''h'' \<in> set ''home.example''" "\<not> is_digit 10 CHR ''h''"
    by (simp_all add: is_digit_def to_digit_def)
  moreover have "list_all visible ''home.example''" by (simp add: visible_def)
  ultimately show ?thesis unfolding host_name_def by (intro conjI bexI [of _ "CHR ''h''"]) simp_all
qed

lemma endpoint_of_name_witness:
  "parse_endpoint Some ''home.example'' =
     Some (Inr \<lparr>host = ''home.example'', port = 1943, server_name = ''home.example''\<rparr>) \<and>
   parse_endpoint Some ''home.example:0'' = Some (Inl (BadPort ''home.example:0''))"
proof -
  have "parse_u16 ''0'' = Some 0" by (simp add: parse_u16_def is_digit_def to_digit_def digits_value_def)
  moreover have "list_all visible ''0''" by (simp add: visible_def)
  ultimately show ?thesis
    using endpoint_of_name [OF home_is_name, of Some "''home.example''" "''0''"] by simp
qed

text \<open>
  C36: What is checked of a name is not checked of an address literal: port 0, which a name may
  not have, is accepted after any IP address, and the scope of an IPv6 address is dropped, so that
  two servers that differ in it become the same endpoint.
\<close>

theorem address_literals_unchecked:
  assumes "ip_ok a" and "name_of (show_ip a) = Some n" and "host_name h"
    and "length gs = 8" and "name_of (show_ipv6 gs) = Some m"
  shows "parse_endpoint name_of (show_socket a 0) = Some (Inr \<lparr>host = show_ip a, port = 0, server_name = n\<rparr>) \<and>
    parse_endpoint name_of (h @ '':0'') = Some (Inl (BadPort (h @ '':0''))) \<and>
    parse_endpoint name_of (CHR ''['' # show_ipv6 gs @ CHR ''%'' # show_nat (unat (sc :: u32)) @ '']:'' @ show_nat (unat p)) =
      Some (Inr \<lparr>host = show_ipv6 gs, port = p, server_name = m\<rparr>)"
proof (intro conjI)
  show "parse_endpoint name_of (show_socket a 0) = Some (Inr \<lparr>host = show_ip a, port = 0, server_name = n\<rparr>)"
    using assms(1,2) by (simp add: endpoint_socket_core ok_or_def)
  have "parse_u16 ''0'' = Some 0" by (simp add: parse_u16_def is_digit_def to_digit_def digits_value_def)
  moreover have "rsplit_once CHR '':'' (h @ '':0'') = Some (h, ''0'')" using rsplit_once_last [of "CHR '':''" "''0''"] by simp
  moreover have "list_all visible ''0''" by (simp add: visible_def)
  ultimately show "parse_endpoint name_of (h @ '':0'') = Some (Inl (BadPort (h @ '':0'')))"
    using endpoint_name_core [OF assms(3), of "'':0''" name_of] by (simp add: parse_port_def ok_or_def)
  let ?t = "CHR ''['' # show_ipv6 gs @ CHR ''%'' # show_nat (unat sc) @ '']:'' @ show_nat (unat p)"
  have "trim_text ?t = ?t"
    using show_nat_visible [of "unat p"] visible_ends [of "show_nat (unat p)"] by (intro trim_text_visible) auto
  then show "parse_endpoint name_of ?t = Some (Inr \<lparr>host = show_ipv6 gs, port = p, server_name = m\<rparr>)"
    using parse_show_socket_v6(2) [OF assms(4), of sc p] assms(5)
    by (simp add: parse_endpoint_def split_host_port_def Let_def ok_or_def)
qed

lemma address_literals_unchecked_witness:
  "(\<exists>n. parse_endpoint Some (show_socket (V4 10 0 0 1) 0) = Some (Inr \<lparr>host = show_ip (V4 10 0 0 1), port = 0, server_name = n\<rparr>)) \<and>
   parse_endpoint Some ''home.example:0'' = Some (Inl (BadPort ''home.example:0''))"
  using address_literals_unchecked [of "V4 10 0 0 1" Some, OF _ refl home_is_name, of "replicate 8 0" _ 0 0]
  by simp

section \<open>The whole configuration\<close>

lemma snorkel_load_succeeds:
  "(\<exists>cfg. snorkel_load L socket server cert key ca once = Some (Inr cfg)) \<longleftrightarrow>
     socket \<noteq> '''' \<and> (\<exists>e. parse_endpoint (server_name_of L) server = Some (Inr e)) \<and>
     (\<exists>roots. cert_file L ca roots \<and> list_all (root_ok L) roots) \<and>
     (\<exists>certs k. cert_file L cert certs \<and> key_file L key k \<and> client_identity L certs k = Inr ())"
proof -
  obtain r where r: "parse_endpoint (server_name_of L) server = Some r"
    using parse_endpoint_total by fast
  show ?thesis
    by (simp add: snorkel_load_def r ok_simps snorkel_load_certs_Inr snorkel_load_key_Inr snorkel_files.trusted_law) blast
qed

text \<open>
  \<open>Config::load\<close> of snorkel never panics, and it succeeds exactly when there is a socket
  path, the server's address is one, the files hold certificates and a key, every certificate of
  the \<open>--ca\<close> file can be a root and \<open>rustls\<close> accepts the identity. The address is looked at before
  any file is opened.
\<close>

theorem snorkel_load_total:
  "snorkel_load L socket server cert key ca once \<noteq> None \<and>
   ((\<exists>cfg. snorkel_load L socket server cert key ca once = Some (Inr cfg)) \<longleftrightarrow>
     socket \<noteq> '''' \<and> (\<exists>e. parse_endpoint (server_name_of L) server = Some (Inr e)) \<and>
     (\<exists>roots. cert_file L ca roots \<and> list_all (root_ok L) roots) \<and>
     (\<exists>certs k. cert_file L cert certs \<and> key_file L key k \<and> client_identity L certs k = Inr ())) \<and>
   (socket \<noteq> '''' \<longrightarrow> parse_endpoint (server_name_of L) server = Some (Inl e) \<longrightarrow>
     snorkel_load L socket server cert key ca once = Some (Inl e))"
proof -
  obtain r where r: "parse_endpoint (server_name_of L) server = Some r"
    using parse_endpoint_total by fast
  then have "snorkel_load L socket server cert key ca once \<noteq> None" by (simp add: snorkel_load_def)
  moreover have "socket \<noteq> '''' \<longrightarrow> parse_endpoint (server_name_of L) server = Some (Inl e) \<longrightarrow>
     snorkel_load L socket server cert key ca once = Some (Inl e)"
    by (simp add: snorkel_load_def)
  ultimately show ?thesis using snorkel_load_succeeds by blast
qed

definition demo_snorkel_library :: "string snorkel_library" where
  "demo_snorkel_library = \<lparr>open_file = (\<lambda>p. Inr (as_bytes p)), certs_in = (\<lambda>file. [Inr file]),
     private_key_in = (\<lambda>file. Inr (Some file)), root_ok = (\<lambda>c. True), server_name_of = Some,
     client_identity = (\<lambda>certs k. Inr ())\<rparr>"

lemma demo_snorkel_parses:
  "\<exists>e. parse_endpoint (server_name_of demo_snorkel_library) ''home.example'' = Some (Inr e)"
  using endpoint_name_core [OF home_is_name, of "[]" "server_name_of demo_snorkel_library"]
    rsplit_once_none [of "CHR '':''" "''home.example''"]
  by (simp add: demo_snorkel_library_def ok_or_def)

lemma demo_snorkel_files:
  "cert_file demo_snorkel_library p [as_bytes p]" "list_all (root_ok demo_snorkel_library) [as_bytes p]"
  "key_file demo_snorkel_library p (as_bytes p)" "client_identity demo_snorkel_library certs k = Inr ()"
  by (simp_all add: cert_file_def key_file_def demo_snorkel_library_def)

lemma snorkel_load_total_witness:
  "(\<exists>cfg. snorkel_load demo_snorkel_library ''sock'' ''home.example'' ''cert'' ''key'' ''ca'' True = Some (Inr cfg)) \<and>
   snorkel_load demo_snorkel_library ''sock'' '''' ''cert'' ''key'' ''ca'' True = Some (Inl (BadServer ''server is empty''))"
proof -
  have b: "parse_endpoint (server_name_of demo_snorkel_library) '''' = Some (Inl (BadServer ''server is empty''))"
    using trim_text_visible [of "''''"] by (simp add: parse_endpoint_def)
  then show ?thesis
    using demo_snorkel_parses demo_snorkel_files snorkel_load_total [of demo_snorkel_library "''sock''" "''home.example''" "''cert''" "''key''" "''ca''" True]
      snorkel_load_total [of demo_snorkel_library "''sock''" "''''" "''cert''" "''key''" "''ca''" True]
    by blast
qed

end
