(* ===== verification/Snorkel.thy ===== *)
theory Snorkel
  imports Wire Systems
begin

text \<open>
  \<open>crates/snorkel/src/session.rs\<close> and \<open>link.rs\<close>: the copying of bytes between the local socket and
  the server, the outcome of a session, and the state machine that dials, waits and dials again.
  What a step observes of the world (the shutdown flag, the clock, the socket file, the dial, the
  session) is its first argument.
\<close>

section \<open>Copying\<close>

text \<open>
  One direction of a session: the writer, the count of bytes moved, whether the writer was shut
  down, and the result once the loop has ended. A turn takes what \<open>read\<close> gave: an error, or bytes,
  none of them at the end of the stream.
\<close>

record copy_state =
  c_writer :: writer
  c_moved :: u64
  c_shut :: bool
  c_result :: "(io_error + unit) option"

definition copy_turn :: "io_error + bytes \<Rightarrow> copy_state \<Rightarrow> copy_state" where
  "copy_turn r c =
     (case r of
        Inl e \<Rightarrow> c\<lparr>c_result := Some (Inl e)\<rparr>
      | Inr bs \<Rightarrow>
          if bs = [] then c\<lparr>c_shut := True, c_result := Some (Inr ())\<rparr>
          else (case write_all bs (c_writer c) of
                  (Inl e, w) \<Rightarrow> c\<lparr>c_writer := w, c_result := Some (Inl e)\<rparr>
                | (Inr _, w) \<Rightarrow> c\<lparr>c_writer := w, c_moved := c_moved c + word_of_nat (length bs)\<rparr>))"

fun copy_half :: "(io_error + bytes) list \<Rightarrow> copy_state \<Rightarrow> copy_state" where
  "copy_half [] c = c"
| "copy_half (r # rs) c =
     (let c' = copy_turn r c in if c_result c' = None then copy_half rs c' else c')"

datatype side = Local | Remote

record outcome =
  ended_by :: side
  error :: "io_error option"
  to_remote :: u64
  to_local :: u64
  lasted :: duration

text \<open>
  \<open>Session::run\<close>: both directions go on until one of them ends. The reads are given in the order
  they completed, each with the side it read from; \<open>None\<close> means that neither direction has ended.
  The first two arguments are when the session was opened and when it ends.
\<close>

fun session_run ::
  "instant \<Rightarrow> instant \<Rightarrow> (side \<times> (io_error + bytes)) list \<Rightarrow> copy_state \<Rightarrow> copy_state \<Rightarrow> outcome option" where
  "session_run since t [] up down = None"
| "session_run since t ((Local, r) # rs) up down =
     (let up' = copy_turn r up in
      case c_result up' of
        Some res \<Rightarrow> Some \<lparr>ended_by = Local, error = (case res of Inl e \<Rightarrow> Some e | Inr _ \<Rightarrow> None),
                          to_remote = c_moved up', to_local = c_moved down, lasted = t - since\<rparr>
      | None \<Rightarrow> session_run since t rs up' down)"
| "session_run since t ((Remote, r) # rs) up down =
     (let down' = copy_turn r down in
      case c_result down' of
        Some res \<Rightarrow> Some \<lparr>ended_by = Remote, error = (case res of Inl e \<Rightarrow> Some e | Inr _ \<Rightarrow> None),
                          to_remote = c_moved up, to_local = c_moved down', lasted = t - since\<rparr>
      | None \<Rightarrow> session_run since t rs up down')"

definition productive :: "outcome \<Rightarrow> bool" where
  "productive o' \<longleftrightarrow> to_remote o' \<noteq> 0 \<or> to_local o' \<noteq> 0 \<or> lasted o' \<ge> from_secs 10"

section \<open>The link\<close>

definition BACKOFF_FIRST :: duration where
  "BACKOFF_FIRST = from_millis 500"

definition BACKOFF_MAX :: duration where
  "BACKOFF_MAX = from_secs 30"

record failure_run =
  attempts :: u32

datatype snorkel_link =
    Down instant failure_run
  | Up
  | Stopped

record report =
  sessions :: u64
  bytes_to_server :: u64
  bytes_to_socket :: u64

text \<open>
  The context, with the time it is and, kept for the properties, when \<open>Session::establish\<close> was
  called.
\<close>

record link_context =
  once :: bool
  report :: report
  clock :: instant
  dialled :: "instant list"

text \<open>
  What a step sees. Down: whether shutdown is set, whether the timer fired (and shutdown did not come
  first), how much later than due it did, whether the socket file exists, and how \<open>establish\<close> ended
  (\<open>None\<close> when shutdown came first). Up: how the session ended, if not by shutdown. Both: how long the
  attempt or the session took, and the random scaling of a duration, \<open>base.mul_f64(jitter)\<close>.
\<close>

record sight =
  shutdown_set :: bool
  slept :: bool
  oversleep :: duration
  socket_exists :: bool
  established :: "(string + unit) option"
  session_end :: "outcome option"
  spent :: duration
  scaled :: "duration \<Rightarrow> duration"

definition saturating_sub :: "u32 \<Rightarrow> u32 \<Rightarrow> u32" where
  "saturating_sub a b = (if a < b then 0 else a - b)"

definition saturating_add :: "u32 \<Rightarrow> u32 \<Rightarrow> u32" where
  "saturating_add a b = (if unat a + unat b < 2 ^ 32 then a + b else - 1)"

text \<open>\<open>Duration\<close> saturates at \<open>u64::MAX\<close> seconds and 999,999,999 nanoseconds.\<close>

definition DURATION_MAX :: duration where
  "DURATION_MAX = from_secs (2 ^ 64 - 1) + 999999999"

definition saturating_mul :: "duration \<Rightarrow> u32 \<Rightarrow> duration" where
  "saturating_mul d k = min (d * unat k) DURATION_MAX"

definition backoff_base :: "failure_run \<Rightarrow> duration" where
  "backoff_base r =
     (let exponent = min (saturating_sub (attempts r) 1) 16 in
      min (saturating_mul BACKOFF_FIRST (push_bit (unat exponent) 1)) BACKOFF_MAX)"

definition backoff :: "sight \<Rightarrow> failure_run \<Rightarrow> duration" where
  "backoff s r = scaled s (backoff_base r)"

definition failed :: "sight \<Rightarrow> link_context \<Rightarrow> failure_run \<Rightarrow> snorkel_link" where
  "failed s c r =
     (if once c then Stopped
      else let r' = \<lparr>attempts = saturating_add (attempts r) 1\<rparr> in Down (clock c + backoff s r') r')"

text \<open>\<open>sleep_until\<close> returns at once when its time has passed, and never before.\<close>

definition sleep_until :: "sight \<Rightarrow> instant \<Rightarrow> link_context \<Rightarrow> link_context" where
  "sleep_until s not_before c = c\<lparr>clock := max (clock c) not_before + oversleep s\<rparr>"

fun link_step :: "sight \<Rightarrow> snorkel_link \<Rightarrow> link_context \<Rightarrow> snorkel_link \<times> link_context" where
  "link_step s (Down not_before r) c =
     (if shutdown_set s then (Stopped, c)
      else if \<not> slept s then (Stopped, c)
      else let c1 = sleep_until s not_before c in
      if \<not> socket_exists s then (failed s c1 r, c1)
      else let c2 = c1\<lparr>dialled := dialled c1 @ [clock c1], clock := clock c1 + spent s\<rparr> in
           (case established s of
              None \<Rightarrow> (Stopped, c2)
            | Some (Inr _) \<Rightarrow>
                (Up, c2\<lparr>report := (report c2)\<lparr>sessions := sessions (report c2) + 1\<rparr>\<rparr>)
            | Some (Inl e) \<Rightarrow> (failed s c2 r, c2)))"
| "link_step s Up c =
     (case session_end s of
        None \<Rightarrow> (Stopped, c)
      | Some o' \<Rightarrow>
          let c' = c\<lparr>report := (report c)
            \<lparr>bytes_to_server := bytes_to_server (report c) + to_remote o',
             bytes_to_socket := bytes_to_socket (report c) + to_local o'\<rparr>, clock := clock c + spent s\<rparr> in
          if once c' then (Stopped, c')
          else let r = (if productive o' then \<lparr>attempts = 0\<rparr> else \<lparr>attempts = 1\<rparr>)
               in (Down (clock c' + backoff s r) r, c'))"
| "link_step s Stopped c = (Stopped, c)"

text \<open>\<open>run\<close>: steps until the link has stopped; \<open>None\<close> when the sights run out before that.\<close>

fun link_run :: "sight list \<Rightarrow> snorkel_link \<Rightarrow> link_context \<Rightarrow> report option" where
  "link_run [] l c = None"
| "link_run (s # ss) l c =
     (let (l', c') = link_step s l c in
      if l' = Stopped then Some (report c') else link_run ss l' c')"

definition run_start :: "instant \<Rightarrow> snorkel_link" where
  "run_start now = Down now \<lparr>attempts = 0\<rparr>"

definition run_context :: "bool \<Rightarrow> instant \<Rightarrow> link_context" where
  "run_context o' now = \<lparr>once = o', report = \<lparr>sessions = 0, bytes_to_server = 0, bytes_to_socket = 0\<rparr>,
     clock = now, dialled = []\<rparr>"

section \<open>What a direction moves\<close>

fun chunk :: "io_error + bytes \<Rightarrow> bytes" where
  "chunk (Inl e) = []"
| "chunk (Inr bs) = bs"

text \<open>The bytes of the first reads, and whether the writer has room for so many.\<close>

definition read_bytes :: "nat \<Rightarrow> (io_error + bytes) list \<Rightarrow> bytes" where
  "read_bytes n rs = concat (map chunk (take n rs))"

fun room_for :: "nat \<Rightarrow> nat option \<Rightarrow> bool" where
  "room_for n None \<longleftrightarrow> True"
| "room_for n (Some r) \<longleftrightarrow> n \<le> r"

text \<open>
  The first \<open>n\<close> reads, all of them bytes, went through in full and then the direction goes on, came
  to the end of the stream, or failed: in a read, or in a write that found no room for all.
\<close>

definition copied :: "(io_error + bytes) list \<Rightarrow> copy_state \<Rightarrow> copy_state \<Rightarrow> nat \<Rightarrow> bytes \<Rightarrow> bool" where
  "copied rs c c' n extra \<longleftrightarrow>
     w_data (c_writer c') = w_data (c_writer c) @ read_bytes n rs @ extra \<and>
     c_moved c' = c_moved c + word_of_nat (length (read_bytes n rs)) \<and>
     n \<le> length rs \<and> (\<forall>r \<in> set (take n rs). \<exists>bs. r = Inr bs \<and> bs \<noteq> []) \<and>
     room_for (length (read_bytes n rs)) (w_room (c_writer c)) \<and>
     (case c_result c' of
        None \<Rightarrow> extra = [] \<and> n = length rs \<and> c_shut c' = c_shut c
      | Some (Inr _) \<Rightarrow> extra = [] \<and> n < length rs \<and> rs ! n = Inr [] \<and> c_shut c'
      | Some (Inl e) \<Rightarrow> n < length rs \<and> c_shut c' = c_shut c \<and>
          (case rs ! n of
             Inl e' \<Rightarrow> e = e' \<and> extra = []
           | Inr bs \<Rightarrow> \<exists>room. w_room (c_writer c) = Some room \<and>
               room < length (read_bytes n rs) + length bs \<and>
               extra = take (room - length (read_bytes n rs)) bs))"

lemma read_bytes_simps [simp]: "read_bytes 0 rs = []" "read_bytes (Suc n) (Inr bs # rs) = bs @ read_bytes n rs"
  by (simp_all add: read_bytes_def)

text \<open>What a write takes is gone from the room.\<close>

definition less_room :: "nat \<Rightarrow> nat option \<Rightarrow> nat option" where
  "less_room n r = map_option (\<lambda>k. k - n) r"

lemma write_all_ok:
  "write_all bs w = (Inr (), w') \<Longrightarrow>
   w_data w' = w_data w @ bs \<and> w_room w' = less_room (length bs) (w_room w) \<and> room_for (length bs) (w_room w)"
  by (auto simp: write_all_def less_room_def split: option.splits if_splits)

lemma write_all_fails:
  "write_all bs w = (Inl e, w') \<Longrightarrow>
   \<exists>room. w_room w = Some room \<and> room < length bs \<and> w_data w' = w_data w @ take room bs"
  by (auto simp: write_all_def split: option.splits if_splits)

lemma room_for_less: "room_for n (less_room m r) \<Longrightarrow> room_for m r \<Longrightarrow> room_for (m + n) r"
  by (cases r) (auto simp: less_room_def)

lemma copied_Cons:
  assumes "copied rs c1 c' n extra" and "w_data (c_writer c1) = w_data (c_writer c) @ bs" and "bs \<noteq> []"
    and "c_moved c1 = c_moved c + word_of_nat (length bs)" and "c_shut c1 = c_shut c"
    and "w_room (c_writer c1) = less_room (length bs) (w_room (c_writer c))"
    and "room_for (length bs) (w_room (c_writer c))"
  shows "copied (Inr bs # rs) c c' (Suc n) extra"
  using assms room_for_less [of "length (read_bytes n rs)" "length bs" "w_room (c_writer c)"]
  unfolding copied_def less_room_def
  by (cases "w_room (c_writer c)"; cases "c_result c'") (auto split: sum.splits)

lemma copy_half_copied:
  assumes "c_result c = None"
  shows "\<exists>n extra. copied rs c (copy_half rs c) n extra"
  using assms
proof (induction rs c rule: copy_half.induct)
  case (1 c)
  show ?case by (rule exI [of _ 0], rule exI [of _ "[]"]) (cases "w_room (c_writer c)"; use 1 in \<open>simp add: copied_def\<close>)
next
  case (2 r rs c)
  have room: "room_for 0 (w_room (c_writer c))" by (cases "w_room (c_writer c)") simp_all
  show ?case
  proof (cases r)
    case (Inl e)
    then have "copied (r # rs) c (copy_half (r # rs) c) 0 []" using room by (simp add: copied_def copy_turn_def)
    then show ?thesis by blast
  next
    case (Inr bs)
    show ?thesis
    proof (cases "bs = []")
      case True
      then have "copied (r # rs) c (copy_half (r # rs) c) 0 []"
        using Inr room by (simp add: copied_def copy_turn_def)
      then show ?thesis by blast
    next
      case False
      obtain res w where w: "write_all bs (c_writer c) = (res, w)" by fastforce
      show ?thesis
      proof (cases res)
        case (Inl e)
        then obtain k where "w_room (c_writer c) = Some k" "k < length bs" "w_data w = w_data (c_writer c) @ take k bs"
          using write_all_fails w by blast
        then have "copied (r # rs) c (copy_half (r # rs) c) 0 (take k bs)"
          using Inl w False \<open>r = Inr bs\<close> by (simp add: copied_def copy_turn_def)
        then show ?thesis by blast
      next
        case ok: (Inr u)
        note d = write_all_ok [of bs "c_writer c" w]
        have t: "copy_turn r c = c\<lparr>c_writer := w, c_moved := c_moved c + word_of_nat (length bs)\<rparr>"
          using w ok False Inr by (simp add: copy_turn_def)
        with 2 obtain n extra where "copied rs (copy_turn r c) (copy_half rs (copy_turn r c)) n extra" by auto
        then have "copied (r # rs) c (copy_half rs (copy_turn r c)) (Suc n) extra"
          unfolding Inr by (rule copied_Cons) (use t d w ok Inr False in simp_all)
        then show ?thesis using t 2(2) by auto
      qed
    qed
  qed
qed

text \<open>
  C30: One direction of a session passes on, in order and unchanged, exactly what it reads, and
  counts exactly the bytes of the reads it has written out in full. It ends without an error
  only at the end of the stream, with everything before it passed on and the writer shut down.
  It ends with an error only when a read fails, and then everything read before has been passed on
  and nothing else; or when the writer has no room for a read, and then what has been passed on is
  the beginning of what was read, as much as there was room for. Neither shuts the writer down.
\<close>

theorem copy_passes_on:
  assumes "c_result c = None" and "c' = copy_half rs c"
  shows "\<exists>n extra.
    w_data (c_writer c') = w_data (c_writer c) @ read_bytes n rs @ extra \<and>
    c_moved c' = c_moved c + word_of_nat (length (read_bytes n rs)) \<and>
    n \<le> length rs \<and> (\<forall>r \<in> set (take n rs). \<exists>bs. r = Inr bs \<and> bs \<noteq> []) \<and>
    room_for (length (read_bytes n rs)) (w_room (c_writer c)) \<and>
    (case c_result c' of
       None \<Rightarrow> extra = [] \<and> n = length rs \<and> c_shut c' = c_shut c
     | Some (Inr _) \<Rightarrow> extra = [] \<and> n < length rs \<and> rs ! n = Inr [] \<and> c_shut c'
     | Some (Inl e) \<Rightarrow> n < length rs \<and> c_shut c' = c_shut c \<and>
         (case rs ! n of
            Inl e' \<Rightarrow> e = e' \<and> extra = []
          | Inr bs \<Rightarrow> \<exists>room. w_room (c_writer c) = Some room \<and>
              room < length (read_bytes n rs) + length bs \<and>
              extra = take (room - length (read_bytes n rs)) bs))"
  unfolding assms(2) using copy_half_copied [OF assms(1), of rs] by (simp only: copied_def)

definition demo_copy :: "nat option \<Rightarrow> copy_state" where
  "demo_copy room = \<lparr>c_writer = \<lparr>w_data = [], w_room = room, w_flush = None\<rparr>, c_moved = 0, c_shut = False,
     c_result = None\<rparr>"

lemma copy_passes_on_witness:
  "\<exists>n extra. w_data (c_writer (copy_half [Inr [1, 2], Inr [3, 4], Inr []] (demo_copy (Some 3)))) =
      read_bytes n [Inr [1, 2], Inr [3, 4], Inr []] @ extra \<and>
    c_moved (copy_half [Inr [1, 2], Inr [3, 4], Inr []] (demo_copy (Some 3))) =
      word_of_nat (length (read_bytes n [Inr [1, 2], Inr [3, 4], Inr []]))"
proof -
  have "c_result (demo_copy (Some 3)) = None" by (simp add: demo_copy_def)
  from copy_passes_on [OF this refl, of "[Inr [1, 2], Inr [3, 4], Inr []]"]
  obtain n extra where "w_data (c_writer (copy_half [Inr [1, 2], Inr [3, 4], Inr []] (demo_copy (Some 3)))) =
      w_data (c_writer (demo_copy (Some 3))) @ read_bytes n [Inr [1, 2], Inr [3, 4], Inr []] @ extra"
    "c_moved (copy_half [Inr [1, 2], Inr [3, 4], Inr []] (demo_copy (Some 3))) =
      c_moved (demo_copy (Some 3)) + word_of_nat (length (read_bytes n [Inr [1, 2], Inr [3, 4], Inr []]))" by blast
  then show ?thesis by (intro exI [of _ n] exI [of _ extra]) (simp add: demo_copy_def)
qed

section \<open>Backing off\<close>

lemma exponent_small:
  fixes n :: u32
  shows "unat (min (saturating_sub n 1) 16) = min (unat n - 1) 16"
proof (cases "n = 0")
  case False
  then have "unat (n - 1) = unat n - 1" by (simp add: unat_minus_one)
  then show ?thesis using False
    by (auto simp: saturating_sub_def min_def word_le_nat_alt word_less_nat_alt unat_eq_zero)
qed (simp add: saturating_sub_def)

lemma push_one: "k \<le> 16 \<Longrightarrow> unat (push_bit k 1 :: u32) = 2 ^ k"
proof -
  assume "k \<le> 16"
  then have "(2 :: nat) ^ k \<le> 2 ^ 16" by (intro power_increasing) simp_all
  then have "(2 :: nat) ^ k < 2 ^ 32" by simp
  moreover have "(push_bit k 1 :: u32) = word_of_nat (2 ^ k)" by (simp add: push_bit_eq_mult)
  ultimately show ?thesis by (simp only: unat_of_nat len_num1 mod_less) simp
qed

lemma backoff_base_eq:
  "backoff_base r = min (from_millis (500 * 2 ^ min (unat (attempts r) - 1) 16)) (from_secs 30)"
proof -
  let ?k = "min (unat (attempts r) - 1) 16"
  have "(2 :: nat) ^ ?k \<le> 2 ^ 16" by (intro power_increasing) simp_all
  then have "from_millis 500 * 2 ^ ?k \<le> DURATION_MAX"
    by (simp add: DURATION_MAX_def from_millis_def from_secs_def)
  moreover have "unat (push_bit ?k 1 :: u32) = 2 ^ ?k" by (rule push_one) simp
  ultimately show ?thesis
    by (simp add: backoff_base_def exponent_small saturating_mul_def BACKOFF_FIRST_def BACKOFF_MAX_def
        from_millis_def mult_ac)
qed

text \<open>
  What \<open>mul_f64\<close> does with a factor from \<open>0.8..=1.0\<close>, written \<open>p / q\<close>: the product, rounded to
  nanoseconds, is off by less than one. Only durations up to \<open>BACKOFF_MAX\<close> are ever scaled; at that
  size the rounding of the floating point numbers themselves is far below a nanosecond.
\<close>

definition jitter_ok :: "sight \<Rightarrow> bool" where
  "jitter_ok s \<longleftrightarrow> (\<exists>p q :: nat. 0 < q \<and> 4 * q \<le> 5 * p \<and> p \<le> q \<and>
     (\<forall>d \<le> BACKOFF_MAX. q * scaled s d < p * d + q \<and> p * d < q * (scaled s d + 1)))"

lemma jitter_bounds:
  assumes "jitter_ok s" and "d \<le> BACKOFF_MAX" and "d = 5 * e"
  shows "4 * d \<le> 5 * scaled s d \<and> scaled s d \<le> d"
proof -
  obtain p q :: nat where q: "0 < q" "4 * q \<le> 5 * p" "p \<le> q"
    and sc: "q * scaled s d < p * d + q" "p * d < q * (scaled s d + 1)"
    using assms(1,2) unfolding jitter_ok_def by blast
  have "p * d \<le> q * d" using q(3) by (rule mult_le_mono1)
  with sc(1) have "q * scaled s d < q * d + q * 1" by linarith
  then have "q * scaled s d < q * (d + 1)" by (simp only: distrib_left)
  then have up: "scaled s d < d + 1" by (simp only: nat_mult_less_cancel1 q(1))
  have "(4 * q) * d \<le> (5 * p) * d" using q(2) by (rule mult_le_mono1)
  then have "q * (4 * d) \<le> 5 * (p * d)" by (simp only: mult_ac)
  also have "\<dots> < 5 * (q * (scaled s d + 1))" using sc(2) by simp
  finally have "q * (4 * d) < q * (5 * (scaled s d + 1))" by (simp only: mult_ac)
  then have "4 * d < 5 * (scaled s d + 1)" by (simp only: nat_mult_less_cancel1 q(1))
  then show ?thesis using up assms(3) by simp
qed

lemma backoff_bounds:
  assumes "jitter_ok s"
  shows "4 * backoff_base r \<le> 5 * backoff s r \<and> backoff s r \<le> backoff_base r"
proof -
  have "\<exists>e. backoff_base r = 5 * e"
    unfolding backoff_base_eq from_millis_def from_secs_def min_def
    by (auto intro: exI [of _ "100000000 * 2 ^ min (unat (attempts r) - 1) 16"] exI [of _ "6000000000"])
  moreover have "backoff_base r \<le> BACKOFF_MAX" by (simp add: backoff_base_def Let_def)
  ultimately show ?thesis using jitter_bounds [OF assms] unfolding backoff_def by blast
qed

text \<open>A step that cannot bring the link up: no socket file, or the dial failed, and no shutdown.\<close>

definition fails :: "sight \<Rightarrow> bool" where
  "fails s \<longleftrightarrow> \<not> shutdown_set s \<and> slept s \<and>
     (\<not> socket_exists s \<or> (\<exists>e. established s = Some (Inl e)))"

fun link_steps :: "sight list \<Rightarrow> snorkel_link \<times> link_context \<Rightarrow> snorkel_link \<times> link_context" where
  "link_steps [] x = x"
| "link_steps (s # ss) x = link_steps ss (link_step s (fst x) (snd x))"

lemma link_step_fails:
  assumes "fails s" and "\<not> once c"
  shows "\<exists>c'. link_step s (Down d r) c =
      (Down (clock c' + backoff s \<lparr>attempts = saturating_add (attempts r) 1\<rparr>) \<lparr>attempts = saturating_add (attempts r) 1\<rparr>, c') \<and>
    \<not> once c' \<and> report c' = report c \<and>
    length (dialled c') = length (dialled c) + (if socket_exists s then 1 else 0)"
  using assms by (auto simp: fails_def failed_def sleep_until_def Let_def split: option.splits)

lemma link_steps_append: "link_steps (ss @ [s]) x = link_step s (fst (link_steps ss x)) (snd (link_steps ss x))"
  by (induction ss arbitrary: x) auto

lemma count_failure:
  "k + 1 < 2 ^ 32 \<Longrightarrow> saturating_add (word_of_nat k) 1 = word_of_nat (k + 1)"
  by (simp add: saturating_add_def unat_of_nat)

lemma failures_counted:
  assumes "\<forall>s \<in> set ss. fails s" and "\<not> once c" and "ss \<noteq> []" and "length ss < 2 ^ 32"
  shows "\<exists>c'. link_steps ss (run_start t, c) =
      (Down (clock c' + backoff (last ss) \<lparr>attempts = word_of_nat (length ss)\<rparr>) \<lparr>attempts = word_of_nat (length ss)\<rparr>, c') \<and>
    \<not> once c' \<and> report c' = report c \<and>
    length (dialled c') = length (dialled c) + length (filter socket_exists ss)"
  using assms
proof (induction ss rule: rev_induct)
  case (snoc s ss)
  show ?case
  proof (cases "ss = []")
    case True
    then show ?thesis using snoc.prems count_failure [of 0] link_step_fails [of s c t "\<lparr>attempts = 0\<rparr>"]
      by (auto simp add: run_start_def simp del: link_step.simps)
  next
    case False
    then obtain c1 where c1: "link_steps ss (run_start t, c) =
        (Down (clock c1 + backoff (last ss) \<lparr>attempts = word_of_nat (length ss)\<rparr>) \<lparr>attempts = word_of_nat (length ss)\<rparr>, c1)"
      "\<not> once c1" "report c1 = report c"
      "length (dialled c1) = length (dialled c) + length (filter socket_exists ss)"
      using snoc by auto
    from snoc.prems link_step_fails [of s c1 "clock c1 + backoff (last ss) \<lparr>attempts = word_of_nat (length ss)\<rparr>"
        "\<lparr>attempts = word_of_nat (length ss)\<rparr>"] c1(2)
    obtain c' where "link_step s (Down (clock c1 + backoff (last ss) \<lparr>attempts = word_of_nat (length ss)\<rparr>)
          \<lparr>attempts = word_of_nat (length ss)\<rparr>) c1 =
        (Down (clock c' + backoff s \<lparr>attempts = word_of_nat (length ss + 1)\<rparr>) \<lparr>attempts = word_of_nat (length ss + 1)\<rparr>, c')"
      "\<not> once c'" "report c' = report c1"
      "length (dialled c') = length (dialled c1) + (if socket_exists s then 1 else 0)"
      using count_failure [of "length ss"] by auto
    then show ?thesis using c1 by (intro exI [of _ c']) (simp add: link_steps_append del: link_step.simps)
  qed
qed simp

text \<open>
  C31: After \<open>k\<close> attempts in a row that failed, the link does not give up: it waits, from the moment
  of the last failure, between four fifths of and exactly the smaller of half a second doubled
  \<open>k - 1\<close> times and thirty seconds; and unless shutdown comes first it dials again, not before that
  wait is over and as soon as the timer fires, and is up if that dial succeeds. Each attempt has
  dialled unless the socket file was absent, and the report is untouched.
\<close>

theorem failures_back_off:
  assumes "\<forall>s \<in> set ss. fails s" and "\<not> once c" and "ss \<noteq> []" and "length ss < 2 ^ 32"
    and "jitter_ok (last ss)" and "k = length ss"
    and "base = min (from_millis (500 * 2 ^ min (k - 1) 16)) (from_secs 30)"
    and "link_steps ss (run_start t, c) = (l, c')"
    and "\<not> shutdown_set s" and "slept s" and "socket_exists s"
  shows "\<exists>wait. l = Down (clock c' + wait) \<lparr>attempts = word_of_nat k\<rparr> \<and> 4 * base \<le> 5 * wait \<and> wait \<le> base \<and>
    report c' = report c \<and> length (dialled c') = length (dialled c) + length (filter socket_exists ss) \<and>
    dialled (snd (link_step s l c')) = dialled c' @ [clock c' + wait + oversleep s] \<and>
    (established s = Some (Inr ()) \<longrightarrow> fst (link_step s l c') = Up)"
proof -
  let ?r = "\<lparr>attempts = word_of_nat k\<rparr> :: failure_run"
  have "unat (word_of_nat k :: u32) = k" using assms(4,6) by (simp add: unat_of_nat)
  then have "backoff_base ?r = base" by (simp add: backoff_base_eq assms(7))
  with backoff_bounds [OF assms(5), of ?r] have b: "4 * base \<le> 5 * backoff (last ss) ?r" "backoff (last ss) ?r \<le> base" by simp_all
  have l: "l = Down (clock c' + backoff (last ss) ?r) ?r" "report c' = report c"
    "length (dialled c') = length (dialled c) + length (filter socket_exists ss)"
    using failures_counted [OF assms(1-4), of t] unfolding assms(6,8) by auto
  have "dialled (snd (link_step s l c')) = dialled c' @ [clock c' + backoff (last ss) ?r + oversleep s]"
    using assms(9-11) unfolding l(1) by (simp add: sleep_until_def Let_def split: option.splits sum.splits)
  moreover have "established s = Some (Inr ()) \<longrightarrow> fst (link_step s l c') = Up"
    using assms(9-11) unfolding l(1) by (simp add: Let_def)
  ultimately show ?thesis using b l by blast
qed

definition demo_sight :: sight where
  "demo_sight = \<lparr>shutdown_set = False, slept = True, oversleep = 2, socket_exists = False, established = None,
     session_end = None, spent = 7, scaled = (\<lambda>d. d)\<rparr>"

lemma demo_jitter: "jitter_ok (demo_sight\<lparr>socket_exists := a, established := b, session_end := e\<rparr>)" "jitter_ok demo_sight"
  unfolding jitter_ok_def demo_sight_def by (rule exI [of _ 1], rule exI [of _ 1], simp)+

lemma failures_back_off_witness:
  "\<exists>l c' wait. link_steps [demo_sight, demo_sight] (run_start 0, run_context False 0) = (l, c') \<and>
    l = Down (clock c' + wait) \<lparr>attempts = 2\<rparr> \<and> 4 * from_secs 1 \<le> 5 * wait \<and> wait \<le> from_secs 1 \<and>
    dialled (snd (link_step (demo_sight\<lparr>socket_exists := True\<rparr>) l c')) = [clock c' + wait + 2]"
proof -
  obtain l c' where r: "link_steps [demo_sight, demo_sight] (run_start 0, run_context False 0) = (l, c')" by fastforce
  have 1: "\<forall>s \<in> set [demo_sight, demo_sight]. fails s" "\<not> once (run_context False 0)"
    "[demo_sight, demo_sight] \<noteq> []" "length [demo_sight, demo_sight] < 2 ^ 32"
    "jitter_ok (last [demo_sight, demo_sight])" "2 = length [demo_sight, demo_sight]"
    and 2: "from_secs 1 = min (from_millis (500 * 2 ^ min (2 - 1) 16)) (from_secs 30)"
    and 3: "\<not> shutdown_set (demo_sight\<lparr>socket_exists := True\<rparr>)" "slept (demo_sight\<lparr>socket_exists := True\<rparr>)"
      "socket_exists (demo_sight\<lparr>socket_exists := True\<rparr>)"
    by (simp_all add: demo_sight_def fails_def run_context_def demo_jitter [unfolded demo_sight_def]
        from_millis_def from_secs_def)
  from failures_back_off [OF 1 2 r 3] obtain wait where
    "l = Down (clock c' + wait) \<lparr>attempts = word_of_nat 2\<rparr>" "4 * from_secs 1 \<le> 5 * wait" "wait \<le> from_secs 1"
    "length (dialled c') = length (dialled (run_context False 0)) + length (filter socket_exists [demo_sight, demo_sight])"
    "dialled (snd (link_step (demo_sight\<lparr>socket_exists := True\<rparr>) l c')) =
      dialled c' @ [clock c' + wait + oversleep (demo_sight\<lparr>socket_exists := True\<rparr>)]" by blast
  then show ?thesis using r by (intro exI [of _ l] exI [of _ c'] exI [of _ wait])
    (simp add: run_context_def demo_sight_def del: link_step.simps link_steps.simps)
qed

text \<open>
  A session that ends leads to a new wait of about half a second: whether it moved bytes or
  lasted ten seconds only decides whether the next failure counts as the first or the second in a
  row. The bytes it moved are added to the report.
\<close>

lemma session_end_restarts:
  assumes "session_end s = Some o'" and "\<not> once c" and "jitter_ok s"
    and "link_step s Up c = (l, c')"
  shows "\<exists>wait. l = Down (clock c' + wait) \<lparr>attempts = if productive o' then 0 else 1\<rparr> \<and>
    from_millis 400 \<le> wait \<and> wait \<le> from_millis 500 \<and> once c' = once c \<and> clock c' = clock c + spent s \<and>
    report c' = \<lparr>sessions = sessions (report c),
      bytes_to_server = bytes_to_server (report c) + to_remote o',
      bytes_to_socket = bytes_to_socket (report c) + to_local o'\<rparr>"
proof -
  let ?r = "\<lparr>attempts = if productive o' then 0 else 1\<rparr> :: failure_run"
  have "backoff_base ?r = from_millis 500"
    by (simp add: backoff_base_eq from_millis_def from_secs_def)
  then have "from_millis 400 \<le> backoff s ?r" "backoff s ?r \<le> from_millis 500"
    using backoff_bounds [OF assms(3), of ?r] by (simp_all add: from_millis_def)
  moreover have "l = Down (clock c' + backoff s ?r) ?r \<and>
      c' = c\<lparr>report := (report c)
        \<lparr>bytes_to_server := bytes_to_server (report c) + to_remote o',
         bytes_to_socket := bytes_to_socket (report c) + to_local o'\<rparr>, clock := clock c + spent s\<rparr>"
    using assms(1,2,4) by (auto simp: Let_def split: if_splits)
  ultimately show ?thesis by (auto intro!: report.equality)
qed

section \<open>One attempt only\<close>

definition snorkel_step :: "snorkel_link \<times> link_context \<Rightarrow> sight \<Rightarrow> snorkel_link \<times> link_context \<Rightarrow> bool" where
  "snorkel_step x s y \<longleftrightarrow> fst x \<noteq> Stopped \<and> y = link_step s (fst x) (snd x)"

text \<open>The random scaling is one of \<open>mul_f64\<close>.\<close>

definition sight_allowed :: "snorkel_link \<times> link_context \<Rightarrow> sight \<Rightarrow> bool" where
  "sight_allowed x s \<longleftrightarrow> jitter_ok s"

definition once_safe :: "instant \<Rightarrow> snorkel_link \<times> link_context \<Rightarrow> bool" where
  "once_safe t x \<longleftrightarrow> once (snd x) \<longrightarrow>
     (case fst x of
        Down d r \<Rightarrow> x = (run_start t, run_context True t)
      | Up \<Rightarrow> sessions (report (snd x)) = 1 \<and> length (dialled (snd x)) = 1
      | Stopped \<Rightarrow> sessions (report (snd x)) \<le> 1 \<and> length (dialled (snd x)) \<le> 1)"

lemma once_safe_step:
  assumes "once_safe t x" and "snorkel_step x s y"
  shows "once_safe t y"
proof -
  obtain l c where x: "x = (l, c)" by fastforce
  show ?thesis
  proof (cases l)
    case (Down d r)
    then show ?thesis using assms x
      by (auto simp: once_safe_def snorkel_step_def failed_def run_start_def run_context_def sleep_until_def Let_def
          split: option.splits sum.splits)
  next
    case Up
    then show ?thesis using assms x
      by (auto simp: once_safe_def snorkel_step_def Let_def split: option.splits)
  next
    case Stopped
    then show ?thesis using assms x by (simp add: snorkel_step_def)
  qed
qed

interpretation snorkel_once: safe_system "(run_start t, run_context o' t)" snorkel_step sight_allowed "once_safe t"
  by unfold_locales (simp add: once_safe_def run_start_def run_context_def, erule (1) once_safe_step)

lemma two_steps_once: "\<exists>rep. link_run [s1, s2] (run_start t) (run_context True t) = Some rep"
  by (auto simp: run_start_def run_context_def failed_def sleep_until_def Let_def split: option.splits sum.splits)

text \<open>
  C32: With \<open>--once\<close> the link never dials a second time: in every state it reaches it is still in
  the wait it started with, or in its one session, or has stopped with at most one session and one
  call of \<open>establish\<close>; and \<open>run\<close> returns after at most two steps, whatever happens.
\<close>

theorem once_single_attempt:
  "(reached (run_start t, run_context True t) snorkel_step sight_allowed (l, c) \<longrightarrow>
     length (dialled c) \<le> 1 \<and>
     (case l of Down d r \<Rightarrow> l = run_start t \<and> report c = report (run_context True t)
      | Up \<Rightarrow> sessions (report c) = 1
      | Stopped \<Rightarrow> sessions (report c) \<le> 1)) \<and>
   (\<exists>rep. link_run [s1, s2] (run_start t) (run_context True t) = Some rep)"
proof (intro conjI impI)
  assume r: "reached (run_start t, run_context True t) snorkel_step sight_allowed (l, c)"
  have "once (snd x)" if "reached (run_start t, run_context True t) snorkel_step sight_allowed x" for x
    using that
  proof (induction rule: reached.induct)
    case (one_more x s y)
    then show ?case
      by (cases "(s, fst x, snd x)" rule: link_step.cases)
        (auto simp: snorkel_step_def sleep_until_def Let_def split: option.splits sum.splits if_splits)
  qed (simp add: run_context_def)
  from this [OF r] snorkel_once.always_safe [OF r]
  show "case l of Down d r \<Rightarrow> l = run_start t \<and> report c = report (run_context True t)
      | Up \<Rightarrow> sessions (report c) = 1 | Stopped \<Rightarrow> sessions (report c) \<le> 1"
    and "length (dialled c) \<le> 1"
    by (auto simp: once_safe_def run_context_def split: snorkel_link.splits)
qed (rule two_steps_once)

lemma once_single_attempt_witness:
  "\<exists>rep. link_run [demo_sight, demo_sight] (run_start 3) (run_context True 3) = Some rep"
  using once_single_attempt [of 3 Stopped "run_context True 3" demo_sight demo_sight] by blast

end
