(* ===== verification/Dial.thy ===== *)
theory Dial
  imports Snorkel_Config Snorkel
begin

text \<open>
  \<open>crates/snorkel/src/endpoint.rs\<close> and \<open>Session::establish\<close>: the dial to the server with its two
  timeouts, the local socket, and what an attempt has touched. A call of the network is a future:
  \<open>None\<close> if it never completes, otherwise the time it takes and its result, errors as their text.
\<close>

type_synonym 'a future = "(duration \<times> 'a) option"

text \<open>The \<open>ClientConfig\<close> of \<open>rustls\<close>, as \<open>Config::load\<close> builds it.\<close>

record client_tls =
  tls_roots :: "cert list"
  tls_certs :: "cert list"
  tls_key :: key

record ('n, 'tcp, 'tls, 'unix) network =
  tcp_connect :: "string \<Rightarrow> u16 \<Rightarrow> (string + 'tcp) future"
  set_keepalive :: "'tcp \<Rightarrow> duration \<Rightarrow> string + 'tcp"
  tls_connect :: "client_tls \<Rightarrow> 'n \<Rightarrow> 'tcp \<Rightarrow> (string + 'tls) future"
  unix_connect :: "path \<Rightarrow> (string + 'unix) future"

record 'n remote_dialer =
  dialer_endpoint :: "'n endpoint"
  dialer_tls :: client_tls

definition new_dialer :: "'n snorkel_config \<Rightarrow> 'n remote_dialer" where
  "new_dialer c = \<lparr>dialer_endpoint = sc_endpoint c,
     dialer_tls = \<lparr>tls_roots = sc_roots c, tls_certs = sc_certs c, tls_key = sc_key c\<rparr>\<rparr>"

text \<open>What an attempt touches, in order.\<close>

datatype touch =
    DialServer string u16
  | KeepAlive duration
  | Handshake
  | OpenSocket path

definition CONNECT_TIMEOUT :: duration where
  "CONNECT_TIMEOUT = from_secs 10"

definition KEEPALIVE :: duration where
  "KEEPALIVE = from_secs 30"

record dial_error =
  at_stage :: string
  detail :: string

definition dial_error_text :: "dial_error \<Rightarrow> string" where
  "dial_error_text e = at_stage e @ '': '' @ detail e"

text \<open>\<open>tokio::time::timeout\<close>: the future if it is ready by the limit, \<open>None\<close> at the limit otherwise.\<close>

definition timeout :: "duration \<Rightarrow> 'a future \<Rightarrow> duration \<times> 'a option" where
  "timeout limit f =
     (case f of
        Some (t, x) \<Rightarrow> if t \<le> limit then (t, Some x) else (limit, None)
      | None \<Rightarrow> (limit, None))"

record 'a attempt =
  took :: duration
  touched :: "touch list"
  got :: "dial_error + 'a"

text \<open>\<open>RemoteDialer::dial\<close>.\<close>

definition dial :: "('n, 'tcp, 'tls, 'unix) network \<Rightarrow> 'n remote_dialer \<Rightarrow> 'tls attempt" where
  "dial N D =
     (let e = dialer_endpoint D in
      case timeout CONNECT_TIMEOUT (tcp_connect N (host e) (port e)) of
        (t1, None) \<Rightarrow>
          \<lparr>took = t1, touched = [DialServer (host e) (port e)],
           got = Inl \<lparr>at_stage = ''TLS server'', detail = ''connection timed out''\<rparr>\<rparr>
      | (t1, Some (Inl why)) \<Rightarrow>
          \<lparr>took = t1, touched = [DialServer (host e) (port e)],
           got = Inl \<lparr>at_stage = ''TLS server'', detail = why\<rparr>\<rparr>
      | (t1, Some (Inr tcp)) \<Rightarrow>
          (case set_keepalive N tcp KEEPALIVE of
             Inl why \<Rightarrow>
               \<lparr>took = t1, touched = [DialServer (host e) (port e), KeepAlive KEEPALIVE],
                got = Inl \<lparr>at_stage = ''TLS server keepalive'', detail = why\<rparr>\<rparr>
           | Inr tcp' \<Rightarrow>
               (case timeout CONNECT_TIMEOUT (tls_connect N (dialer_tls D) (server_name e) tcp') of
                  (t2, r) \<Rightarrow>
                    \<lparr>took = t1 + t2,
                     touched = [DialServer (host e) (port e), KeepAlive KEEPALIVE, Handshake],
                     got = (case r of
                        None \<Rightarrow> Inl \<lparr>at_stage = ''TLS handshake'', detail = ''timed out''\<rparr>
                      | Some (Inl why) \<Rightarrow> Inl \<lparr>at_stage = ''TLS handshake'', detail = why\<rparr>
                      | Some (Inr tls) \<Rightarrow> Inr tls)\<rparr>)))"

text \<open>\<open>connect_local\<close> has no timeout.\<close>

definition connect_local :: "('n, 'tcp, 'tls, 'unix) network \<Rightarrow> path \<Rightarrow> (dial_error + 'unix) future" where
  "connect_local N socket =
     map_option (\<lambda>(t, r). (t, map_err (\<lambda>why. \<lparr>at_stage = ''unix socket'', detail = why\<rparr>) r))
       (unix_connect N socket)"

record ('tls, 'unix) session =
  local_side :: 'unix
  remote_side :: 'tls
  opened_at :: instant

text \<open>\<open>Session::establish\<close>, begun at a given time: \<open>None\<close> when it never completes.\<close>

definition establish ::
  "('n, 'tcp, 'tls, 'unix) network \<Rightarrow> instant \<Rightarrow> 'n snorkel_config \<Rightarrow> 'n remote_dialer \<Rightarrow>
   ('tls, 'unix) session attempt option" where
  "establish N begun c D =
     (let d = dial N D in
      case got d of
        Inl why \<Rightarrow> Some \<lparr>took = took d, touched = touched d, got = Inl why\<rparr>
      | Inr remote \<Rightarrow>
          map_option (\<lambda>(t, r).
            \<lparr>took = took d + t, touched = touched d @ [OpenSocket (sc_socket c)],
             got = and_then r (\<lambda>l. Inr \<lparr>local_side = l, remote_side = remote, opened_at = begun + (took d + t)\<rparr>)\<rparr>)
          (connect_local N (sc_socket c)))"

text \<open>
  \<open>Link::step\<close> in \<open>Down\<close>: the attempt against the moment shutdown comes, if it does; \<open>select!\<close>
  takes what is ready first. \<open>None\<close>: neither ever is.
\<close>

definition established_by ::
  "('tls, 'unix) session attempt option \<Rightarrow> duration option \<Rightarrow> (string + unit) option option" where
  "established_by a stop_at =
     (case a of
        None \<Rightarrow> map_option (\<lambda>_. None) stop_at
      | Some r \<Rightarrow>
          if (case stop_at of Some t \<Rightarrow> took r \<le> t | None \<Rightarrow> True)
          then Some (Some (map_err dial_error_text (map_sum id (\<lambda>_. ()) (got r))))
          else Some None)"

section \<open>Properties\<close>

lemma timeout_bound: "timeout limit f = (t, r) \<Longrightarrow> t \<le> limit"
  by (auto simp: timeout_def split: option.splits if_splits)

text \<open>
  C37: A dial ends within twenty seconds whatever the network does, and it succeeds exactly when
  the connection is there within ten seconds, the keepalive can be set, and the handshake is done
  within ten more.
\<close>

theorem dial_bounded:
  "took (dial N D) \<le> from_secs 20 \<and>
   (got (dial N D) = Inr tls \<longleftrightarrow>
     (\<exists>t1 tcp tcp' t2. tcp_connect N (host (dialer_endpoint D)) (port (dialer_endpoint D)) = Some (t1, Inr tcp) \<and> t1 \<le> from_secs 10 \<and>
        set_keepalive N tcp (from_secs 30) = Inr tcp' \<and>
        tls_connect N (dialer_tls D) (server_name (dialer_endpoint D)) tcp' = Some (t2, Inr tls) \<and> t2 \<le> from_secs 10))"
proof
  have sum: "a + b \<le> from_secs 20" if "a \<le> CONNECT_TIMEOUT" "b \<le> CONNECT_TIMEOUT" for a b
    using that by (simp add: CONNECT_TIMEOUT_def from_secs_def)
  show "took (dial N D) \<le> from_secs 20"
    using sum [of _ 0] sum
    by (auto simp: dial_def Let_def dest!: timeout_bound split: prod.splits option.splits sum.splits)
  show "got (dial N D) = Inr tls \<longleftrightarrow>
     (\<exists>t1 tcp tcp' t2. tcp_connect N (host (dialer_endpoint D)) (port (dialer_endpoint D)) = Some (t1, Inr tcp) \<and> t1 \<le> from_secs 10 \<and>
        set_keepalive N tcp (from_secs 30) = Inr tcp' \<and>
        tls_connect N (dialer_tls D) (server_name (dialer_endpoint D)) tcp' = Some (t2, Inr tls) \<and> t2 \<le> from_secs 10)"
    by (auto simp: dial_def Let_def timeout_def CONNECT_TIMEOUT_def KEEPALIVE_def
        split: prod.splits option.splits sum.splits if_splits)
qed

lemma dial_touches: "OpenSocket s \<notin> set (touched (dial N D))"
  by (auto simp: dial_def Let_def split: prod.splits option.splits sum.splits)

text \<open>
  An attempt opens the local socket only when the dial to the server has succeeded, and then
  last; it yields a session exactly when both ends are there, on the very connections it made. It
  can only hang on the local socket, which has no timeout.
\<close>

theorem local_socket_after_dial:
  "(case establish N begun c D of
      None \<Rightarrow> unix_connect N (sc_socket c) = None \<and> (\<exists>tls. got (dial N D) = Inr tls)
    | Some a \<Rightarrow>
        (case got (dial N D) of
           Inl why \<Rightarrow> got a = Inl why \<and> touched a = touched (dial N D) \<and> took a \<le> from_secs 20 \<and>
             OpenSocket (sc_socket c) \<notin> set (touched a)
         | Inr tls \<Rightarrow> (\<exists>t r. unix_connect N (sc_socket c) = Some (t, r) \<and> took a \<le> from_secs 20 + t \<and>
             touched a = touched (dial N D) @ [OpenSocket (sc_socket c)] \<and>
             got a = (case r of
               Inl why \<Rightarrow> Inl \<lparr>at_stage = ''unix socket'', detail = why\<rparr>
             | Inr l \<Rightarrow> Inr \<lparr>local_side = l, remote_side = tls, opened_at = begun + took a\<rparr>))))"
proof -
  have "took (dial N D) \<le> from_secs 20"
    by (auto simp: dial_def Let_def CONNECT_TIMEOUT_def from_secs_def dest!: timeout_bound
        split: prod.splits option.splits sum.splits)
  note d = this dial_touches [of "sc_socket c" N D]
  show ?thesis
  proof (cases "got (dial N D)")
    case (Inl why)
    then show ?thesis using d by (simp add: establish_def Let_def)
  next
    case (Inr tls)
    show ?thesis
    proof (cases "unix_connect N (sc_socket c)")
      case None
      then show ?thesis using Inr by (simp add: establish_def connect_local_def Let_def)
    next
      case (Some x)
      then show ?thesis using Inr d
        by (cases x; cases "snd x") (simp_all add: establish_def connect_local_def Let_def)
    qed
  qed
qed

end
