(* ===== verification/Link_Report.thy ===== *)
theory Link_Report
  imports Dial
begin

text \<open>
  What \<open>run\<close> reports in the end: the sessions the link opened and the bytes of those that ended.
\<close>

text \<open>The outcomes of the sessions that ended during a run, and how many sessions it opened.\<close>

fun ended :: "sight list \<Rightarrow> snorkel_link \<times> link_context \<Rightarrow> outcome list" where
  "ended [] x = []"
| "ended (s # ss) x =
     (case (fst x, session_end s) of (Up, Some o') \<Rightarrow> [o'] | _ \<Rightarrow> []) @ ended ss (link_step s (fst x) (snd x))"

fun opened :: "sight list \<Rightarrow> snorkel_link \<times> link_context \<Rightarrow> nat" where
  "opened [] x = 0"
| "opened (s # ss) x =
     (let y = link_step s (fst x) (snd x) in
      (case (fst x, fst y) of (Down d r, Up) \<Rightarrow> 1 | _ \<Rightarrow> 0) + opened ss y)"

text \<open>Whether shutdown cut a session short.\<close>

fun cut :: "sight list \<Rightarrow> snorkel_link \<times> link_context \<Rightarrow> bool" where
  "cut [] x \<longleftrightarrow> False"
| "cut (s # ss) x \<longleftrightarrow> (fst x = Up \<and> session_end s = None) \<or> cut ss (link_step s (fst x) (snd x))"

lemma stopped_stays: "link_steps ss (Stopped, c) = (Stopped, c) \<and> ended ss (Stopped, c) = [] \<and>
    opened ss (Stopped, c) = 0 \<and> \<not> cut ss (Stopped, c)"
  by (induction ss) (simp_all add: Let_def)

lemma sum_map_Cons: "foldl (+) (a :: u64) (x # xs) = foldl (+) (a + x) xs"
  by simp

text \<open>A step from \<open>Down\<close> opens a session, and counts it, or leaves the report alone.\<close>

lemma down_step:
  "link_step s (Down d r) c = (l', c') \<Longrightarrow>
   l' = Up \<and> report c' = (report c)\<lparr>sessions := sessions (report c) + 1\<rparr> \<or> l' \<noteq> Up \<and> report c' = report c"
  by (auto simp: Let_def failed_def sleep_until_def split: option.splits sum.splits if_splits)

lemma report_core:
  "report (snd (link_steps ss x)) =
     \<lparr>sessions = sessions (report (snd x)) + word_of_nat (opened ss x),
      bytes_to_server = foldl (+) (bytes_to_server (report (snd x))) (map to_remote (ended ss x)),
      bytes_to_socket = foldl (+) (bytes_to_socket (report (snd x))) (map to_local (ended ss x))\<rparr> \<and>
   opened ss x + (if fst x = Up then 1 else 0) =
     length (ended ss x) + (if fst (link_steps ss x) = Up then 1 else 0) + (if cut ss x then 1 else 0)"
proof (induction ss arbitrary: x)
  case Nil
  then show ?case by simp
next
  case (Cons s ss)
  obtain l c where x: "x = (l, c)" by fastforce
  show ?case
  proof (cases l)
    case (Down d r)
    obtain l' c' where y: "link_step s (Down d r) c = (l', c')" by fastforce
    from down_step [OF this] show ?thesis
    proof
      assume "l' = Up \<and> report c' = (report c)\<lparr>sessions := sessions (report c) + 1\<rparr>"
      then have l': "l' = Up" and c': "report c' = (report c)\<lparr>sessions := sessions (report c) + 1\<rparr>" by simp_all
      note IH = Cons.IH [of "(Up, c')"]
      show ?thesis unfolding x Down
      proof (rule conjI)
        show "report (snd (link_steps (s # ss) (Down d r, c))) =
            \<lparr>sessions = sessions (report (snd (Down d r, c))) + word_of_nat (opened (s # ss) (Down d r, c)),
             bytes_to_server = foldl (+) (bytes_to_server (report (snd (Down d r, c)))) (map to_remote (ended (s # ss) (Down d r, c))),
             bytes_to_socket = foldl (+) (bytes_to_socket (report (snd (Down d r, c)))) (map to_local (ended (s # ss) (Down d r, c)))\<rparr>"
          using IH [THEN conjunct1] c' by (simp add: y l' del: link_step.simps)
      qed (use IH [THEN conjunct2] in \<open>simp add: y l' del: link_step.simps\<close>)
    next
      assume "l' \<noteq> Up \<and> report c' = report c"
      then show ?thesis using Cons.IH [of "(l', c')"] unfolding x Down
        by (cases l') (simp_all add: y del: link_step.simps)
    qed
  next
    case Up
    then show ?thesis unfolding x
      using Cons.IH [of "link_step s l c"] stopped_stays
      by (auto simp: Let_def split: option.splits)
  next
    case Stopped
    then show ?thesis unfolding x using stopped_stays by simp
  qed
qed

lemma link_run_steps:
  "link_run ss l c = Some rep \<Longrightarrow> rep = report (snd (link_steps ss (l, c))) \<and> fst (link_steps ss (l, c)) = Stopped"
proof (induction ss arbitrary: l c)
  case (Cons s ss)
  obtain l' c' where y: "link_step s l c = (l', c')" by fastforce
  then show ?case using Cons stopped_stays [of ss c'] by (auto split: if_splits)
qed simp

text \<open>
  C38: The report that \<open>run\<close> returns counts every session the link opened, and adds up the bytes
  of exactly those that ended by themselves; at most one session did not, the one shutdown cut
  short, and of that the bytes are not in the report.
\<close>

theorem report_accounts:
  assumes "link_run ss (run_start t) (run_context o' t) = Some rep"
  shows "\<exists>outs. outs = ended ss (run_start t, run_context o' t) \<and>
    rep = \<lparr>sessions = word_of_nat (length outs + (if cut ss (run_start t, run_context o' t) then 1 else 0)),
      bytes_to_server = foldl (+) 0 (map to_remote outs), bytes_to_socket = foldl (+) 0 (map to_local outs)\<rparr>"
proof -
  let ?x = "(run_start t, run_context o' t)"
  have "rep = report (snd (link_steps ss ?x))" and "fst (link_steps ss ?x) = Stopped"
    using link_run_steps [OF assms] by blast+
  moreover have "fst ?x \<noteq> Up" and "report (snd ?x) = \<lparr>sessions = 0, bytes_to_server = 0, bytes_to_socket = 0\<rparr>"
    by (simp_all add: run_start_def run_context_def)
  ultimately show ?thesis using report_core [of ss ?x] by (auto simp: add.commute)
qed

lemma report_accounts_witness:
  "link_run [demo_sight\<lparr>socket_exists := True, established := Some (Inr ())\<rparr>,
      demo_sight\<lparr>session_end := Some \<lparr>ended_by = Local, error = None, to_remote = 5, to_local = 6, lasted = 1\<rparr>\<rparr>]
      (run_start 0) (run_context True 0) = Some \<lparr>sessions = 1, bytes_to_server = 5, bytes_to_socket = 6\<rparr>"
proof -
  let ?o = "\<lparr>ended_by = Local, error = None, to_remote = 5, to_local = 6, lasted = 1\<rparr> :: outcome"
  let ?ss = "[demo_sight\<lparr>socket_exists := True, established := Some (Inr ())\<rparr>, demo_sight\<lparr>session_end := Some ?o\<rparr>]"
  obtain rep where r: "link_run ?ss (run_start 0) (run_context True 0) = Some rep"
    by (auto simp: run_start_def run_context_def demo_sight_def sleep_until_def Let_def)
  have "ended ?ss (run_start 0, run_context True 0) = [?o]" "\<not> cut ?ss (run_start 0, run_context True 0)"
    by (simp_all add: run_start_def run_context_def demo_sight_def sleep_until_def Let_def)
  then show ?thesis using report_accounts [OF r] r by simp
qed

text \<open>Shutdown ends a run: a step that sees it stops the link.\<close>

lemma shutdown_stops_link:
  assumes "shutdown_set s" and "session_end s = None"
  shows "\<exists>rep. link_run (ss @ [s]) l c = Some rep"
proof (induction ss arbitrary: l c)
  case Nil
  show ?case using assms by (cases l) simp_all
next
  case (Cons s' ss)
  then show ?case by (simp split: prod.splits)
qed

section \<open>When it stops\<close>

text \<open>A step sees shutdown: set when it begins, or first in one of its three \<open>select!\<close>.\<close>

fun sees_shutdown :: "sight \<Rightarrow> snorkel_link \<Rightarrow> bool" where
  "sees_shutdown s (Down d r) \<longleftrightarrow>
     shutdown_set s \<or> \<not> slept s \<or> (socket_exists s \<and> established s = None)"
| "sees_shutdown s Up \<longleftrightarrow> session_end s = None"
| "sees_shutdown s Stopped \<longleftrightarrow> False"

text \<open>A step completes the attempt: it finds no socket file, its dial fails, or its session ends.\<close>

fun completes_attempt :: "sight \<Rightarrow> snorkel_link \<Rightarrow> bool" where
  "completes_attempt s (Down d r) \<longleftrightarrow>
     \<not> shutdown_set s \<and> slept s \<and> (\<not> socket_exists s \<or> (\<exists>e. established s = Some (Inl e)))"
| "completes_attempt s Up \<longleftrightarrow> session_end s \<noteq> None"
| "completes_attempt s Stopped \<longleftrightarrow> False"

lemma step_stops:
  assumes "link_step s l c = (l', c')" and "l \<noteq> Stopped"
  shows "(l' = Stopped \<longleftrightarrow> sees_shutdown s l \<or> once c \<and> completes_attempt s l) \<and> once c' = once c"
  using assms by (cases l) (auto simp: Let_def failed_def sleep_until_def split: option.splits sum.splits if_splits)

lemma link_run_returns:
  assumes "l \<noteq> Stopped"
  shows "(\<exists>rep. link_run ss l c = Some rep) \<longleftrightarrow>
    (\<exists>n < length ss. \<exists>l' c'. link_steps (take n ss) (l, c) = (l', c') \<and>
       (sees_shutdown (ss ! n) l' \<or> once c \<and> completes_attempt (ss ! n) l'))"
  using assms
proof (induction ss arbitrary: l c)
  case (Cons s ss)
  obtain l1 c1 where y: "link_step s l c = (l1, c1)" by fastforce
  note st = step_stops [OF y Cons.prems]
  have split: "(\<exists>n < length (s # ss). \<exists>l' c'. link_steps (take n (s # ss)) (l, c) = (l', c') \<and>
        (sees_shutdown ((s # ss) ! n) l' \<or> once c \<and> completes_attempt ((s # ss) ! n) l')) \<longleftrightarrow>
      (sees_shutdown s l \<or> once c \<and> completes_attempt s l) \<or>
      (\<exists>n < length ss. \<exists>l' c'. link_steps (take n ss) (l1, c1) = (l', c') \<and>
        (sees_shutdown (ss ! n) l' \<or> once c \<and> completes_attempt (ss ! n) l'))"
    by (simp add: Ex_less_Suc2 y)
  show ?case
  proof (cases "l1 = Stopped")
    case True
    then show ?thesis using st unfolding split by (simp add: y)
  next
    case False
    then show ?thesis using st Cons.IH [OF False, of c1] unfolding split by (simp add: y) blast
  qed
qed simp

end
