(* ===== verification/Entry.thy ===== *)
theory Entry
  imports Topside_Config Shutdown_Flag Link_Report
begin

text \<open>
  The two \<open>main\<close> functions with what they call: \<open>crates/topside/src/lib.rs\<close> (binding the two
  listeners) and \<open>main.rs\<close>, \<open>crates/snorkel/src/main.rs\<close>. What they print is left out; the exit
  status is what they return.
\<close>

section \<open>Binding\<close>

text \<open>The operating system's listeners: a bind changes what later ones see.\<close>

record ('os, 'l) listeners =
  tcp_bind :: "socket_addr \<Rightarrow> 'os \<Rightarrow> (io_error + 'l) \<times> 'os"
  local_addr :: "'l \<Rightarrow> io_error + socket_addr"

datatype bind_error = SnorkelBind io_error | PhoneBind io_error

record 'l server_sockets =
  snorkel_addr :: socket_addr
  phone_addr :: socket_addr
  snorkel_listener :: 'l
  phone_listener :: 'l
  server_tls :: server_tls
  server_token :: bytes

definition bind_server :: "('os, 'l) listeners \<Rightarrow> config \<Rightarrow> 'os \<Rightarrow> (bind_error + 'l server_sockets) \<times> 'os" where
  "bind_server O' c os =
     (case tcp_bind O' (cfg_snorkel c) os of
        (Inl e, os1) \<Rightarrow> (Inl (SnorkelBind e), os1)
      | (Inr sl, os1) \<Rightarrow>
     (case tcp_bind O' (cfg_phone c) os1 of
        (Inl e, os2) \<Rightarrow> (Inl (PhoneBind e), os2)
      | (Inr pl, os2) \<Rightarrow>
     (and_then (map_err SnorkelBind (local_addr O' sl)) (\<lambda>sa.
      and_then (map_err PhoneBind (local_addr O' pl)) (\<lambda>pa.
        Inr \<lparr>snorkel_addr = sa, phone_addr = pa, snorkel_listener = sl, phone_listener = pl,
             server_tls = cfg_tls c, server_token = cfg_token c\<rparr>)), os2)))"

section \<open>Exit status\<close>

datatype run_error = Bind bind_error | HubPanicked

text \<open>
  \<open>topside::run\<close>, for a program that embeds the server: bind, then \<open>serve\<close>. The last argument is
  what \<open>serve\<close> has returned, \<open>None\<close> as long as it runs.
\<close>

definition topside_run ::
  "('os, 'l) listeners \<Rightarrow> config \<Rightarrow> 'os \<Rightarrow> watch_rx \<Rightarrow>
   ('l server_sockets \<Rightarrow> watch_rx \<Rightarrow> (run_error + unit) option) \<Rightarrow> (run_error + unit) option" where
  "topside_run O' cfg os rx serve =
     (case fst (bind_server O' cfg os) of
        Inl e \<Rightarrow> Some (Inl (Bind e))
      | Inr sk \<Rightarrow> serve sk rx)"

text \<open>
  \<open>main\<close> of topside: the configuration, the signal handlers, the listeners, then \<open>serve\<close>. \<open>None\<close>
  is a panic, \<open>Some None\<close> that it still runs, because \<open>serve\<close> does.
\<close>

definition topside_main ::
  "topside_library \<Rightarrow> cli \<Rightarrow> io_error + watch_rx \<Rightarrow> ('os, 'l) listeners \<Rightarrow> 'os \<Rightarrow>
   ('l server_sockets \<Rightarrow> watch_rx \<Rightarrow> (run_error + unit) option) \<Rightarrow> nat option option" where
  "topside_main L c signals O' os serve =
     (case load L c of
        None \<Rightarrow> None
      | Some (Inl _) \<Rightarrow> Some (Some 2)
      | Some (Inr cfg) \<Rightarrow>
          Some (case signals of
             Inl _ \<Rightarrow> Some 1
           | Inr rx \<Rightarrow>
               (case fst (bind_server O' cfg os) of
                  Inl _ \<Rightarrow> Some 1
                | Inr sk \<Rightarrow> map_option (\<lambda>r. case r of Inr _ \<Rightarrow> 0 | Inl _ \<Rightarrow> 1) (serve sk rx))))"

text \<open>
  \<open>main\<close> of snorkel. The last argument is what the link sees; the result is \<open>None\<close> for a panic,
  \<open>Some None\<close> when the sights run out before the link has stopped.
\<close>

definition snorkel_main ::
  "'n snorkel_library \<Rightarrow> path \<Rightarrow> string \<Rightarrow> path \<Rightarrow> path \<Rightarrow> path \<Rightarrow> bool \<Rightarrow> io_error + watch_rx \<Rightarrow>
   instant \<Rightarrow> sight list \<Rightarrow> nat option option" where
  "snorkel_main L socket server cert key ca once' signals now ss =
     (case snorkel_load L socket server cert key ca once' of
        None \<Rightarrow> None
      | Some (Inl _) \<Rightarrow> Some (Some 2)
      | Some (Inr cfg) \<Rightarrow>
          (case signals of
             Inl _ \<Rightarrow> Some (Some 1)
           | Inr _ \<Rightarrow>
               Some (map_option (\<lambda>_. 0) (link_run ss (run_start now) (run_context (sc_once cfg) now)))))"

section \<open>Properties\<close>

lemma load_once: "snorkel_load L socket server cert key ca once' = Some (Inr cfg) \<Longrightarrow> sc_once cfg = once'"
  by (auto simp: snorkel_load_def ok_simps split: if_splits)

text \<open>
  C40: Snorkel exits with 2 for a bad configuration, with 1 when it cannot install its signal
  handlers, and with 0 exactly when a step of its link sees shutdown or, with \<open>--once\<close>, has completed
  the attempt (found no socket file, failed to dial, or ended its session): failures and the ends of
  sessions alone never end it. It never panics, and it does exit once shutdown is seen, or after two
  steps of the link with \<open>--once\<close>.
\<close>

theorem snorkel_exit_status:
  assumes "r = snorkel_main L socket server cert key ca once' signals now ss"
  shows "(r = Some (Some 2) \<longleftrightarrow> (\<exists>e. snorkel_load L socket server cert key ca once' = Some (Inl e))) \<and>
    (r = Some (Some 1) \<longleftrightarrow> (\<exists>cfg e. snorkel_load L socket server cert key ca once' = Some (Inr cfg) \<and> signals = Inl e)) \<and>
    (r = Some (Some 0) \<longleftrightarrow>
       (\<exists>cfg rx. snorkel_load L socket server cert key ca once' = Some (Inr cfg) \<and> signals = Inr rx) \<and>
       (\<exists>n < length ss. \<exists>l c. link_steps (take n ss) (run_start now, run_context once' now) = (l, c) \<and>
          (sees_shutdown (ss ! n) l \<or> once' \<and> completes_attempt (ss ! n) l))) \<and>
    r \<in> {Some (Some 2), Some (Some 1), Some (Some 0), Some None} \<and>
    (ss = ss' @ [s] \<and> shutdown_set s \<and> session_end s = None \<longrightarrow> r \<noteq> Some None) \<and>
    (once' \<and> ss = [s1, s2] \<longrightarrow> r \<noteq> Some None)"
proof -
  have total: "snorkel_load L socket server cert key ca once' \<noteq> None"
    using parse_endpoint_total [of "server_name_of L" server] by (simp add: snorkel_load_def)
  have returns: "(\<exists>rep. link_run ss (run_start now) (run_context once' now) = Some rep) \<longleftrightarrow>
      (\<exists>n < length ss. \<exists>l c. link_steps (take n ss) (run_start now, run_context once' now) = (l, c) \<and>
         (sees_shutdown (ss ! n) l \<or> once' \<and> completes_attempt (ss ! n) l))"
    using link_run_returns [of "run_start now" ss "run_context once' now"] by (simp add: run_start_def run_context_def)
  let ?load = "snorkel_load L socket server cert key ca once'"
  show ?thesis
  proof (cases "\<exists>cfg rx. ?load = Some (Inr cfg) \<and> signals = Inr rx")
    case True
    then have "r = Some (map_option (\<lambda>_. 0) (link_run ss (run_start now) (run_context once' now)))"
      using load_once [of L socket server cert key ca once'] by (auto simp: assms snorkel_main_def)
    moreover have "ss = ss' @ [s] \<and> shutdown_set s \<and> session_end s = None \<longrightarrow>
        link_run ss (run_start now) (run_context once' now) \<noteq> None"
      using shutdown_stops_link [of s ss' "run_start now" "run_context once' now"] by force
    moreover have "once' \<and> ss = [s1, s2] \<longrightarrow> link_run ss (run_start now) (run_context once' now) \<noteq> None"
      using two_steps_once [of s1 s2 now] by force
    ultimately show ?thesis unfolding returns [symmetric] using True
      by (cases "link_run ss (run_start now) (run_context once' now)") (auto simp del: link_run.simps)
  next
    case False
    then show ?thesis using total by (auto simp: assms snorkel_main_def split: option.splits sum.splits)
  qed
qed

lemma demo_snorkel_loads:
  "\<exists>cfg. snorkel_load demo_snorkel_library ''sock'' ''home.example'' ''cert'' ''key'' ''ca'' o' = Some (Inr cfg)"
  unfolding snorkel_load_succeeds using demo_snorkel_parses demo_snorkel_files by blast

lemma snorkel_exit_status_witness:
  "snorkel_main demo_snorkel_library ''sock'' ''home.example'' ''cert'' ''key'' ''ca'' True (Inr manual) 0
     [demo_sight, demo_sight] = Some (Some 0)"
proof -
  obtain cfg where l: "snorkel_load demo_snorkel_library ''sock'' ''home.example'' ''cert'' ''key'' ''ca'' True = Some (Inr cfg)"
    using demo_snorkel_loads by blast
  show ?thesis
    using snorkel_exit_status [OF refl, of demo_snorkel_library "''sock''" "''home.example''" "''cert''" "''key''" "''ca''"
        True "Inr manual" 0 "[demo_sight, demo_sight]" "[]" demo_sight demo_sight demo_sight] l
    by auto
qed

text \<open>
  Binding takes the snorkel port first and gives up at the first failure, so a phone port is
  never taken without a snorkel port; what is served are the configured identity and token.
\<close>

lemma bind_server_ok:
  assumes "bind_server O' c os = (Inr s, os')"
  shows "server_tls s = cfg_tls c \<and> server_token s = cfg_token c \<and>
    (\<exists>os1. tcp_bind O' (cfg_snorkel c) os = (Inr (snorkel_listener s), os1) \<and>
       tcp_bind O' (cfg_phone c) os1 = (Inr (phone_listener s), os')) \<and>
    local_addr O' (snorkel_listener s) = Inr (snorkel_addr s) \<and>
    local_addr O' (phone_listener s) = Inr (phone_addr s)"
  using assms by (auto simp: bind_server_def ok_simps split: prod.splits sum.splits)

end
