(* ===== verification/Server.thy ===== *)
theory Server
  imports Hub_Binds Connections Entry
begin

text \<open>
  \<open>serve\<close> and the accept loops of \<open>crates/topside/src/net.rs\<close>: the hub's task, the tasks of all
  connections, and the queue between them. Tasks run interleaved, one turn at a time; a turn is an
  event. The queue is the unbounded channel to the hub: first in, first out, and closed when the
  hub's task has ended. Each message carries who sent it, which the program does not look at.
\<close>

section \<open>State\<close>

datatype sender = HomeTask nat | PhoneTask nat | ServeTask

text \<open>
  What a peer offers in a TLS handshake: the client certificate and its chain, unless it has none or
  resumes an old session, the time, and the rest of it.
\<close>

record tls_offer =
  presented :: "(cert \<times> cert list) option"
  offered_at :: unix_time
  handshake_rest :: bytes

record server_env =
  sv_codec :: codec
  sv_env :: env
  sv_tls :: server_tls
  sv_token :: bytes
  tls_accepts :: "server_tls \<Rightarrow> tls_offer \<Rightarrow> bool"

datatype home_stage = Handshaking | Announced | Looping home_task | Over

datatype phone_stage = Upgrading | Helloed | PhoneLooping phone_task | PhoneOver

text \<open>
  One home connection: the task, what it was offered, the identity it got, how many messages it has
  taken off its channel. What it told the hub and what woke it up are kept for the properties.
\<close>

record home_conn =
  h_stage :: home_stage
  h_sink :: writer
  h_offer :: "tls_offer option"
  h_gen :: "home_gen option"
  h_taken :: nat
  h_told :: "to_hub list"
  h_wakes :: "home_wake list"

record phone_conn =
  p_stage :: phone_stage
  p_header :: "string option"
  p_id :: "phone_id option"
  p_taken :: nat
  p_told :: "to_hub list"
  p_wakes :: "phone_wake list"

record server =
  hub_life :: loop_state
  inbox :: "(sender \<times> to_hub) list"
  handled :: "(sender \<times> to_hub) list"
  homes :: "home_conn list"
  phone_conns :: "phone_conn list"
  stop_flag :: bool
  home_accepting :: bool
  phone_accepting :: bool
  serve_stopped :: bool

text \<open>Channels are numbered by the connection they belong to.\<close>

definition home_out :: "nat \<Rightarrow> chan" where "home_out i = 5 * i"
definition home_halt :: "nat \<Rightarrow> chan" where "home_halt i = 5 * i + 1"
definition home_bind :: "nat \<Rightarrow> chan" where "home_bind i = 5 * i + 2"
definition phone_out_ch :: "nat \<Rightarrow> chan" where "phone_out_ch j = 5 * j + 3"
definition phone_bind :: "nat \<Rightarrow> chan" where "phone_bind j = 5 * j + 4"

fun hub_up :: "loop_state \<Rightarrow> bool" where
  "hub_up (Running t w) \<longleftrightarrow> \<not> panicked w"
| "hub_up (loop_state.Stopped w) \<longleftrightarrow> False"

definition hub_world :: "server \<Rightarrow> world" where
  "hub_world s = world_of (hub_life s)"

text \<open>What \<open>to_hub.send\<close> does for the messages of one turn: they are lost when the hub is gone.\<close>

definition sent :: "server \<Rightarrow> to_hub list \<Rightarrow> to_hub list" where
  "sent s msgs = (if hub_up (hub_life s) then msgs else [])"

definition post :: "sender \<Rightarrow> to_hub list \<Rightarrow> server \<Rightarrow> server" where
  "post who msgs s = s\<lparr>inbox := inbox s @ map (Pair who) (sent s msgs)\<rparr>"

text \<open>What the hub has put on a channel, and the identity it handed back.\<close>

fun commands :: "chan \<Rightarrow> effect list \<Rightarrow> leader_client list" where
  "commands ch [] = []"
| "commands ch (ToHome c m # es) = (if c = ch then m # commands ch es else commands ch es)"
| "commands ch (_ # es) = commands ch es"

fun texts :: "chan \<Rightarrow> effect list \<Rightarrow> string list" where
  "texts ch [] = []"
| "texts ch (ToPhone c s # es) = (if c = ch then s # texts ch es else texts ch es)"
| "texts ch (_ # es) = texts ch es"

fun gen_bound :: "chan \<Rightarrow> effect list \<Rightarrow> home_gen option" where
  "gen_bound ch [] = None"
| "gen_bound ch (BindHome c g # es) = (if c = ch then Some g else gen_bound ch es)"
| "gen_bound ch (_ # es) = gen_bound ch es"

fun id_bound :: "chan \<Rightarrow> effect list \<Rightarrow> phone_id option" where
  "id_bound ch [] = None"
| "id_bound ch (BindPhone c p # es) = (if c = ch then Some p else id_bound ch es)"
| "id_bound ch (_ # es) = id_bound ch es"

section \<open>Accepting\<close>

text \<open>\<open>serve\<close> up to its wait: the hub's task with an empty hub, and the two accept loops.\<close>

definition serve_start :: server where
  "serve_start = \<lparr>hub_life = Running 0 new, inbox = [], handled = [], homes = [], phone_conns = [],
     stop_flag = False, home_accepting = True, phone_accepting = True, serve_stopped = False\<rparr>"

text \<open>What an accept loop sees: shutdown, a failed accept, or a peer.\<close>

datatype 'p accept_event = ShutdownSeen | AcceptFailed | Peer 'p

definition snorkel_accept :: "writer accept_event \<Rightarrow> server \<Rightarrow> server option" where
  "snorkel_accept ev s =
     (if \<not> home_accepting s then None
      else case ev of
        ShutdownSeen \<Rightarrow> if stop_flag s then Some (s\<lparr>home_accepting := False\<rparr>) else None
      | AcceptFailed \<Rightarrow> Some s
      | Peer sink \<Rightarrow> Some (s\<lparr>homes := homes s @
          [\<lparr>h_stage = Handshaking, h_sink = sink, h_offer = None, h_gen = None, h_taken = 0,
            h_told = [], h_wakes = []\<rparr>]\<rparr>))"

definition phone_accept :: "unit accept_event \<Rightarrow> server \<Rightarrow> server option" where
  "phone_accept ev s =
     (if \<not> phone_accepting s then None
      else case ev of
        ShutdownSeen \<Rightarrow> if stop_flag s then Some (s\<lparr>phone_accepting := False\<rparr>) else None
      | AcceptFailed \<Rightarrow> Some s
      | Peer _ \<Rightarrow> Some (s\<lparr>phone_conns := phone_conns s @
          [\<lparr>p_stage = Upgrading, p_header = None, p_id = None, p_taken = 0, p_told = [], p_wakes = []\<rparr>]\<rparr>))"

text \<open>\<open>serve\<close> once shutdown is seen: both loops are aborted and the hub is told.\<close>

definition serve_stop :: "server \<Rightarrow> server option" where
  "serve_stop s =
     (if stop_flag s \<and> \<not> serve_stopped s
      then Some (post ServeTask [Shutdown]
        (s\<lparr>home_accepting := False, phone_accepting := False, serve_stopped := True\<rparr>))
      else None)"

text \<open>How \<open>serve\<close> ends: with the hub's task, by an error if that panicked. \<open>None\<close> while it runs.\<close>

definition serve_result :: "server \<Rightarrow> (run_error + unit) option" where
  "serve_result s =
     (if \<not> serve_stopped s then None
      else if panicked (hub_world s) then Some (Inl HubPanicked)
      else case hub_life s of loop_state.Stopped w \<Rightarrow> Some (Inr ()) | Running t w \<Rightarrow> None)"

section \<open>Home connections\<close>

definition home_handshake :: "server_env \<Rightarrow> nat \<Rightarrow> tls_offer \<Rightarrow> server \<Rightarrow> server option" where
  "home_handshake K i offer s =
     (if i < length (homes s) \<and> h_stage (homes s ! i) = Handshaking
      then let c = homes s ! i;
               told = fst (home_start (sv_codec K) (tls_accepts K (sv_tls K) offer) (home_out i) (home_halt i)
                 (home_bind i) (hub_up (hub_life s)) None (h_sink c));
               c' = c\<lparr>h_offer := Some offer, h_told := told, h_stage := if told = [] then Over else Announced\<rparr>
           in Some (post (HomeTask i) told (s\<lparr>homes := (homes s)[i := c']\<rparr>))
      else None)"

text \<open>The answer to the announcement: the identity, or the end of the hub before it came to it.\<close>

definition home_bound :: "server_env \<Rightarrow> nat \<Rightarrow> server \<Rightarrow> server option" where
  "home_bound K i s =
     (if i < length (homes s) \<and> h_stage (homes s ! i) = Announced
      then let c = homes s ! i in
        (case gen_bound (home_bind i) (effects (hub_world s)) of
           None \<Rightarrow>
             if hub_up (hub_life s) then None
             else Some (s\<lparr>homes := (homes s)[i := c\<lparr>h_stage := Over\<rparr>]\<rparr>)
         | Some g \<Rightarrow>
             (case home_start (sv_codec K) True (home_out i) (home_halt i) (home_bind i) True (Some g) (h_sink c) of
                (told, task) \<Rightarrow>
                  let c' = c\<lparr>h_gen := Some g, h_told := h_told c @ sent s (drop 1 told),
                     h_stage := (case task of None \<Rightarrow> Over | Some t \<Rightarrow> Looping t)\<rparr>
                  in Some (post (HomeTask i) (drop 1 told) (s\<lparr>homes := (homes s)[i := c']\<rparr>))))
      else None)"

text \<open>
  Which branches of \<open>select!\<close> can be ready. The hub's end of the channels goes with its \<open>Link\<close>, whose
  drop fires the halt signal.
\<close>

definition link_gone :: "server \<Rightarrow> nat \<Rightarrow> bool" where
  "link_gone s i \<longleftrightarrow> Halt (home_halt i) \<in> set (effects (hub_world s)) \<or> panicked (hub_world s)"

fun home_ready :: "server \<Rightarrow> nat \<Rightarrow> nat \<Rightarrow> home_task \<Rightarrow> home_wake \<Rightarrow> bool" where
  "home_ready s i n t (Command (Some m)) \<longleftrightarrow> running t \<and>
     (let q = commands (home_out i) (effects (hub_world s)) in n < length q \<and> q ! n = m)"
| "home_ready s i n t (Command None) \<longleftrightarrow> running t \<and> link_gone s i \<and>
     n = length (commands (home_out i) (effects (hub_world s)))"
| "home_ready s i n t HaltFired \<longleftrightarrow> running t \<and> link_gone s i"
| "home_ready s i n t HubClosed \<longleftrightarrow> \<not> hub_up (hub_life s)"
| "home_ready s i n t PollRead \<longleftrightarrow> running t"
| "home_ready s i n t PingTick \<longleftrightarrow> running t"
| "home_ready s i n t (Arrive bs) \<longleftrightarrow> True"
| "home_ready s i n t (Hangup e) \<longleftrightarrow> True"

text \<open>A turn of the loop. A task notices that the hub has gone before it does anything else.\<close>

definition home_turn_at :: "server_env \<Rightarrow> nat \<Rightarrow> home_wake \<Rightarrow> server \<Rightarrow> server option" where
  "home_turn_at K i k s =
     (if i < length (homes s) then
        let c = homes s ! i in
        (case (h_stage c, h_gen c) of
           (Looping t, Some g) \<Rightarrow>
             if home_ready s i (h_taken c) t k \<and> (hub_open t \<longrightarrow> hub_up (hub_life s) \<or> k = HubClosed)
             then let t' = home_turn (sv_codec K) g k t;
                      told = drop (length (hub_told t)) (hub_told t');
                      c' = c\<lparr>h_stage := Looping t', h_told := h_told c @ told, h_wakes := h_wakes c @ [k],
                             h_taken := (case k of Command (Some m) \<Rightarrow> h_taken c + 1 | _ \<Rightarrow> h_taken c)\<rparr>
                  in Some (post (HomeTask i) told (s\<lparr>homes := (homes s)[i := c']\<rparr>))
             else None
         | _ \<Rightarrow> None)
      else None)"

section \<open>Phones\<close>

definition phone_handshake :: "server_env \<Rightarrow> nat \<Rightarrow> string option \<Rightarrow> bool \<Rightarrow> server \<Rightarrow> server option" where
  "phone_handshake K j header ws_ok s =
     (if j < length (phone_conns s) \<and> p_stage (phone_conns s ! j) = Upgrading
      then let c = phone_conns s ! j;
               told = fst (phone_start (phone_upgrade (sv_token K) header) ws_ok (phone_out_ch j) (phone_bind j)
                 (hub_up (hub_life s)) None);
               c' = c\<lparr>p_header := header, p_told := told, p_stage := if told = [] then PhoneOver else Helloed\<rparr>
           in Some (post (PhoneTask j) told (s\<lparr>phone_conns := (phone_conns s)[j := c']\<rparr>))
      else None)"

definition phone_bound :: "server_env \<Rightarrow> nat \<Rightarrow> server \<Rightarrow> server option" where
  "phone_bound K j s =
     (if j < length (phone_conns s) \<and> p_stage (phone_conns s ! j) = Helloed
      then let c = phone_conns s ! j in
        (case id_bound (phone_bind j) (effects (hub_world s)) of
           None \<Rightarrow>
             if hub_up (hub_life s) then None
             else Some (s\<lparr>phone_conns := (phone_conns s)[j := c\<lparr>p_stage := PhoneOver\<rparr>]\<rparr>)
         | Some p \<Rightarrow>
             (case snd (phone_start Accept True (phone_out_ch j) (phone_bind j) True (Some p)) of
                None \<Rightarrow> None
              | Some t \<Rightarrow> Some (s\<lparr>phone_conns := (phone_conns s)[j := c\<lparr>p_id := Some p, p_stage := PhoneLooping t\<rparr>]\<rparr>)))
      else None)"

definition slot_gone :: "server \<Rightarrow> nat \<Rightarrow> bool" where
  "slot_gone s j \<longleftrightarrow> panicked (hub_world s) \<or>
     list_all (\<lambda>x. phone_out (snd x) \<noteq> phone_out_ch j) (phones (hub_world s))"

fun phone_ready_for :: "server \<Rightarrow> nat \<Rightarrow> nat \<Rightarrow> phone_task \<Rightarrow> phone_wake \<Rightarrow> bool" where
  "phone_ready_for s j n t (Outgoing (Some x) fits) \<longleftrightarrow> phone_running t \<and>
     (let q = texts (phone_out_ch j) (effects (hub_world s)) in n < length q \<and> q ! n = x)"
| "phone_ready_for s j n t (Outgoing None fits) \<longleftrightarrow> phone_running t \<and> slot_gone s j \<and>
     n = length (texts (phone_out_ch j) (effects (hub_world s)))"
| "phone_ready_for s j n t HubGone \<longleftrightarrow> \<not> hub_up (hub_life s)"
| "phone_ready_for s j n t (Incoming x fits) \<longleftrightarrow> phone_running t"

definition phone_turn_at :: "server_env \<Rightarrow> nat \<Rightarrow> phone_wake \<Rightarrow> server \<Rightarrow> server option" where
  "phone_turn_at K j k s =
     (if j < length (phone_conns s) then
        let c = phone_conns s ! j in
        (case (p_stage c, p_id c) of
           (PhoneLooping t, Some p) \<Rightarrow>
             if phone_ready_for s j (p_taken c) t k \<and> (phone_hub_open t \<longrightarrow> hub_up (hub_life s) \<or> k = HubGone)
             then let t' = phone_turn p k t;
                      told = drop (length (phone_told t)) (phone_told t');
                      c' = c\<lparr>p_stage := PhoneLooping t', p_told := p_told c @ told, p_wakes := p_wakes c @ [k],
                             p_taken := (case k of Outgoing (Some x) fits \<Rightarrow> p_taken c + 1 | _ \<Rightarrow> p_taken c)\<rparr>
                  in Some (post (PhoneTask j) told (s\<lparr>phone_conns := (phone_conns s)[j := c']\<rparr>))
             else None
         | _ \<Rightarrow> None)
      else None)"

section \<open>The hub's task\<close>

text \<open>A turn of \<open>Hub::run\<close>: the next message of the queue, or the timer.\<close>

definition hub_recv :: "server_env \<Rightarrow> instant \<Rightarrow> server \<Rightarrow> server option" where
  "hub_recv K now s =
     (case inbox s of
        [] \<Rightarrow> None
      | x # rest \<Rightarrow>
          map_option (\<lambda>l. s\<lparr>hub_life := l, inbox := rest, handled := handled s @ [x]\<rparr>)
            (if hub_up (hub_life s) then hub_next (sv_env K) (hub_life s) (Recv now (Some (snd x))) else None))"

definition hub_timer :: "server_env \<Rightarrow> instant \<Rightarrow> server \<Rightarrow> server option" where
  "hub_timer K now s =
     map_option (\<lambda>l. s\<lparr>hub_life := l\<rparr>)
       (if hub_up (hub_life s) then hub_next (sv_env K) (hub_life s) (Timer now) else None)"

section \<open>All together\<close>

datatype server_event =
    StopSet
  | HomeAccept "writer accept_event"
  | HomeHandshake nat tls_offer
  | HomeBound nat
  | HomeTurn nat home_wake
  | PhoneAccept "unit accept_event"
  | PhoneHandshake nat "string option" bool
  | PhoneBound nat
  | PhoneTurn nat phone_wake
  | HubRecv instant
  | HubTimer instant
  | ServeStops

fun server_next :: "server_env \<Rightarrow> server \<Rightarrow> server_event \<Rightarrow> server option" where
  "server_next K s StopSet = Some (s\<lparr>stop_flag := True\<rparr>)"
| "server_next K s (HomeAccept ev) = snorkel_accept ev s"
| "server_next K s (HomeHandshake i offer) = home_handshake K i offer s"
| "server_next K s (HomeBound i) = home_bound K i s"
| "server_next K s (HomeTurn i k) = home_turn_at K i k s"
| "server_next K s (PhoneAccept ev) = phone_accept ev s"
| "server_next K s (PhoneHandshake j header ws_ok) = phone_handshake K j header ws_ok s"
| "server_next K s (PhoneBound j) = phone_bound K j s"
| "server_next K s (PhoneTurn j k) = phone_turn_at K j k s"
| "server_next K s (HubRecv now) = hub_recv K now s"
| "server_next K s (HubTimer now) = hub_timer K now s"
| "server_next K s ServeStops = serve_stop s"

definition server_step :: "server_env \<Rightarrow> server \<Rightarrow> server_event \<Rightarrow> server \<Rightarrow> bool" where
  "server_step K s e s' \<longleftrightarrow> server_next K s e = Some s'"

text \<open>The counters of the hub have room, and the sets of the program are sets.\<close>

definition server_allowed :: "server_env \<Rightarrow> server \<Rightarrow> server_event \<Rightarrow> bool" where
  "server_allowed K s e \<longleftrightarrow> order_ok (sv_env K) \<and> counters_room (hub_world s)"

fun run_server :: "server_env \<Rightarrow> server \<Rightarrow> server_event list \<Rightarrow> server option" where
  "run_server K s [] = Some s"
| "run_server K s (e # es) = Option.bind (server_next K s e) (\<lambda>s'. run_server K s' es)"

abbreviation server_reached :: "server_env \<Rightarrow> server \<Rightarrow> bool" where
  "server_reached K \<equiv> reached serve_start (server_step K) (server_allowed K)"

end
