(* ===== verification/Server_Invariant.thy ===== *)
theory Server_Invariant
  imports Server "HOL-Library.Sublist"
begin

text \<open>
  What holds of every state the server reaches: the hub's part is a state of its loop, the queue
  holds of each task just what that task has sent, a task speaks only under the identity the hub
  gave it, after its peer was let in, and what a phone has been sent is the beginning of what the hub
  put on its channel.
\<close>

section \<open>Channels and queues\<close>

lemmas chan_defs = home_out_def home_halt_def home_bind_def phone_out_ch_def phone_bind_def

lemma chan_eq [simp]:
  "home_bind i = home_bind k \<longleftrightarrow> i = k" "phone_bind i = phone_bind k \<longleftrightarrow> i = k"
  "phone_out_ch i = phone_out_ch k \<longleftrightarrow> i = k" "home_out i = home_out k \<longleftrightarrow> i = k"
  by (simp_all add: chan_defs)

lemma texts_append: "texts ch (es @ fs) = texts ch es @ texts ch fs"
  by (induction ch es rule: texts.induct) simp_all

lemma gen_bound_in: "gen_bound ch es = Some g \<Longrightarrow> BindHome ch g \<in> set es"
  by (induction ch es rule: gen_bound.induct) (auto split: if_splits)

lemma id_bound_in: "id_bound ch es = Some p \<Longrightarrow> BindPhone ch p \<in> set es"
  by (induction ch es rule: id_bound.induct) (auto split: if_splits)

definition sent_by :: "sender \<Rightarrow> (sender \<times> to_hub) list \<Rightarrow> to_hub list" where
  "sent_by who q = map snd (filter (\<lambda>x. fst x = who) q)"

lemma sent_by_simps [simp]:
  "sent_by who [] = []" "sent_by who (q @ r) = sent_by who q @ sent_by who r"
  "sent_by who (x # q) = (if fst x = who then [snd x] else []) @ sent_by who q"
  "sent_by who (map (Pair who') ms) = (if who' = who then ms else [])"
  by (simp_all add: sent_by_def filter_map comp_def)

fun msg_gen :: "to_hub \<Rightarrow> home_gen option" where
  "msg_gen (HomeFrame g _) = Some g"
| "msg_gen (HomeEof g) = Some g"
| "msg_gen _ = None"

fun msg_phone :: "to_hub \<Rightarrow> phone_id option" where
  "msg_phone (PhoneText p _) = Some p"
| "msg_phone (PhoneEof p) = Some p"
| "msg_phone _ = None"

fun ws_texts :: "ws_message list \<Rightarrow> string list" where
  "ws_texts [] = []"
| "ws_texts (Text s # ms) = s # ws_texts ms"
| "ws_texts (_ # ms) = ws_texts ms"

lemma ws_texts_append: "ws_texts (ms @ ns) = ws_texts ms @ ws_texts ns"
  by (induction ms rule: ws_texts.induct) simp_all

section \<open>One connection\<close>

definition home_hello :: "nat \<Rightarrow> to_hub" where
  "home_hello i = Accepted (home_out i) (home_halt i) (home_bind i)"

definition phone_hello :: "nat \<Rightarrow> to_hub" where
  "phone_hello j = PhoneHello (phone_out_ch j) (phone_bind j)"

lemma hello_msg [simp]:
  "msg_gen (home_hello i) = None" "msg_phone (home_hello i) = None"
  "msg_gen (phone_hello j) = None" "msg_phone (phone_hello j) = None"
  by (simp_all add: home_hello_def phone_hello_def)

text \<open>The announcement, then messages under one identity.\<close>

definition speaks :: "to_hub \<Rightarrow> (to_hub \<Rightarrow> 'i option) \<Rightarrow> 'i option \<Rightarrow> to_hub list \<Rightarrow> bool" where
  "speaks hello ident x told \<longleftrightarrow>
     told = [] \<or> (\<exists>rest. told = hello # rest \<and> (\<forall>m \<in> set rest. ident m = x \<and> x \<noteq> None))"

lemma speaks_append:
  "speaks hello ident x told \<Longrightarrow> told \<noteq> [] \<Longrightarrow> \<forall>m \<in> set ms. ident m = x \<and> x \<noteq> None \<Longrightarrow>
   speaks hello ident x (told @ ms)"
  by (auto simp: speaks_def)

definition home_loop :: "server_env \<Rightarrow> nat \<Rightarrow> home_conn \<Rightarrow> home_task \<Rightarrow> bool" where
  "home_loop K i c t \<longleftrightarrow> hub_told t = h_told c \<and> h_told c \<noteq> [] \<and>
     (\<exists>g t0. h_gen c = Some g \<and> t = home_turns (sv_codec K) g (h_wakes c) t0 \<and>
        snd (home_start (sv_codec K) True (home_out i) (home_halt i) (home_bind i) True (Some g) (h_sink c)) = Some t0)"

definition home_conn_ok :: "server_env \<Rightarrow> effect list \<Rightarrow> nat \<Rightarrow> home_conn \<Rightarrow> bool" where
  "home_conn_ok K es i c \<longleftrightarrow>
     (h_told c \<noteq> [] \<longrightarrow> (\<exists>offer. h_offer c = Some offer \<and> tls_accepts K (sv_tls K) offer)) \<and>
     (\<forall>g. h_gen c = Some g \<longrightarrow> BindHome (home_bind i) g \<in> set es) \<and>
     speaks (home_hello i) msg_gen (h_gen c) (h_told c) \<and>
     (case h_stage c of
        Handshaking \<Rightarrow> h_told c = [] \<and> h_gen c = None \<and> h_wakes c = []
      | Announced \<Rightarrow> h_told c = [home_hello i] \<and> h_gen c = None \<and> h_wakes c = []
      | Looping t \<Rightarrow> home_loop K i c t
      | Over \<Rightarrow> True)"

definition phone_loop :: "effect list \<Rightarrow> nat \<Rightarrow> phone_conn \<Rightarrow> phone_task \<Rightarrow> bool" where
  "phone_loop es j c t \<longleftrightarrow> phone_told t = p_told c \<and> p_told c \<noteq> [] \<and>
     (\<exists>p t0. p_id c = Some p \<and> t = fold (phone_turn p) (p_wakes c) t0 \<and>
        phone_told t0 = [phone_hello j] \<and> phone_hub_open t0 \<and> phone_running t0) \<and>
     (let q = texts (phone_out_ch j) es in
        p_taken c \<le> length q \<and> prefix (ws_texts (ws_out t)) (take (p_taken c) q) \<and>
        (phone_running t \<longrightarrow> ws_texts (ws_out t) = take (p_taken c) q))"

definition phone_conn_ok :: "server_env \<Rightarrow> effect list \<Rightarrow> nat \<Rightarrow> phone_conn \<Rightarrow> bool" where
  "phone_conn_ok K es j c \<longleftrightarrow>
     (p_told c \<noteq> [] \<longrightarrow> phone_upgrade (sv_token K) (p_header c) = Accept) \<and>
     (\<forall>p. p_id c = Some p \<longrightarrow> BindPhone (phone_bind j) p \<in> set es) \<and>
     speaks (phone_hello j) msg_phone (p_id c) (p_told c) \<and>
     (case p_stage c of
        Upgrading \<Rightarrow> p_told c = [] \<and> p_id c = None \<and> p_wakes c = [] \<and> p_taken c = 0
      | Helloed \<Rightarrow> p_told c = [phone_hello j] \<and> p_id c = None \<and> p_wakes c = [] \<and> p_taken c = 0
      | PhoneLooping t \<Rightarrow> phone_loop es j c t
      | PhoneOver \<Rightarrow> True)"

lemma home_conn_ok_grows: "home_conn_ok K es i c \<Longrightarrow> home_conn_ok K (es @ fs) i c"
  by (auto simp: home_conn_ok_def)

lemma phone_loop_grows: "phone_loop es j c t \<Longrightarrow> phone_loop (es @ fs) j c t"
  by (auto simp: phone_loop_def texts_append Let_def)

lemma phone_conn_ok_grows: "phone_conn_ok K es j c \<Longrightarrow> phone_conn_ok K (es @ fs) j c"
  by (auto simp: phone_conn_ok_def phone_loop_grows split: phone_stage.splits)

section \<open>The server\<close>

definition slots_ok :: "server \<Rightarrow> bool" where
  "slots_ok s \<longleftrightarrow> (\<forall>p slot. hm_get (phones (hub_world s)) p = Some slot \<longrightarrow>
     (\<exists>j < length (phone_conns s). phone_out slot = phone_out_ch j \<and>
        BindPhone (phone_bind j) p \<in> set (effects (hub_world s))))"

definition server_inv :: "server_env \<Rightarrow> server \<Rightarrow> bool" where
  "server_inv K s \<longleftrightarrow> hub_reached (sv_env K) (hub_life s) \<and> slots_ok s \<and>
     (\<forall>i < length (homes s). home_conn_ok K (effects (hub_world s)) i (homes s ! i)) \<and>
     (\<forall>j < length (phone_conns s). phone_conn_ok K (effects (hub_world s)) j (phone_conns s ! j)) \<and>
     (\<forall>i. sent_by (HomeTask i) (handled s @ inbox s) =
        (if i < length (homes s) then h_told (homes s ! i) else [])) \<and>
     (\<forall>j. sent_by (PhoneTask j) (handled s @ inbox s) =
        (if j < length (phone_conns s) then p_told (phone_conns s ! j) else [])) \<and>
     set (sent_by ServeTask (handled s @ inbox s)) \<subseteq> {Shutdown} \<and>
     (serve_stopped s \<longrightarrow> hub_up (hub_life s) \<longrightarrow> (ServeTask, Shutdown) \<in> set (inbox s))"

lemma server_invD:
  assumes "server_inv K s"
  shows "hub_reached (sv_env K) (hub_life s)" and "slots_ok s"
    and "i < length (homes s) \<Longrightarrow> home_conn_ok K (effects (hub_world s)) i (homes s ! i)"
    and "j < length (phone_conns s) \<Longrightarrow> phone_conn_ok K (effects (hub_world s)) j (phone_conns s ! j)"
    and "sent_by (HomeTask i) (handled s @ inbox s) = (if i < length (homes s) then h_told (homes s ! i) else [])"
    and "sent_by (PhoneTask j) (handled s @ inbox s) =
      (if j < length (phone_conns s) then p_told (phone_conns s ! j) else [])"
    and "set (sent_by ServeTask (handled s @ inbox s)) \<subseteq> {Shutdown}"
    and "serve_stopped s \<Longrightarrow> hub_up (hub_life s) \<Longrightarrow> (ServeTask, Shutdown) \<in> set (inbox s)"
  using assms unfolding server_inv_def by blast+

lemma server_invI:
  assumes "hub_reached (sv_env K) (hub_life s)" and "slots_ok s"
    and "\<And>i. i < length (homes s) \<Longrightarrow> home_conn_ok K (effects (hub_world s)) i (homes s ! i)"
    and "\<And>j. j < length (phone_conns s) \<Longrightarrow> phone_conn_ok K (effects (hub_world s)) j (phone_conns s ! j)"
    and "\<And>i. sent_by (HomeTask i) (handled s @ inbox s) = (if i < length (homes s) then h_told (homes s ! i) else [])"
    and "\<And>j. sent_by (PhoneTask j) (handled s @ inbox s) =
      (if j < length (phone_conns s) then p_told (phone_conns s ! j) else [])"
    and "set (sent_by ServeTask (handled s @ inbox s)) \<subseteq> {Shutdown}"
    and "serve_stopped s \<Longrightarrow> hub_up (hub_life s) \<Longrightarrow> (ServeTask, Shutdown) \<in> set (inbox s)"
  shows "server_inv K s"
  using assms unfolding server_inv_def by blast

lemma post_fields [simp]:
  "hub_life (post who ms s) = hub_life s" "hub_world (post who ms s) = hub_world s"
  "handled (post who ms s) = handled s" "homes (post who ms s) = homes s"
  "phone_conns (post who ms s) = phone_conns s" "serve_stopped (post who ms s) = serve_stopped s"
  "inbox (post who ms s) = inbox s @ map (Pair who) (sent s ms)"
  by (simp_all add: post_def hub_world_def)

lemma server_update [simp]:
  "hub_world (s\<lparr>homes := x\<rparr>) = hub_world s" "hub_world (s\<lparr>phone_conns := y\<rparr>) = hub_world s"
  "hub_world (s\<lparr>hub_life := l\<rparr>) = world_of l" "hub_world (s\<lparr>inbox := q\<rparr>) = hub_world s"
  "hub_world (s\<lparr>handled := q\<rparr>) = hub_world s" "hub_world (s\<lparr>stop_flag := b\<rparr>) = hub_world s"
  "hub_world (s\<lparr>home_accepting := b\<rparr>) = hub_world s" "hub_world (s\<lparr>phone_accepting := b\<rparr>) = hub_world s"
  "hub_world (s\<lparr>serve_stopped := b\<rparr>) = hub_world s"
  "sent (s\<lparr>homes := x\<rparr>) ms = sent s ms" "sent (s\<lparr>phone_conns := y\<rparr>) ms = sent s ms"
  "sent (s\<lparr>serve_stopped := b\<rparr>) ms = sent s ms"
  "sent (s\<lparr>home_accepting := b\<rparr>) ms = sent s ms" "sent (s\<lparr>phone_accepting := b\<rparr>) ms = sent s ms"
  by (simp_all add: hub_world_def sent_def)

lemma home_change:
  assumes inv: "server_inv K s" and i: "i < length (homes s)"
    and ok: "home_conn_ok K (effects (hub_world s)) i c'"
    and told: "h_told c' = h_told (homes s ! i) @ sent s ms"
  shows "server_inv K (post (HomeTask i) ms (s\<lparr>homes := (homes s)[i := c']\<rparr>))"
proof (rule server_invI)
  note D = server_invD [OF inv]
  show "slots_ok (post (HomeTask i) ms (s\<lparr>homes := (homes s)[i := c']\<rparr>))"
    using D(2) by (simp add: slots_ok_def)
  show "home_conn_ok K (effects (hub_world (post (HomeTask i) ms (s\<lparr>homes := (homes s)[i := c']\<rparr>)))) k
      (homes (post (HomeTask i) ms (s\<lparr>homes := (homes s)[i := c']\<rparr>)) ! k)"
    if "k < length (homes (post (HomeTask i) ms (s\<lparr>homes := (homes s)[i := c']\<rparr>)))" for k
    using that D(3) [of k] ok i by (cases "k = i") simp_all
qed (use server_invD [OF inv] i told in \<open>auto simp: nth_list_update\<close>)

lemma phone_change:
  assumes inv: "server_inv K s" and j: "j < length (phone_conns s)"
    and ok: "phone_conn_ok K (effects (hub_world s)) j c'"
    and told: "p_told c' = p_told (phone_conns s ! j) @ sent s ms"
  shows "server_inv K (post (PhoneTask j) ms (s\<lparr>phone_conns := (phone_conns s)[j := c']\<rparr>))"
proof (rule server_invI)
  note D = server_invD [OF inv]
  show "slots_ok (post (PhoneTask j) ms (s\<lparr>phone_conns := (phone_conns s)[j := c']\<rparr>))"
    using D(2) by (simp add: slots_ok_def)
  show "phone_conn_ok K (effects (hub_world (post (PhoneTask j) ms (s\<lparr>phone_conns := (phone_conns s)[j := c']\<rparr>)))) k
      (phone_conns (post (PhoneTask j) ms (s\<lparr>phone_conns := (phone_conns s)[j := c']\<rparr>)) ! k)"
    if "k < length (phone_conns (post (PhoneTask j) ms (s\<lparr>phone_conns := (phone_conns s)[j := c']\<rparr>)))" for k
    using that D(4) [of k] ok j by (cases "k = j") simp_all
qed (use server_invD [OF inv] j told in \<open>auto simp: nth_list_update\<close>)

lemma no_post: "post who [] s = s"
  by (simp add: post_def sent_def)

section \<open>Turns of a home connection\<close>

lemma home_start_told:
  "fst (home_start C acc o' h b up None sink) = (if acc \<and> up then [Accepted o' h b] else [])"
  by (simp add: home_start_def Let_def)

lemma home_handshake_inv:
  assumes inv: "server_inv K s" and step: "home_handshake K i offer s = Some s'"
  shows "server_inv K s'"
proof -
  let ?c = "homes s ! i" and ?acc = "tls_accepts K (sv_tls K) offer"
  let ?told = "if ?acc \<and> hub_up (hub_life s) then [home_hello i] else []"
  let ?c' = "?c\<lparr>h_offer := Some offer, h_told := ?told, h_stage := if ?told = [] then Over else Announced\<rparr>"
  from step have i: "i < length (homes s)" and st: "h_stage ?c = Handshaking"
    and s': "s' = post (HomeTask i) ?told (s\<lparr>homes := (homes s)[i := ?c']\<rparr>)"
    by (auto simp: home_handshake_def home_start_told home_hello_def Let_def split: if_splits)
  have c: "h_told ?c = []" "h_gen ?c = None" "h_wakes ?c = []"
    using server_invD(3) [OF inv i] st by (simp_all add: home_conn_ok_def)
  have "home_conn_ok K (effects (hub_world s)) i ?c'"
    using c by (auto simp: home_conn_ok_def speaks_def)
  then show ?thesis unfolding s' using c by (intro home_change [OF inv i]) (auto simp: sent_def)
qed

lemma home_start_bound:
  "home_start C True o' h b True (Some g) sink = (told, task) \<Longrightarrow>
   told \<noteq> [] \<and> hd told = Accepted o' h b \<and> (\<forall>m \<in> set (drop 1 told). msg_gen m = Some g) \<and>
   (\<forall>t. task = Some t \<longrightarrow> told = [Accepted o' h b] \<and> hub_told t = [Accepted o' h b])"
  by (auto simp: home_start_def Let_def split: option.splits prod.splits sum.splits)

lemma home_bound_inv:
  assumes inv: "server_inv K s" and step: "home_bound K i s = Some s'"
  shows "server_inv K s'"
proof -
  let ?c = "homes s ! i"
  from step have i: "i < length (homes s)" and st: "h_stage ?c = Announced"
    by (auto simp: home_bound_def split: if_splits)
  note ok = server_invD(3) [OF inv i]
  have c: "h_told ?c = [home_hello i]" "h_gen ?c = None" "h_wakes ?c = []"
    "\<exists>offer. h_offer ?c = Some offer \<and> tls_accepts K (sv_tls K) offer"
    using ok st by (simp_all add: home_conn_ok_def)
  show ?thesis
  proof (cases "gen_bound (home_bind i) (effects (hub_world s))")
    case None
    then have s': "s' = post (HomeTask i) [] (s\<lparr>homes := (homes s)[i := ?c\<lparr>h_stage := Over\<rparr>]\<rparr>)"
      using step i st by (auto simp: home_bound_def no_post split: if_splits)
    show ?thesis unfolding s'
      by (rule home_change [OF inv i]) (use ok st in \<open>simp_all add: home_conn_ok_def sent_def speaks_def\<close>)
  next
    case (Some g)
    obtain told task where hs: "home_start (sv_codec K) True (home_out i) (home_halt i) (home_bind i) True (Some g)
        (h_sink ?c) = (told, task)" by fastforce
    let ?c' = "?c\<lparr>h_gen := Some g, h_told := h_told ?c @ sent s (drop 1 told),
      h_stage := (case task of None \<Rightarrow> Over | Some t \<Rightarrow> Looping t)\<rparr>"
    have s': "s' = post (HomeTask i) (drop 1 told) (s\<lparr>homes := (homes s)[i := ?c']\<rparr>)"
      using step i st Some hs by (auto simp: home_bound_def Let_def split: if_splits)
    note T = home_start_bound [OF hs, folded home_hello_def]
    have loop: "home_loop K i ?c' t" if "task = Some t" for t
    proof -
      from T that have t: "told = [home_hello i]" "hub_told t = [home_hello i]" by blast+
      have "home_turns (sv_codec K) g (h_wakes ?c') t = t" using c by simp
      with t c hs that show ?thesis by (auto simp: home_loop_def sent_def intro: exI [of _ t])
    qed
    have "home_conn_ok K (effects (hub_world s)) i ?c'"
      using c T loop gen_bound_in [OF Some] speaks_append [of "home_hello i" msg_gen "Some g" "[home_hello i]"]
      by (auto simp: home_conn_ok_def speaks_def sent_def split: option.splits)
    then show ?thesis unfolding s' by (rule home_change [OF inv i]) simp
  qed
qed

lemma home_turns_snoc: "home_turns C g (ks @ [k]) t = home_turn C g k (home_turns C g ks t)"
  by (induction ks arbitrary: t) simp_all

lemma home_turn_told:
  "\<exists>ms. hub_told (home_turn C g k t) = hub_told t @ ms \<and> (\<forall>m \<in> set ms. msg_gen m = Some g) \<and>
     (k = HubClosed \<or> \<not> hub_open t \<longrightarrow> ms = [])"
  by (cases "(C, g, k, t)" rule: home_turn.cases)
    (auto simp: poll_read_def write_out_def drop_read_def stop_task_def tell_def Let_def
      split: sum.splits prod.splits option.splits wire_error.splits)

lemma home_turn_at_inv:
  assumes inv: "server_inv K s" and step: "home_turn_at K i k s = Some s'"
  shows "server_inv K s'"
proof -
  let ?c = "homes s ! i" and ?C = "sv_codec K"
  from step obtain t g where i: "i < length (homes s)" and st: "h_stage ?c = Looping t" "h_gen ?c = Some g"
    and closed: "hub_open t \<longrightarrow> hub_up (hub_life s) \<or> k = HubClosed"
    by (auto simp: home_turn_at_def Let_def split: if_splits home_stage.splits option.splits)
  let ?told = "drop (length (hub_told t)) (hub_told (home_turn ?C g k t))"
  let ?c' = "?c\<lparr>h_stage := Looping (home_turn ?C g k t), h_told := h_told ?c @ ?told, h_wakes := h_wakes ?c @ [k],
    h_taken := (case k of Command (Some m) \<Rightarrow> h_taken ?c + 1 | _ \<Rightarrow> h_taken ?c)\<rparr>"
  have s': "s' = post (HomeTask i) ?told (s\<lparr>homes := (homes s)[i := ?c']\<rparr>)"
    using step i st by (auto simp: home_turn_at_def Let_def split: if_splits)
  obtain ms where ms: "hub_told (home_turn ?C g k t) = hub_told t @ ms" "\<forall>m \<in> set ms. msg_gen m = Some g"
    "k = HubClosed \<or> \<not> hub_open t \<longrightarrow> ms = []"
    using home_turn_told by metis
  have sent: "sent s ms = ms" using ms(3) closed by (auto simp: sent_def)
  note ok = server_invD(3) [OF inv i]
  have l: "home_loop K i ?c t" using ok st by (simp add: home_conn_ok_def)
  then have ne: "h_told ?c \<noteq> []" and sp: "speaks (home_hello i) msg_gen (Some g) (h_told ?c)"
    using ok st by (auto simp: home_conn_ok_def home_loop_def)
  have "home_loop K i ?c' (home_turn ?C g k t)"
    using l ms(1) st by (auto simp: home_loop_def home_turns_snoc)
  then have "home_conn_ok K (effects (hub_world s)) i ?c'"
    using ok st ne ms(1,2) speaks_append [OF sp ne] by (simp add: home_conn_ok_def)
  then show ?thesis unfolding s' by (rule home_change [OF inv i]) (simp add: ms(1) sent)
qed

section \<open>Turns of a phone\<close>

lemma phone_start_told:
  "fst (phone_start u ok' o' b up None) = (if u = Accept \<and> ok' \<and> up then [PhoneHello o' b] else [])"
  by (simp add: phone_start_def Let_def)

lemma phone_handshake_inv:
  assumes inv: "server_inv K s" and step: "phone_handshake K j header ok' s = Some s'"
  shows "server_inv K s'"
proof -
  let ?c = "phone_conns s ! j" and ?acc = "phone_upgrade (sv_token K) header = Accept \<and> ok'"
  let ?told = "if ?acc \<and> hub_up (hub_life s) then [phone_hello j] else []"
  let ?c' = "?c\<lparr>p_header := header, p_told := ?told, p_stage := if ?told = [] then PhoneOver else Helloed\<rparr>"
  from step have j: "j < length (phone_conns s)" and st: "p_stage ?c = Upgrading"
    and s': "s' = post (PhoneTask j) ?told (s\<lparr>phone_conns := (phone_conns s)[j := ?c']\<rparr>)"
    by (auto simp: phone_handshake_def phone_start_told phone_hello_def Let_def split: if_splits)
  have c: "p_told ?c = []" "p_id ?c = None" "p_wakes ?c = []" "p_taken ?c = 0"
    using server_invD(4) [OF inv j] st by (simp_all add: phone_conn_ok_def)
  have "phone_conn_ok K (effects (hub_world s)) j ?c'"
    using c by (auto simp: phone_conn_ok_def speaks_def)
  then show ?thesis unfolding s' using c by (intro phone_change [OF inv j]) (auto simp: sent_def)
qed

lemma phone_bound_inv:
  assumes inv: "server_inv K s" and step: "phone_bound K j s = Some s'"
  shows "server_inv K s'"
proof -
  let ?c = "phone_conns s ! j"
  from step have j: "j < length (phone_conns s)" and st: "p_stage ?c = Helloed"
    by (auto simp: phone_bound_def split: if_splits)
  note ok = server_invD(4) [OF inv j]
  have c: "p_told ?c = [phone_hello j]" "p_id ?c = None" "p_wakes ?c = []" "p_taken ?c = 0"
    using ok st by (simp_all add: phone_conn_ok_def)
  show ?thesis
  proof (cases "id_bound (phone_bind j) (effects (hub_world s))")
    case None
    then have s': "s' = post (PhoneTask j) [] (s\<lparr>phone_conns := (phone_conns s)[j := ?c\<lparr>p_stage := PhoneOver\<rparr>]\<rparr>)"
      using step j st by (auto simp: phone_bound_def no_post split: if_splits)
    show ?thesis unfolding s'
      by (rule phone_change [OF inv j]) (use ok st in \<open>simp_all add: phone_conn_ok_def sent_def speaks_def\<close>)
  next
    case (Some p)
    let ?t = "\<lparr>ws_out = [], phone_told = [phone_hello j], phone_hub_open = True, phone_running = True\<rparr>"
    let ?c' = "?c\<lparr>p_id := Some p, p_stage := PhoneLooping ?t\<rparr>"
    have s': "s' = post (PhoneTask j) [] (s\<lparr>phone_conns := (phone_conns s)[j := ?c']\<rparr>)"
      using step j st Some by (auto simp: phone_bound_def phone_start_def phone_hello_def no_post Let_def)
    have "phone_loop (effects (hub_world s)) j ?c' ?t"
      using c by (simp add: phone_loop_def)
    then have "phone_conn_ok K (effects (hub_world s)) j ?c'"
      using ok c id_bound_in [OF Some] by (auto simp: phone_conn_ok_def speaks_def)
    then show ?thesis unfolding s' by (rule phone_change [OF inv j]) (simp add: sent_def)
  qed
qed

lemma phone_turn_told_more:
  "\<exists>ms. phone_told (phone_turn p k t) = phone_told t @ ms \<and> (\<forall>m \<in> set ms. msg_phone m = Some p) \<and>
     (k = HubGone \<or> \<not> phone_hub_open t \<longrightarrow> ms = [])"
  by (cases "(p, k, t)" rule: phone_turn.cases) (auto simp: phone_eof_def)

text \<open>What a turn writes: a text only when it takes one off the channel.\<close>

lemma phone_turn_texts:
  "ws_texts (ws_out (phone_turn p k t)) = ws_texts (ws_out t) @
     (case k of Outgoing (Some x) fits \<Rightarrow> if phone_running t \<and> fits then [x] else [] | _ \<Rightarrow> [])"
  "phone_running (phone_turn p k t) \<Longrightarrow> phone_running t \<and> (\<forall>x. k \<noteq> Outgoing (Some x) False)"
  by (cases "(p, k, t)" rule: phone_turn.cases; auto simp: phone_eof_def ws_texts_append split: if_splits)+

lemma phone_turn_loop:
  assumes l: "phone_loop es j c t" and id: "p_id c = Some p"
    and ready: "phone_ready_for s j (p_taken c) t k" and es: "es = effects (hub_world s)"
    and c': "c' = c\<lparr>p_stage := PhoneLooping (phone_turn p k t), p_told := phone_told (phone_turn p k t),
      p_wakes := p_wakes c @ [k], p_taken := (case k of Outgoing (Some x) fits \<Rightarrow> p_taken c + 1 | _ \<Rightarrow> p_taken c)\<rparr>"
  shows "phone_loop es j c' (phone_turn p k t)"
proof -
  let ?q = "texts (phone_out_ch j) es" and ?n = "p_taken c" and ?t = "phone_turn p k t"
  from l have n: "?n \<le> length ?q" and pre: "prefix (ws_texts (ws_out t)) (take ?n ?q)"
    and run: "phone_running t \<longrightarrow> ws_texts (ws_out t) = take ?n ?q"
    by (simp_all add: phone_loop_def Let_def)
  have out: "p_taken c' \<le> length ?q \<and> prefix (ws_texts (ws_out ?t)) (take (p_taken c') ?q) \<and>
    (phone_running ?t \<longrightarrow> ws_texts (ws_out ?t) = take (p_taken c') ?q)"
  proof (cases "\<exists>x fits. k = Outgoing (Some x) fits")
    case True
    then obtain x fits where k: "k = Outgoing (Some x) fits" by blast
    with ready es have x: "phone_running t" "?n < length ?q" "?q ! ?n = x" by (simp_all add: Let_def)
    have take: "take (p_taken c') ?q = take ?n ?q @ [x]" using x by (simp add: c' k take_Suc_conv_app_nth)
    have "ws_texts (ws_out ?t) = take ?n ?q @ (if fits then [x] else [])"
      using run x(1) by (simp add: k ws_texts_append phone_eof_def)
    moreover have "p_taken c' \<le> length ?q" using x(2) by (simp add: c' k)
    moreover have "phone_running ?t \<longrightarrow> fits" using x(1) by (simp add: k phone_eof_def split: if_splits)
    ultimately show ?thesis unfolding take by (cases fits) simp_all
  next
    case False
    then have same: "ws_texts (ws_out ?t) = ws_texts (ws_out t)" "p_taken c' = ?n"
      by (auto simp: phone_turn_texts(1) c' split: phone_wake.splits option.splits)
    then show ?thesis using n pre run phone_turn_texts(2) [of p k t] by auto
  qed
  obtain ms where "phone_told ?t = phone_told t @ ms" using phone_turn_told_more by blast
  with l id have "phone_told ?t \<noteq> []" "\<exists>p t0. p_id c' = Some p \<and> ?t = fold (phone_turn p) (p_wakes c') t0 \<and>
      phone_told t0 = [phone_hello j] \<and> phone_hub_open t0 \<and> phone_running t0"
    by (auto simp: phone_loop_def c')
  with out show ?thesis by (simp add: phone_loop_def Let_def c')
qed

lemma phone_turn_at_inv:
  assumes inv: "server_inv K s" and step: "phone_turn_at K j k s = Some s'"
  shows "server_inv K s'"
proof -
  let ?c = "phone_conns s ! j" and ?es = "effects (hub_world s)"
  from step obtain t p where j: "j < length (phone_conns s)" and st: "p_stage ?c = PhoneLooping t" "p_id ?c = Some p"
    and closed: "phone_hub_open t \<longrightarrow> hub_up (hub_life s) \<or> k = HubGone"
    and ready: "phone_ready_for s j (p_taken ?c) t k"
    by (auto simp: phone_turn_at_def Let_def split: if_splits phone_stage.splits option.splits)
  let ?t = "phone_turn p k t"
  let ?told = "drop (length (phone_told t)) (phone_told ?t)"
  let ?c' = "?c\<lparr>p_stage := PhoneLooping ?t, p_told := p_told ?c @ ?told, p_wakes := p_wakes ?c @ [k],
    p_taken := (case k of Outgoing (Some x) fits \<Rightarrow> p_taken ?c + 1 | _ \<Rightarrow> p_taken ?c)\<rparr>"
  have s': "s' = post (PhoneTask j) ?told (s\<lparr>phone_conns := (phone_conns s)[j := ?c']\<rparr>)"
    using step j st by (auto simp: phone_turn_at_def Let_def split: if_splits)
  obtain ms where ms: "phone_told ?t = phone_told t @ ms" "\<forall>m \<in> set ms. msg_phone m = Some p"
    "k = HubGone \<or> \<not> phone_hub_open t \<longrightarrow> ms = []"
    using phone_turn_told_more by metis
  have sent: "sent s ms = ms" using ms(3) closed by (auto simp: sent_def)
  note ok = server_invD(4) [OF inv j]
  have l: "phone_loop ?es j ?c t" using ok st by (simp add: phone_conn_ok_def)
  then have ne: "p_told ?c \<noteq> []" and told: "phone_told t = p_told ?c"
    and sp: "speaks (phone_hello j) msg_phone (Some p) (p_told ?c)"
    using ok st by (auto simp: phone_conn_ok_def phone_loop_def)
  have "phone_loop ?es j ?c' ?t"
    by (rule phone_turn_loop [OF l st(2) ready refl]) (simp add: ms(1) told)
  then have "phone_conn_ok K ?es j ?c'"
    using ok st ne ms(1,2) speaks_append [OF sp ne] by (simp add: phone_conn_ok_def)
  then show ?thesis unfolding s' by (rule phone_change [OF inv j]) (simp add: ms(1) sent)
qed

section \<open>Turns of the hub\<close>

text \<open>The hub's part moves by one step of its loop, and the connections stay as they are.\<close>

lemma hub_moves_inv:
  assumes inv: "server_inv K s" and allowed: "server_allowed K s e"
    and step: "hub_step (sv_env K) (hub_life s) k l"
    and same: "homes s' = homes s" "phone_conns s' = phone_conns s" "hub_life s' = l"
      "handled s' @ inbox s' = handled s @ inbox s" "serve_stopped s' = serve_stopped s"
    and slots: "slots_ok s'"
    and stop: "hub_up l \<Longrightarrow> (ServeTask, Shutdown) \<in> set (inbox s) \<Longrightarrow> (ServeTask, Shutdown) \<in> set (inbox s')"
  shows "server_inv K s'"
proof (rule server_invI)
  note D = server_invD [OF inv]
  obtain es where es: "effects (hub_world s') = effects (hub_world s) @ es"
    using hub_step_grows [OF step] same(3) by (auto simp: hub_world_def)
  have up: "hub_up (hub_life s)" if "hub_up l"
  proof -
    have safe: "loop_safe (hub_life s)" by (rule hub_loop.always_safe [OF D(1)])
    show ?thesis
      using step that safe by (cases rule: hub_step.cases) (auto dest: hub_invD)
  qed
  have "loop_allowed (sv_env K) (hub_life s) k"
    using allowed by (cases "hub_life s") (simp_all add: server_allowed_def hub_world_def)
  with D(1) step same(3) show "hub_reached (sv_env K) (hub_life s')" by (auto intro: reached.one_more)
  show "home_conn_ok K (effects (hub_world s')) i (homes s' ! i)" if "i < length (homes s')" for i
    using that D(3) same home_conn_ok_grows by (simp add: es)
  show "phone_conn_ok K (effects (hub_world s')) j (phone_conns s' ! j)" if "j < length (phone_conns s')" for j
    using that D(4) same phone_conn_ok_grows by (simp add: es)
  show "(ServeTask, Shutdown) \<in> set (inbox s')" if "serve_stopped s'" "hub_up (hub_life s')"
    using that D(8) same stop up by simp
qed (use server_invD [OF inv] same slots in simp_all)

lemma sent_by_member: "(who, m) \<in> set q \<longleftrightarrow> m \<in> set (sent_by who q)"
  by (force simp: sent_by_def)

text \<open>Every message of the queue is one that its sender told.\<close>

lemma who_said:
  assumes inv: "server_inv K s" and m: "(who, m) \<in> set (handled s @ inbox s)"
  shows "case who of
      HomeTask i \<Rightarrow> i < length (homes s) \<and> m \<in> set (h_told (homes s ! i)) \<and>
        (m = home_hello i \<or> (msg_gen m = h_gen (homes s ! i) \<and> h_gen (homes s ! i) \<noteq> None))
    | PhoneTask j \<Rightarrow> j < length (phone_conns s) \<and> m \<in> set (p_told (phone_conns s ! j)) \<and>
        (m = phone_hello j \<or> (msg_phone m = p_id (phone_conns s ! j) \<and> p_id (phone_conns s ! j) \<noteq> None))
    | ServeTask \<Rightarrow> m = Shutdown"
proof -
  note D = server_invD [OF inv]
  have m': "m \<in> set (sent_by who (handled s @ inbox s))" using m sent_by_member by blast
  show ?thesis
  proof (cases who)
    case (HomeTask i)
    then have "i < length (homes s)" "m \<in> set (h_told (homes s ! i))"
      using m' D(5) [of i] by (simp_all del: sent_by_simps split: if_splits)
    then show ?thesis using HomeTask D(3) [of i] by (auto simp: home_conn_ok_def speaks_def)
  next
    case (PhoneTask j)
    then have "j < length (phone_conns s)" "m \<in> set (p_told (phone_conns s ! j))"
      using m' D(6) [of j] by (simp_all del: sent_by_simps split: if_splits)
    then show ?thesis using PhoneTask D(4) [of j] by (auto simp: phone_conn_ok_def speaks_def)
  next
    case ServeTask
    then show ?thesis using m' D(7) by auto
  qed
qed

lemma hello_sender:
  assumes "server_inv K s" and "(who, PhoneHello o' b) \<in> set (handled s @ inbox s)"
  shows "\<exists>j < length (phone_conns s). who = PhoneTask j \<and> o' = phone_out_ch j \<and> b = phone_bind j"
  using who_said [OF assms] by (cases who) (auto simp: home_hello_def phone_hello_def)

lemma hub_recv_inv:
  assumes inv: "server_inv K s" and allowed: "server_allowed K s e" and step: "hub_recv K now s = Some s'"
  shows "server_inv K s'"
proof -
  from step obtain who m rest l where q: "inbox s = (who, m) # rest" and up: "hub_up (hub_life s)"
    and l: "hub_next (sv_env K) (hub_life s) (Recv now (Some m)) = Some l"
    and s': "s' = s\<lparr>hub_life := l, inbox := rest, handled := handled s @ [(who, m)]\<rparr>"
    by (auto simp: hub_recv_def split: list.splits if_splits)
  from l have hs: "hub_step (sv_env K) (hub_life s) (Recv now (Some m)) l" by (simp add: hub_step_iff)
  note D = server_invD [OF inv]
  have world: "hub_world s' = world_of l" by (simp add: s' hub_world_def)
  have slots: "slots_ok s'"
  proof (cases "m = Shutdown")
    case True
    then show ?thesis using hs by (auto simp: slots_ok_def world elim!: hub_step_elim)
  next
    case False
    then obtain t w where w: "hub_life s = Running t w" "l = Running now (handle (sv_env K) now m w)"
      using hs by (auto elim!: hub_step_elim)
    obtain es where es: "effects (handle (sv_env K) now m w) = effects w @ es" "filter is_bind es = bind_of w m"
      using handle_effects by blast
    show ?thesis unfolding slots_ok_def world
    proof (intro allI impI)
      fix p slot
      assume "hm_get (phones (world_of l)) p = Some slot"
      then have "hm_get (phones (handle (sv_env K) now m w)) p = Some slot" using w by simp
      from handle_slots [OF this] show "\<exists>j<length (phone_conns s'). phone_out slot = phone_out_ch j \<and>
          BindPhone (phone_bind j) p \<in> set (effects (world_of l))"
      proof (elim disjE exE conjE)
        fix old
        assume "hm_get (phones w) p = Some old" "phone_out old = phone_out slot"
        then obtain j where "j < length (phone_conns s)" "phone_out old = phone_out_ch j"
          "BindPhone (phone_bind j) p \<in> set (effects w)"
          using D(2) w unfolding slots_ok_def hub_world_def by fastforce
        then show ?thesis using \<open>phone_out old = phone_out slot\<close> w by (auto simp: s' es)
      next
        fix o' b
        assume m: "m = PhoneHello o' b" "slot = Connected o'" "bind_of w m = [BindPhone b p]"
        then have "BindPhone b p \<in> set es" using es(2) by (auto simp: filter_eq_Cons_iff)
        then have "BindPhone b p \<in> set (effects (world_of l))" using es(1) w(2) by simp
        moreover obtain j where "j < length (phone_conns s)" "o' = phone_out_ch j" "b = phone_bind j"
          using hello_sender [OF inv, of who o' b] q m by auto
        ultimately show ?thesis using m(2) by (auto simp: s')
      qed
    qed
  qed
  show ?thesis
  proof (rule hub_moves_inv [OF inv allowed hs _ _ _ _ _ slots])
    show "(ServeTask, Shutdown) \<in> set (inbox s')" if "hub_up l" "(ServeTask, Shutdown) \<in> set (inbox s)"
      using that hs q by (auto simp: s' elim!: hub_step_elim)
  qed (simp_all add: s' q)
qed

lemma hub_timer_inv:
  assumes inv: "server_inv K s" and allowed: "server_allowed K s e" and step: "hub_timer K now s = Some s'"
  shows "server_inv K s'"
proof -
  from step obtain l where l: "hub_next (sv_env K) (hub_life s) (Timer now) = Some l" and s': "s' = s\<lparr>hub_life := l\<rparr>"
    by (auto simp: hub_timer_def split: if_splits)
  from l have hs: "hub_step (sv_env K) (hub_life s) (Timer now) l" by (simp add: hub_step_iff)
  then obtain t w where w: "hub_life s = Running t w" "l = Running now (on_deadline w)"
    by (auto elim!: hub_step_elim)
  obtain es where es: "effects (on_deadline w) = effects w @ es" using quiet_turns(1) by (auto simp: quiet_def)
  have "slots_ok s'"
    using server_invD(2) [OF inv] w by (auto simp: slots_ok_def hub_world_def s' es)
  then show ?thesis using hub_moves_inv [OF inv allowed hs] by (simp add: s')
qed

section \<open>Every reached state\<close>

lemma serve_start_inv: "server_inv K serve_start"
  by (rule server_invI) (auto simp: serve_start_def slots_ok_def hub_world_def new_def intro: at_start)

lemma server_inv_cong:
  assumes "server_inv K s" and "hub_life s' = hub_life s" "homes s' = homes s" "phone_conns s' = phone_conns s"
    and "handled s' = handled s" "inbox s' = inbox s" "serve_stopped s' = serve_stopped s"
  shows "server_inv K s'"
  using assms unfolding server_inv_def slots_ok_def hub_world_def by simp

lemma new_home_inv:
  assumes inv: "server_inv K s" and c: "home_conn_ok K (effects (hub_world s)) (length (homes s)) c" "h_told c = []"
  shows "server_inv K (s\<lparr>homes := homes s @ [c]\<rparr>)"
proof (rule server_invI)
  note D = server_invD [OF inv]
  show "home_conn_ok K (effects (hub_world (s\<lparr>homes := homes s @ [c]\<rparr>))) i (homes (s\<lparr>homes := homes s @ [c]\<rparr>) ! i)"
    if "i < length (homes (s\<lparr>homes := homes s @ [c]\<rparr>))" for i
    using that D(3) [of i] c(1) by (cases "i = length (homes s)") (simp_all add: nth_append)
  show "slots_ok (s\<lparr>homes := homes s @ [c]\<rparr>)" using D(2) by (simp add: slots_ok_def)
  show "sent_by (HomeTask i) (handled (s\<lparr>homes := homes s @ [c]\<rparr>) @ inbox (s\<lparr>homes := homes s @ [c]\<rparr>)) =
      (if i < length (homes (s\<lparr>homes := homes s @ [c]\<rparr>)) then h_told (homes (s\<lparr>homes := homes s @ [c]\<rparr>) ! i) else [])" for i
    using D(5) [of i] c(2) by (cases "i = length (homes s)") (simp_all add: nth_append split: if_splits)
qed (use server_invD [OF inv] in simp_all)

lemma new_phone_inv:
  assumes inv: "server_inv K s" and c: "phone_conn_ok K (effects (hub_world s)) (length (phone_conns s)) c" "p_told c = []"
  shows "server_inv K (s\<lparr>phone_conns := phone_conns s @ [c]\<rparr>)"
proof (rule server_invI)
  note D = server_invD [OF inv]
  show "phone_conn_ok K (effects (hub_world (s\<lparr>phone_conns := phone_conns s @ [c]\<rparr>))) j
      (phone_conns (s\<lparr>phone_conns := phone_conns s @ [c]\<rparr>) ! j)"
    if "j < length (phone_conns (s\<lparr>phone_conns := phone_conns s @ [c]\<rparr>))" for j
    using that D(4) [of j] c(1) by (cases "j = length (phone_conns s)") (simp_all add: nth_append)
  show "slots_ok (s\<lparr>phone_conns := phone_conns s @ [c]\<rparr>)"
    using D(2) by (fastforce simp: slots_ok_def)
  show "sent_by (PhoneTask j) (handled (s\<lparr>phone_conns := phone_conns s @ [c]\<rparr>) @ inbox (s\<lparr>phone_conns := phone_conns s @ [c]\<rparr>)) =
      (if j < length (phone_conns (s\<lparr>phone_conns := phone_conns s @ [c]\<rparr>))
       then p_told (phone_conns (s\<lparr>phone_conns := phone_conns s @ [c]\<rparr>) ! j) else [])" for j
    using D(6) [of j] c(2) by (cases "j = length (phone_conns s)") (simp_all add: nth_append split: if_splits)
qed (use server_invD [OF inv] in simp_all)

lemma accept_inv:
  assumes inv: "server_inv K s"
  shows "snorkel_accept ev s = Some s' \<Longrightarrow> server_inv K s'"
    and "phone_accept ev' s = Some s' \<Longrightarrow> server_inv K s'"
  by (cases ev; auto simp: snorkel_accept_def home_conn_ok_def speaks_def split: if_splits
        intro!: new_home_inv intro: inv server_inv_cong [OF inv])
    (cases ev'; auto simp: phone_accept_def phone_conn_ok_def speaks_def split: if_splits
        intro!: new_phone_inv intro: inv server_inv_cong [OF inv])

lemma serve_stop_inv:
  assumes inv: "server_inv K s" and step: "serve_stop s = Some s'"
  shows "server_inv K s'"
proof -
  note D = server_invD [OF inv]
  from step have s': "s' = post ServeTask [Shutdown]
      (s\<lparr>home_accepting := False, phone_accepting := False, serve_stopped := True\<rparr>)"
    by (simp add: serve_stop_def split: if_splits)
  have slots: "slots_ok s'" using D(2) by (simp add: slots_ok_def s')
  have sent: "set (sent_by ServeTask (handled s' @ inbox s')) \<subseteq> {Shutdown}"
    using D(7) by (auto simp: s' sent_def)
  show ?thesis by (rule server_invI [OF _ slots _ _ _ _ sent]) (use D in \<open>simp_all add: s' sent_def\<close>)
qed

lemma server_step_inv:
  assumes inv: "server_inv K s" and allowed: "server_allowed K s e" and step: "server_step K s e s'"
  shows "server_inv K s'"
proof (cases e)
  case StopSet
  then show ?thesis using step by (auto simp: server_step_def intro: server_inv_cong [OF inv])
qed (use step allowed in \<open>auto simp: server_step_def intro: accept_inv [OF inv] home_handshake_inv [OF inv]
    home_bound_inv [OF inv] home_turn_at_inv [OF inv] phone_handshake_inv [OF inv] phone_bound_inv [OF inv]
    phone_turn_at_inv [OF inv] hub_recv_inv [OF inv] hub_timer_inv [OF inv] serve_stop_inv [OF inv]\<close>)

interpretation server_loop: safe_system serve_start "server_step K" "server_allowed K" "server_inv K"
  by unfold_locales (rule serve_start_inv, erule (2) server_step_inv)

text \<open>Nothing stops before the flag is set: neither \<open>serve\<close> nor an accept loop.\<close>

definition stops_on_flag :: "server \<Rightarrow> bool" where
  "stops_on_flag s \<longleftrightarrow> serve_stopped s \<or> \<not> home_accepting s \<or> \<not> phone_accepting s \<longrightarrow> stop_flag s"

lemma step_stops_on_flag:
  assumes "stops_on_flag s" and "server_step K s e s'"
  shows "stops_on_flag s'"
proof (cases e)
  case (HomeAccept ev)
  then show ?thesis using assms
    by (cases ev) (auto simp: server_step_def stops_on_flag_def snorkel_accept_def split: if_splits)
next
  case (PhoneAccept ev)
  then show ?thesis using assms
    by (cases ev) (auto simp: server_step_def stops_on_flag_def phone_accept_def split: if_splits)
qed (use assms in \<open>auto simp: server_step_def stops_on_flag_def post_def home_handshake_def home_bound_def home_turn_at_def
    phone_handshake_def phone_bound_def phone_turn_at_def hub_recv_def hub_timer_def serve_stop_def Let_def
    split: if_splits option.splits home_stage.splits phone_stage.splits prod.splits list.splits\<close>)

interpretation server_stops: safe_system serve_start "server_step K" "server_allowed K" stops_on_flag
  by unfold_locales (simp add: stops_on_flag_def serve_start_def, erule (1) step_stops_on_flag)

end
