(* ===== verification/Server_Hub.thy ===== *)
theory Server_Hub
  imports Server_Invariant
begin

text \<open>
  How the server's steps look to the hub: it goes on by one step of its loop on the next message of
  the queue or on its timer, or not at all. What the hub holds of connections and phones (links and
  slots with their channels) belongs to the tasks that announced them.
\<close>

section \<open>Steps of the server\<close>

lemma server_step_hub:
  assumes "server_step K s e s'"
  shows "(hub_life s' = hub_life s \<and> handled s' = handled s \<and>
      length (homes s) \<le> length (homes s') \<and> length (phone_conns s) \<le> length (phone_conns s')) \<or>
    (\<exists>now who m. inbox s = (who, m) # inbox s' \<and> handled s' = handled s @ [(who, m)] \<and>
      homes s' = homes s \<and> phone_conns s' = phone_conns s \<and>
      hub_step (sv_env K) (hub_life s) (Recv now (Some m)) (hub_life s')) \<or>
    (\<exists>now. inbox s' = inbox s \<and> handled s' = handled s \<and> homes s' = homes s \<and> phone_conns s' = phone_conns s \<and>
      hub_step (sv_env K) (hub_life s) (Timer now) (hub_life s'))"
proof (cases e)
  case (HomeAccept ev)
  then show ?thesis using assms
    by (cases ev) (auto simp: server_step_def snorkel_accept_def split: if_splits)
next
  case (PhoneAccept ev)
  then show ?thesis using assms
    by (cases ev) (auto simp: server_step_def phone_accept_def split: if_splits)
next
  case (HomeHandshake i offer)
  then show ?thesis using assms
    by (auto simp: server_step_def home_handshake_def Let_def split: if_splits)
next
  case (HomeBound i)
  then show ?thesis using assms
    by (auto simp: server_step_def home_bound_def Let_def split: if_splits option.splits prod.splits)
next
  case (HomeTurn i k)
  then show ?thesis using assms
    by (auto simp: server_step_def home_turn_at_def Let_def split: if_splits option.splits home_stage.splits)
next
  case (PhoneHandshake j header ok')
  then show ?thesis using assms
    by (auto simp: server_step_def phone_handshake_def Let_def split: if_splits)
next
  case (PhoneBound j)
  then show ?thesis using assms
    by (auto simp: server_step_def phone_bound_def Let_def split: if_splits option.splits)
next
  case (PhoneTurn j k)
  then show ?thesis using assms
    by (auto simp: server_step_def phone_turn_at_def Let_def split: if_splits option.splits phone_stage.splits)
next
  case (HubRecv now)
  then show ?thesis using assms
    by (auto simp: server_step_def hub_recv_def hub_step_iff split: list.splits if_splits)
next
  case (HubTimer now)
  then show ?thesis using assms
    by (auto simp: server_step_def hub_timer_def hub_step_iff split: if_splits)
next
  case ServeStops
  then show ?thesis using assms by (auto simp: server_step_def serve_stop_def split: if_splits)
qed (use assms in \<open>auto simp: server_step_def\<close>)

lemma step_allowed:
  "server_allowed K s e \<Longrightarrow> loop_allowed (sv_env K) (hub_life s) k"
  by (cases "hub_life s") (simp_all add: server_allowed_def hub_world_def)

section \<open>The hub sees the queue in order\<close>

fun received :: "wake list \<Rightarrow> to_hub list" where
  "received [] = []"
| "received (Recv now (Some m) # ks) = m # received ks"
| "received (_ # ks) = received ks"

lemma received_append: "received (ks @ ls) = received ks @ received ls"
  by (induction ks rule: received.induct) simp_all

lemma runs_snoc:
  assumes "runs step allowed s ks u" and "step u k v" and "allowed u k"
  shows "runs step allowed s (ks @ [k]) v"
  using assms by (induction rule: runs.induct) (auto simp: runs_Cons_iff)

lemma hub_sees_queue:
  assumes "server_reached K s"
  shows "\<exists>ks. hub_runs (sv_env K) (Running 0 new) ks (hub_life s) \<and> received ks = map snd (handled s)"
  using assms
proof (induction rule: reached.induct)
  case at_start
  show ?case by (rule exI [of _ "[]"]) (simp add: serve_start_def)
next
  case (one_more s e s')
  then obtain ks where ks: "hub_runs (sv_env K) (Running 0 new) ks (hub_life s)"
    "received ks = map snd (handled s)" by blast
  from server_step_hub [OF one_more(2)] show ?case
  proof (elim disjE exE conjE)
    fix now who m
    assume "handled s' = handled s @ [(who, m)]"
      and "hub_step (sv_env K) (hub_life s) (Recv now (Some m)) (hub_life s')"
    then show ?thesis using ks runs_snoc [OF ks(1) _ step_allowed [OF one_more(3)]]
      by (intro exI [of _ "ks @ [Recv now (Some m)]"]) (simp add: received_append)
  next
    fix now
    assume "handled s' = handled s" and "hub_step (sv_env K) (hub_life s) (Timer now) (hub_life s')"
    then show ?thesis using ks runs_snoc [OF ks(1) _ step_allowed [OF one_more(3)]]
      by (intro exI [of _ "ks @ [Timer now]"]) (simp add: received_append)
  qed (use ks in auto)
qed

section \<open>Who a message is from\<close>

lemma reached_server_inv: "server_reached K s \<Longrightarrow> server_inv K s"
  by (rule server_loop.always_safe)

lemma server_binds_ok: "server_inv K s \<Longrightarrow> binds_ok (hub_world s)"
  unfolding hub_world_def by (rule reached_binds_ok) (rule server_invD(1))

lemma gen_unique:
  assumes inv: "server_inv K s" and "i < length (homes s)" and "k < length (homes s)"
    and "h_gen (homes s ! i) = Some g" and "h_gen (homes s ! k) = Some g"
  shows "i = k"
proof -
  have "BindHome (home_bind i) g \<in> set (effects (hub_world s))" "BindHome (home_bind k) g \<in> set (effects (hub_world s))"
    using server_invD(3) [OF inv assms(2)] server_invD(3) [OF inv assms(3)] assms(4,5) by (simp_all add: home_conn_ok_def)
  then have "home_bind i = home_bind k" using server_binds_ok [OF inv] unfolding binds_ok_def by blast
  then show ?thesis by simp
qed

lemma id_unique:
  assumes inv: "server_inv K s" and "i < length (phone_conns s)" and "k < length (phone_conns s)"
    and "p_id (phone_conns s ! i) = Some p" and "p_id (phone_conns s ! k) = Some p"
  shows "i = k"
proof -
  have "BindPhone (phone_bind i) p \<in> set (effects (hub_world s))" "BindPhone (phone_bind k) p \<in> set (effects (hub_world s))"
    using server_invD(4) [OF inv assms(2)] server_invD(4) [OF inv assms(3)] assms(4,5) by (simp_all add: phone_conn_ok_def)
  then have "phone_bind i = phone_bind k" using server_binds_ok [OF inv] unfolding binds_ok_def by blast
  then show ?thesis by simp
qed

text \<open>A message under an identity is from the task that has this identity.\<close>

lemma gen_sender:
  assumes inv: "server_inv K s" and m: "(who, m) \<in> set (handled s @ inbox s)" and g: "msg_gen m = Some g"
  shows "\<exists>i < length (homes s). who = HomeTask i \<and> h_gen (homes s ! i) = Some g"
proof (cases who)
  case (HomeTask i)
  then show ?thesis using who_said [OF inv m] g by auto
next
  case (PhoneTask j)
  have "msg_phone m = None" using g by (cases m) simp_all
  then show ?thesis using PhoneTask who_said [OF inv m] g by auto
next
  case ServeTask
  then show ?thesis using who_said [OF inv m] g by auto
qed

lemma id_sender:
  assumes inv: "server_inv K s" and m: "(who, m) \<in> set (handled s @ inbox s)" and p: "msg_phone m = Some p"
  shows "\<exists>j < length (phone_conns s). who = PhoneTask j \<and> p_id (phone_conns s ! j) = Some p"
proof (cases who)
  case (HomeTask i)
  have "msg_gen m = None" using p by (cases m) simp_all
  then show ?thesis using HomeTask who_said [OF inv m] p by auto
next
  case (PhoneTask j)
  then show ?thesis using who_said [OF inv m] p by auto
next
  case ServeTask
  then show ?thesis using who_said [OF inv m] p by auto
qed

lemma filter_by_sender:
  assumes "\<And>who' m. (who', m) \<in> set q \<Longrightarrow> P m \<Longrightarrow> who' = who"
  shows "filter P (map snd q) = filter P (sent_by who q)"
  using assms
proof (induction q)
  case (Cons x q)
  then have "P (snd x) \<Longrightarrow> fst x = who" by (metis list.set_intros(1) prod.collapse)
  moreover have "filter P (map snd q) = filter P (sent_by who q)" using Cons by (meson list.set_intros(2))
  ultimately show ?case by auto
qed simp

text \<open>All that goes by an identity, in the queue or handled, is what its task told after the announcement.\<close>

lemma gen_messages:
  assumes inv: "server_inv K s" and i: "i < length (homes s)" and g: "h_gen (homes s ! i) = Some g"
  shows "filter (\<lambda>m. msg_gen m = Some g) (map snd (handled s @ inbox s)) = tl (h_told (homes s ! i))"
proof -
  have "filter (\<lambda>m. msg_gen m = Some g) (map snd (handled s @ inbox s)) =
      filter (\<lambda>m. msg_gen m = Some g) (sent_by (HomeTask i) (handled s @ inbox s))"
    using gen_sender [OF inv] gen_unique [OF inv i _ g] by (intro filter_by_sender) blast
  also have "\<dots> = filter (\<lambda>m. msg_gen m = Some g) (h_told (homes s ! i))"
    using server_invD(5) [OF inv, of i] i by simp
  also have "\<dots> = tl (h_told (homes s ! i))"
    using server_invD(3) [OF inv i] g by (auto simp: home_conn_ok_def speaks_def filter_id_conv)
  finally show ?thesis .
qed

lemma id_messages:
  assumes inv: "server_inv K s" and j: "j < length (phone_conns s)" and p: "p_id (phone_conns s ! j) = Some p"
  shows "filter (\<lambda>m. msg_phone m = Some p) (map snd (handled s @ inbox s)) = tl (p_told (phone_conns s ! j))"
proof -
  have "filter (\<lambda>m. msg_phone m = Some p) (map snd (handled s @ inbox s)) =
      filter (\<lambda>m. msg_phone m = Some p) (sent_by (PhoneTask j) (handled s @ inbox s))"
    using id_sender [OF inv] id_unique [OF inv j _ p] by (intro filter_by_sender) blast
  also have "\<dots> = filter (\<lambda>m. msg_phone m = Some p) (p_told (phone_conns s ! j))"
    using server_invD(6) [OF inv, of j] j by simp
  also have "\<dots> = tl (p_told (phone_conns s ! j))"
    using server_invD(4) [OF inv j] p by (auto simp: phone_conn_ok_def speaks_def filter_id_conv)
  finally show ?thesis .
qed

section \<open>Links and slots belong to the tasks that announced them\<close>

definition links :: "service \<Rightarrow> link set" where
  "links x = set_option (serving x) \<union> fst ` set_option (candidate x)"

lemma service_step_links:
  assumes "service_step W x c dropped x'"
  shows "links x' \<subseteq> links x \<union> (case c of NewConnection n \<Rightarrow> {n} | _ \<Rightarrow> {})"
  using assms by (cases rule: service_step.cases) (auto simp: links_def)

definition links_ok :: "server \<Rightarrow> bool" where
  "links_ok s \<longleftrightarrow> (\<forall>l \<in> links (service_of (home (hub_world s))).
     \<exists>i < length (homes s). out l = home_out i \<and> halt l = Some (home_halt i) \<and>
       BindHome (home_bind i) (home_gen l) \<in> set (effects (hub_world s)))"

lemma accepted_sender:
  assumes "server_inv K s" and "(who, Accepted o' h b) \<in> set (handled s @ inbox s)"
  shows "\<exists>i < length (homes s). who = HomeTask i \<and> o' = home_out i \<and> h = home_halt i \<and> b = home_bind i"
  using who_said [OF assms] by (cases who) (auto simp: home_hello_def phone_hello_def)

lemma links_ok_step:
  assumes inv: "server_inv K s" and ok: "links_ok s" and m: "(who, m) \<in> set (handled s @ inbox s)"
    and es: "effects (hub_world s') = effects (hub_world s) @ es" "filter is_bind es = bind_of (hub_world s) m"
    and links: "links (service_of (home (hub_world s'))) \<subseteq>
      links (service_of (home (hub_world s))) \<union> (case cause_of (hub_world s) m of NewConnection n \<Rightarrow> {n} | _ \<Rightarrow> {})"
    and len: "length (homes s) \<le> length (homes s')"
  shows "links_ok s'"
  unfolding links_ok_def
proof
  fix l
  assume "l \<in> links (service_of (home (hub_world s')))"
  with links consider (old) "l \<in> links (service_of (home (hub_world s)))"
    | (fresh) "l \<in> (case cause_of (hub_world s) m of NewConnection n \<Rightarrow> {n} | _ \<Rightarrow> {})" by blast
  then show "\<exists>i < length (homes s'). out l = home_out i \<and> halt l = Some (home_halt i) \<and>
      BindHome (home_bind i) (home_gen l) \<in> set (effects (hub_world s'))"
  proof cases
    case old
    then obtain i where "i < length (homes s)" "out l = home_out i" "halt l = Some (home_halt i)"
      "BindHome (home_bind i) (home_gen l) \<in> set (effects (hub_world s))"
      using ok unfolding links_ok_def by blast
    with es(1) len show ?thesis by (intro exI [of _ i]) simp
  next
    case fresh
    then obtain o' h b where m': "m = Accepted o' h b" by (cases m) simp_all
    then obtain i where i: "i < length (homes s)" "o' = home_out i" "h = home_halt i" "b = home_bind i"
      using accepted_sender [OF inv, of who o' h b] m by auto
    from es(2) m' have "BindHome b (HomeGen (gen_num (next_gen (hub_world s)) + 1)) \<in> set es"
      by (auto simp: filter_eq_Cons_iff)
    with fresh m' i es(1) len show ?thesis by (intro exI [of _ i]) simp
  qed
qed

lemma reached_links_ok: "server_reached K s \<Longrightarrow> links_ok s"
proof (induction rule: reached.induct)
  case at_start
  show ?case by (simp add: links_ok_def links_def serve_start_def hub_world_def new_def)
next
  case (one_more s e s')
  note inv = reached_server_inv [OF one_more(1)]
  have safe: "loop_safe (hub_life s)" by (rule hub_loop.always_safe) (rule server_invD(1) [OF inv])
  have room: "order_ok (sv_env K)" "counters_room (hub_world s)"
    using one_more(3) by (simp_all add: server_allowed_def)
  from server_step_hub [OF one_more(2)] show ?case
  proof (elim disjE exE conjE)
    assume "hub_life s' = hub_life s" and "length (homes s) \<le> length (homes s')"
    then show ?thesis using one_more(4) by (fastforce simp: links_ok_def hub_world_def)
  next
    fix now who m
    assume q: "inbox s = (who, m) # inbox s'" and hs: "homes s' = homes s"
      and step: "hub_step (sv_env K) (hub_life s) (Recv now (Some m)) (hub_life s')"
    show ?thesis
    proof (cases "m = Shutdown")
      case True
      then show ?thesis using step by (auto simp: links_ok_def links_def hub_world_def elim!: hub_step_elim)
    next
      case False
      then obtain t w where w: "hub_life s = Running t w" "hub_life s' = Running now (handle (sv_env K) now m w)"
        using step by (auto elim!: hub_step_elim)
      have "hub_inv w" using safe w by simp
      then have "serves_as (cause_of w m) w (handle (sv_env K) now m w)"
        using room w False by (intro handle_serves) (auto simp: hub_world_def dest: hub_invD)
      then have L: "links (service_of (home (handle (sv_env K) now m w))) \<subseteq>
          links (service_of (home w)) \<union> (case cause_of w m of NewConnection n \<Rightarrow> {n} | _ \<Rightarrow> {})"
        unfolding serves_as_def using service_step_links by blast
      obtain es where "effects (handle (sv_env K) now m w) = effects w @ es" "filter is_bind es = bind_of w m"
        using handle_effects by blast
      then show ?thesis using links_ok_step [OF inv one_more(4), of who m s'] q hs L w
        by (simp add: hub_world_def)
    qed
  next
    fix now
    assume hs: "homes s' = homes s" and step: "hub_step (sv_env K) (hub_life s) (Timer now) (hub_life s')"
    then obtain t w where w: "hub_life s = Running t w" "hub_life s' = Running now (on_deadline w)"
      by (auto elim!: hub_step_elim)
    then have "serves_as DeadlinePassed w (on_deadline w)" using safe by (auto intro: on_deadline_serves hub_invD)
    then have "links (service_of (home (on_deadline w))) \<subseteq> links (service_of (home w))"
      unfolding serves_as_def using service_step_links by fastforce
    moreover obtain es where "effects (on_deadline w) = effects w @ es" using quiet_turns(1) by (auto simp: quiet_def)
    ultimately show ?thesis using one_more(4) w hs by (fastforce simp: links_ok_def hub_world_def)
  qed
qed

section \<open>One identity per announcement\<close>

definition announces :: "chan \<Rightarrow> to_hub \<Rightarrow> bool" where
  "announces b m \<longleftrightarrow> (case m of Accepted o' h b' \<Rightarrow> b' = b | PhoneHello o' b' \<Rightarrow> b' = b | _ \<Rightarrow> False)"

lemma announces_cases:
  assumes "announces b m"
  obtains o' h where "m = Accepted o' h b" | o' where "m = PhoneHello o' b"
  using assms by (auto simp: announces_def split: to_hub.splits)

fun binds_on :: "chan \<Rightarrow> effect \<Rightarrow> bool" where
  "binds_on b (BindHome b' g) \<longleftrightarrow> b' = b"
| "binds_on b (BindPhone b' p) \<longleftrightarrow> b' = b"
| "binds_on b _ \<longleftrightarrow> False"

lemma binds_on_filter: "filter (binds_on b) es = filter (binds_on b) (filter is_bind es)"
  by (simp, rule filter_cong) (auto elim: is_bind.elims binds_on.elims)

lemma handle_binds_on:
  "length (filter (binds_on b) (effects (handle E now m w))) =
   length (filter (binds_on b) (effects w)) + (if announces b m then 1 else 0)"
proof -
  obtain es where es: "effects (handle E now m w) = effects w @ es" "filter is_bind es = bind_of w m"
    using handle_effects by blast
  have "filter (binds_on b) es = filter (binds_on b) (bind_of w m)"
    unfolding binds_on_filter [of b es] es(2) ..
  moreover have "length (filter (binds_on b) (bind_of w m)) = (if announces b m then 1 else 0)"
    by (cases m) (simp_all add: announces_def)
  ultimately show ?thesis by (simp only: es(1) filter_append length_append)
qed

lemma quiet_binds_on:
  assumes "quiet E w w'"
  shows "filter (binds_on b) (effects w') = filter (binds_on b) (effects w)"
proof -
  obtain es where es: "effects w' = effects w @ es" "filter is_bind es = []" using assms unfolding quiet_def plain_def by blast
  show ?thesis using binds_on_filter [of b es] by (simp add: es)
qed

lemma binds_counted:
  assumes "server_reached K s"
  shows "length (filter (binds_on b) (effects (hub_world s))) = length (filter (announces b) (map snd (handled s)))"
  using assms
proof (induction rule: reached.induct)
  case at_start
  show ?case by (simp add: serve_start_def hub_world_def new_def)
next
  case (one_more s e s')
  from server_step_hub [OF one_more(2)] show ?case
  proof (elim disjE exE conjE)
    fix now who m
    assume "handled s' = handled s @ [(who, m)]"
      and "hub_step (sv_env K) (hub_life s) (Recv now (Some m)) (hub_life s')"
    then show ?thesis using one_more(4) quiet_binds_on [OF quiet_turns(2)]
      by (auto simp: hub_world_def handle_binds_on announces_def elim!: hub_step_elim)
  next
    fix now
    assume "handled s' = handled s" and "hub_step (sv_env K) (hub_life s) (Timer now) (hub_life s')"
    then show ?thesis using one_more(4) quiet_binds_on [OF quiet_turns(1)]
      by (auto simp: hub_world_def elim!: hub_step_elim)
  qed (use one_more(4) in \<open>simp add: hub_world_def\<close>)
qed

lemma speaks_once:
  assumes "speaks hello ident x told" and "\<And>m. announces b m \<Longrightarrow> ident m = None"
  shows "length (filter (announces b) told) \<le> 1"
proof (cases "told = []")
  case False
  then obtain rest where r: "told = hello # rest" "\<forall>m \<in> set rest. ident m \<noteq> None"
    using assms(1) unfolding speaks_def by metis
  then have "filter (announces b) rest = []"
    using assms(2) by (fastforce simp: filter_empty_conv)
  then show ?thesis by (simp add: r(1))
qed simp

lemma announces_ident: "announces b m \<Longrightarrow> msg_gen m = None \<and> msg_phone m = None"
  by (erule announces_cases) simp_all

lemma home_speaks:
  "server_inv K s \<Longrightarrow> i < length (homes s) \<Longrightarrow>
   speaks (home_hello i) msg_gen (h_gen (homes s ! i)) (h_told (homes s ! i))"
  using server_invD(3) [of K s i] by (simp add: home_conn_ok_def)

lemma phone_speaks:
  "server_inv K s \<Longrightarrow> j < length (phone_conns s) \<Longrightarrow>
   speaks (phone_hello j) msg_phone (p_id (phone_conns s ! j)) (p_told (phone_conns s ! j))"
  using server_invD(4) [of K s j] by (simp add: phone_conn_ok_def)

lemma announced_once:
  assumes inv: "server_inv K s"
  shows "length (filter (announces (home_bind i)) (map snd (handled s @ inbox s))) \<le> 1"
    and "length (filter (announces (phone_bind j)) (map snd (handled s @ inbox s))) \<le> 1"
proof -
  have apart: "home_bind i \<noteq> phone_bind k" for i k by (simp add: chan_defs) presburger
  have home: "who = HomeTask i" if q: "(who, m) \<in> set (handled s @ inbox s)" and n: "announces (home_bind i) m" for who m
    using n
  proof (rule announces_cases)
    fix o' h
    assume "m = Accepted o' h (home_bind i)"
    then obtain k where "who = HomeTask k" "home_bind i = home_bind k" using accepted_sender [OF inv] q by blast
    then show ?thesis by simp
  next
    fix o'
    assume "m = PhoneHello o' (home_bind i)"
    then obtain k where "home_bind i = phone_bind k" using hello_sender [OF inv] q by blast
    then show ?thesis using apart by simp
  qed
  have phone: "who = PhoneTask j" if q: "(who, m) \<in> set (handled s @ inbox s)" and n: "announces (phone_bind j) m" for who m
    using n
  proof (rule announces_cases)
    fix o' h
    assume "m = Accepted o' h (phone_bind j)"
    then obtain k where "home_bind k = phone_bind j" using accepted_sender [OF inv] q by metis
    then show ?thesis using apart by simp
  next
    fix o'
    assume "m = PhoneHello o' (phone_bind j)"
    then obtain k where "who = PhoneTask k" "phone_bind j = phone_bind k" using hello_sender [OF inv] q by blast
    then show ?thesis by simp
  qed
  have "length (filter (announces (home_bind i)) (sent_by (HomeTask i) (handled s @ inbox s))) \<le> 1"
    using home_speaks [OF inv] speaks_once [where ident = msg_gen] announces_ident
    by (cases "i < length (homes s)") (metis server_invD(5) [OF inv], simp add: server_invD(5) [OF inv] del: sent_by_simps)
  then show "length (filter (announces (home_bind i)) (map snd (handled s @ inbox s))) \<le> 1"
    using filter_by_sender [of "handled s @ inbox s" "announces (home_bind i)" "HomeTask i"] home by metis
  have "length (filter (announces (phone_bind j)) (sent_by (PhoneTask j) (handled s @ inbox s))) \<le> 1"
    using phone_speaks [OF inv] speaks_once [where ident = msg_phone] announces_ident
    by (cases "j < length (phone_conns s)") (metis server_invD(6) [OF inv], simp add: server_invD(6) [OF inv] del: sent_by_simps)
  then show "length (filter (announces (phone_bind j)) (map snd (handled s @ inbox s))) \<le> 1"
    using filter_by_sender [of "handled s @ inbox s" "announces (phone_bind j)" "PhoneTask j"] phone by metis
qed

lemma only_one:
  assumes "length (filter P xs) \<le> 1" and "x \<in> set xs" "P x" "y \<in> set xs" "P y"
  shows "x = y"
proof -
  have "x \<in> set (filter P xs)" "y \<in> set (filter P xs)" using assms by simp_all
  then show ?thesis using assms(1) by (cases "filter P xs") auto
qed

lemma bound_once:
  assumes "server_reached K s"
  shows "BindHome (home_bind i) g \<in> set (effects (hub_world s)) \<Longrightarrow>
      BindHome (home_bind i) g' \<in> set (effects (hub_world s)) \<Longrightarrow> g = g'"
    and "BindPhone (phone_bind j) p \<in> set (effects (hub_world s)) \<Longrightarrow>
      BindPhone (phone_bind j) p' \<in> set (effects (hub_world s)) \<Longrightarrow> p = p'"
proof -
  note inv = reached_server_inv [OF assms]
  have "length (filter (binds_on (home_bind i)) (effects (hub_world s))) \<le> 1"
    "length (filter (binds_on (phone_bind j)) (effects (hub_world s))) \<le> 1"
    using announced_once(1) [OF inv, of i] announced_once(2) [OF inv, of j] by (simp_all add: binds_counted [OF assms])
  then show "BindHome (home_bind i) g \<in> set (effects (hub_world s)) \<Longrightarrow>
      BindHome (home_bind i) g' \<in> set (effects (hub_world s)) \<Longrightarrow> g = g'"
    and "BindPhone (phone_bind j) p \<in> set (effects (hub_world s)) \<Longrightarrow>
      BindPhone (phone_bind j) p' \<in> set (effects (hub_world s)) \<Longrightarrow> p = p'"
    using only_one by fastforce+
qed

end
