(* ===== verification/Server_Demo.thy ===== *)
theory Server_Demo
  imports Server_Hub Demo
begin

text \<open>
  A concrete run of the server: a home connection and a phone come in, the home connection sends a
  frame and the phone a text that is no JSON, and the hub's answer goes out to the phone.
\<close>

fun all_allowed :: "server_env \<Rightarrow> server \<Rightarrow> server_event list \<Rightarrow> bool" where
  "all_allowed K s [] \<longleftrightarrow> True"
| "all_allowed K s (e # es) \<longleftrightarrow> server_allowed K s e \<and>
     (case server_next K s e of None \<Rightarrow> True | Some s' \<Rightarrow> all_allowed K s' es)"

lemma run_reached:
  "run_server K s es = Some s' \<Longrightarrow> all_allowed K s es \<Longrightarrow> server_reached K s \<Longrightarrow> server_reached K s'"
proof (induction es arbitrary: s)
  case (Cons e es)
  then obtain u where u: "server_next K s e = Some u" "run_server K u es = Some s'"
    by (auto simp: bind_eq_Some_conv)
  have step: "server_step K s e u" and ok: "server_allowed K s e" and rest: "all_allowed K u es"
    using u(1) Cons.prems(2) by (simp_all add: server_step_def)
  from u(2) rest one_more [OF Cons.prems(3) step ok] show ?case by (rule Cons.IH)
qed simp

definition demo_offer :: tls_offer where
  "demo_offer = \<lparr>presented = Some (1 # as_bytes ''pin'', []), offered_at = 0, handshake_rest = []\<rparr>"

definition demo_accepts :: "server_tls \<Rightarrow> tls_offer \<Rightarrow> bool" where
  "demo_accepts tls offer \<longleftrightarrow> (case presented offer of
     None \<Rightarrow> False
   | Some (c, chain) \<Rightarrow> verify_client_cert (client_verifier tls) c chain (offered_at offer) = Inr ())"

definition demo_server :: "server_tls \<Rightarrow> bytes \<Rightarrow> server_env" where
  "demo_server tls token =
     \<lparr>sv_codec = demo_codec\<lparr>to_vec := (\<lambda>_. Some [9])\<rparr>, sv_env = demo_env [], sv_tls = tls, sv_token = token,
      tls_accepts = demo_accepts\<rparr>"

definition demo_sink :: writer where
  "demo_sink = \<lparr>w_data = [], w_room = None, w_flush = None\<rparr>"

definition demo_come :: "server_event list" where
  "demo_come = [HomeAccept (Peer demo_sink), HomeHandshake 0 demo_offer, PhoneAccept (Peer ()),
     PhoneHandshake 0 (Some ''Bearer key'') True, HubRecv 0, HubRecv 0, HomeBound 0, PhoneBound 0]"

definition demo_talk :: "server_event list" where
  "demo_talk = [HomeTurn 0 (Arrive [0, 0, 0, 1, 82]), HomeTurn 0 PollRead,
     PhoneTurn 0 (Incoming (Got (Text ''x'')) True), HubRecv 0, HubRecv 0, PhoneTurn 0 (Outgoing (Some ''?'') True)]"

lemmas server_eval = snorkel_accept_def phone_accept_def home_handshake_def home_bound_def home_turn_at_def
  phone_handshake_def phone_bound_def phone_turn_at_def hub_recv_def home_start_def phone_start_def Let_def
  post_def sent_def hub_world_def link_gone_def serve_start_def

definition demo_stop :: "server_event list" where
  "demo_stop = [StopSet, ServeStops]"

lemmas demo_eval = demo_come_def demo_talk_def demo_stop_def server_eval demo_server_def demo_offer_def demo_accepts_def
  server_allowed_def counters_room_def has_room_def new_def on_accepted_def on_phone_hello_def emit_def demo_codec_def
  chan_defs write_frame_ok demo_sink_def MAX_FRAME_def serve_stop_def

text \<open>What is there when both have come and talked, and shutdown was seen.\<close>

definition demo_ends :: "server_env \<Rightarrow> server \<Rightarrow> bool" where
  "demo_ends K s \<longleftrightarrow> run_server K serve_start (demo_come @ demo_talk @ demo_stop) = Some s \<and>
     all_allowed K serve_start (demo_come @ demo_talk @ demo_stop) \<and>
     length (homes s) = 1 \<and> h_gen (homes s ! 0) = Some (HomeGen 1) \<and>
     h_wakes (homes s ! 0) = [Arrive [0, 0, 0, 1, 82], PollRead] \<and> h_sink (homes s ! 0) = demo_sink \<and>
     (\<exists>t. h_stage (homes s ! 0) = Looping t) \<and>
     h_told (homes s ! 0) = [home_hello 0, HomeFrame (HomeGen 1) LeaderReady] \<and>
     length (phone_conns s) = 1 \<and> p_id (phone_conns s ! 0) = Some (PhoneId 1) \<and>
     (\<exists>t. p_stage (phone_conns s ! 0) = PhoneLooping t \<and> phone_running t \<and> ws_out t = [Text ''?'']) \<and>
     p_told (phone_conns s ! 0) = [phone_hello 0, PhoneText (PhoneId 1) ''x''] \<and>
     serve_stopped s \<and> (\<exists>w. hub_life s = Running 0 w) \<and> inbox s = [(ServeTask, Shutdown)] \<and>
     handled s = [(HomeTask 0, home_hello 0), (PhoneTask 0, phone_hello 0),
       (HomeTask 0, HomeFrame (HomeGen 1) LeaderReady), (PhoneTask 0, PhoneText (PhoneId 1) ''x'')] \<and>
     p_wakes (phone_conns s ! 0) = [Incoming (Got (Text ''x'')) True, Outgoing (Some ''?'') True]"

lemma demo_comes:
  assumes "verify_client_cert (client_verifier tls) (1 # as_bytes ''pin'') [] 0 = Inr ()"
    and "phone_upgrade token (Some ''Bearer key'') = Accept"
  shows "\<exists>s. demo_ends (demo_server tls token) s"
  using assms
  by (simp add: demo_ends_def demo_eval poll_read_def read_frame_def read_exact_def from_be_bytes_def
     leader_msg_def tell_def on_home_frame_def role_of_def take_candidate_def on_leader_ready_def put_candidate_def
     on_phone_text_def parse_rpc_text_def demo_env_def send_phone_def rpc_error_def hm_insert_def hm_get_def
     order_ok_def home_hello_def phone_hello_def)

lemma demo_ends_reached: "demo_ends K s \<Longrightarrow> server_reached K s"
  unfolding demo_ends_def by (blast intro: run_reached at_start)

lemma demo_server_ends:
  assumes "load demo_library (demo_cli ''key'') = Some (Inr cfg)"
  shows "\<exists>s. demo_ends (demo_server (cfg_tls cfg) (cfg_token cfg)) s"
proof (rule demo_comes)
  have cfg: "cfg_token cfg = as_bytes ''key''"
    "client_verifier (cfg_tls cfg) = pinned_client_verifier demo_verifier (1 # as_bytes ''pin'')"
    using demo_load [of "''key''"] assms by auto
  show "verify_client_cert (client_verifier (cfg_tls cfg)) (1 # as_bytes ''pin'') [] 0 = Inr ()"
    by (simp add: cfg pinned_client_verifier_def pinned_verify_def demo_verifier_def)
  show "phone_upgrade (cfg_token cfg) (Some ''Bearer key'') = Accept"
    by (simp add: cfg phone_upgrade_def bearer_bytes_def token_eq_iff eq_ignore_ascii_case_def trim_def is_space_def)
qed

lemma demo_run:
  obtains cfg s where "load demo_library (demo_cli ''key'') = Some (Inr cfg)"
    and "demo_ends (demo_server (cfg_tls cfg) (cfg_token cfg)) s"
proof -
  obtain cfg where cfg: "load demo_library (demo_cli ''key'') = Some (Inr cfg)"
    using demo_load [of "''key''"] by auto
  with demo_server_ends [OF cfg] that show thesis by blast
qed

lemma demo_server_fields [simp]:
  "sv_tls (demo_server tls token) = tls" "sv_token (demo_server tls token) = token"
  "tls_accepts (demo_server tls token) = demo_accepts" "sv_env (demo_server tls token) = demo_env []"
  "sv_codec (demo_server tls token) = demo_codec\<lparr>to_vec := (\<lambda>_. Some [9])\<rparr>"
  by (simp_all add: demo_server_def)

lemma demo_endsD:
  assumes "demo_ends K s"
  shows "server_reached K s" and "0 < length (homes s)" and "h_gen (homes s ! 0) = Some (HomeGen 1)"
    and "h_wakes (homes s ! 0) = [Arrive [0, 0, 0, 1, 82], PollRead]" and "h_sink (homes s ! 0) = demo_sink"
    and "\<exists>t. h_stage (homes s ! 0) = Looping t"
    and "h_told (homes s ! 0) = [home_hello 0, HomeFrame (HomeGen 1) LeaderReady]"
    and "0 < length (phone_conns s)" and "p_id (phone_conns s ! 0) = Some (PhoneId 1)"
    and "\<exists>t. p_stage (phone_conns s ! 0) = PhoneLooping t \<and> phone_running t \<and> ws_out t = [Text ''?'']"
    and "p_told (phone_conns s ! 0) = [phone_hello 0, PhoneText (PhoneId 1) ''x'']"
    and "serve_stopped s" and "\<exists>w. hub_life s = Running 0 w" and "inbox s = [(ServeTask, Shutdown)]"
    and "handled s = [(HomeTask 0, home_hello 0), (PhoneTask 0, phone_hello 0),
       (HomeTask 0, HomeFrame (HomeGen 1) LeaderReady), (PhoneTask 0, PhoneText (PhoneId 1) ''x'')]"
    and "p_wakes (phone_conns s ! 0) = [Incoming (Got (Text ''x'')) True, Outgoing (Some ''?'') True]"
proof -
  show "server_reached K s" by (rule demo_ends_reached [OF assms])
  have "length (homes s) = 1" "length (phone_conns s) = 1"
    using assms unfolding demo_ends_def by blast+
  then show "0 < length (homes s)" "0 < length (phone_conns s)" by simp_all
qed (use assms [unfolded demo_ends_def] in blast)+

end
