(* ===== verification/Server_Service.thy ===== *)
theory Server_Service
  imports Server_Demo
begin

text \<open>
  The properties of the server as a whole: what reaches the hub and in which order, whose voice an
  identity is, who is let in, what a phone's socket carries, and how \<open>serve\<close> and \<open>main\<close> end.
\<close>

section \<open>Identities\<close>

text \<open>
  C7: The identity the hub gave a home connection is its own: no other connection has it, every
  message under it that the hub has handled or will handle is one this connection's task sent, in
  order; and the link the hub holds under it has this connection's channels, and no other link has.
\<close>

theorem home_speaks_for_itself:
  assumes "server_reached K s" and "i < length (homes s)" and "h_gen (homes s ! i) = Some g"
  shows "filter (\<lambda>m. msg_gen m = Some g) (map snd (handled s @ inbox s)) = tl (h_told (homes s ! i)) \<and>
    (\<forall>k < length (homes s). h_gen (homes s ! k) = Some g \<longrightarrow> k = i) \<and>
    (\<forall>l \<in> links (service_of (home (hub_world s))).
       (home_gen l = g \<longleftrightarrow> out l = home_out i) \<and> (home_gen l = g \<longrightarrow> halt l = Some (home_halt i)))"
proof (intro conjI allI impI ballI)
  note inv = reached_server_inv [OF assms(1)]
  show "filter (\<lambda>m. msg_gen m = Some g) (map snd (handled s @ inbox s)) = tl (h_told (homes s ! i))"
    by (rule gen_messages [OF inv assms(2,3)])
  show "k = i" if "k < length (homes s)" "h_gen (homes s ! k) = Some g" for k
    using gen_unique [OF inv assms(2) that(1) assms(3) that(2)] by simp
  fix l
  assume "l \<in> links (service_of (home (hub_world s)))"
  then obtain k where k: "out l = home_out k" "halt l = Some (home_halt k)"
    "BindHome (home_bind k) (home_gen l) \<in> set (effects (hub_world s))"
    using reached_links_ok [OF assms(1)] unfolding links_ok_def by blast
  have g: "BindHome (home_bind i) g \<in> set (effects (hub_world s))"
    using server_invD(3) [OF inv assms(2)] assms(3) by (simp add: home_conn_ok_def)
  have same: "home_gen l = g \<longleftrightarrow> k = i"
  proof
    assume "home_gen l = g"
    then have "home_bind k = home_bind i" using k(3) g server_binds_ok [OF inv] unfolding binds_ok_def by blast
    then show "k = i" by simp
  qed (use k(3) g bound_once(1) [OF assms(1)] in blast)
  then show "home_gen l = g \<longleftrightarrow> out l = home_out i" using k(1) by simp
  show "halt l = Some (home_halt i)" if "home_gen l = g" using same that k(2) by simp
qed

lemma home_speaks_for_itself_witness:
  "\<exists>(cfg :: config) s. demo_ends (demo_server (cfg_tls cfg) (cfg_token cfg)) s \<and>
    filter (\<lambda>m. msg_gen m = Some (HomeGen 1)) (map snd (handled s @ inbox s)) = [HomeFrame (HomeGen 1) LeaderReady]"
proof -
  obtain cfg s where "load demo_library (demo_cli ''key'') = Some (Inr cfg)"
    and s: "demo_ends (demo_server (cfg_tls cfg) (cfg_token cfg)) s" by (rule demo_run)
  have "filter (\<lambda>m. msg_gen m = Some (HomeGen 1)) (map snd (handled s @ inbox s)) = [HomeFrame (HomeGen 1) LeaderReady]"
    using home_speaks_for_itself [OF demo_endsD(1-3) [OF s]] by (simp only: demo_endsD(7) [OF s] list.sel)
  with s show ?thesis by blast
qed

text \<open>
  C8: The same for phones: no two connections share an identity, the messages under it are those
  of its task, and the slot the hub holds for it, and no other, has the connection's channel. What
  the phone's socket carries is, in order and unchanged, the beginning of what the hub has put on
  that channel, all that has been taken off it while the task runs.
\<close>

theorem phone_speaks_for_itself:
  assumes "server_reached K s" and "j < length (phone_conns s)" and "p_id (phone_conns s ! j) = Some p"
    and "p_stage (phone_conns s ! j) = PhoneLooping t"
    and "q = texts (phone_out_ch j) (effects (hub_world s))"
  shows "filter (\<lambda>m. msg_phone m = Some p) (map snd (handled s @ inbox s)) = tl (p_told (phone_conns s ! j)) \<and>
    (\<forall>k < length (phone_conns s). p_id (phone_conns s ! k) = Some p \<longrightarrow> k = j) \<and>
    (\<forall>p' slot. hm_get (phones (hub_world s)) p' = Some slot \<longrightarrow> (p' = p \<longleftrightarrow> phone_out slot = phone_out_ch j)) \<and>
    prefix (ws_texts (ws_out t)) q \<and>
    (phone_running t \<longrightarrow> ws_texts (ws_out t) = take (p_taken (phone_conns s ! j)) q)"
proof (intro conjI allI impI)
  note inv = reached_server_inv [OF assms(1)]
  note ok = server_invD(4) [OF inv assms(2)]
  show "filter (\<lambda>m. msg_phone m = Some p) (map snd (handled s @ inbox s)) = tl (p_told (phone_conns s ! j))"
    by (rule id_messages [OF inv assms(2,3)])
  show "k = j" if "k < length (phone_conns s)" "p_id (phone_conns s ! k) = Some p" for k
    using id_unique [OF inv assms(2) that(1) assms(3) that(2)] by simp
  fix p' slot
  assume slot: "hm_get (phones (hub_world s)) p' = Some slot"
  then obtain k where k: "phone_out slot = phone_out_ch k" "BindPhone (phone_bind k) p' \<in> set (effects (hub_world s))"
    using server_invD(2) [OF inv] unfolding slots_ok_def by blast
  have b: "BindPhone (phone_bind j) p \<in> set (effects (hub_world s))" using ok assms(3) by (simp add: phone_conn_ok_def)
  have "p' = p \<longleftrightarrow> k = j"
  proof
    assume "p' = p"
    then have "phone_bind k = phone_bind j" using k(2) b server_binds_ok [OF inv] unfolding binds_ok_def by blast
    then show "k = j" by simp
  qed (use k(2) b bound_once(2) [OF assms(1)] in blast)
  then show "p' = p \<longleftrightarrow> phone_out slot = phone_out_ch j" using k(1) by simp
next
  have l: "phone_loop (effects (hub_world s)) j (phone_conns s ! j) t"
    using server_invD(4) [OF reached_server_inv [OF assms(1)] assms(2)] assms(4) by (simp add: phone_conn_ok_def)
  then have "prefix (ws_texts (ws_out t)) (take (p_taken (phone_conns s ! j)) q)"
    using assms(5) by (simp add: phone_loop_def Let_def)
  then show "prefix (ws_texts (ws_out t)) q" using take_is_prefix prefix_order.trans by blast
  show "ws_texts (ws_out t) = take (p_taken (phone_conns s ! j)) q" if "phone_running t"
    using l that assms(5) by (simp add: phone_loop_def Let_def)
qed

lemma phone_speaks_for_itself_witness:
  "\<exists>(cfg :: config) s. demo_ends (demo_server (cfg_tls cfg) (cfg_token cfg)) s \<and>
    filter (\<lambda>m. msg_phone m = Some (PhoneId 1)) (map snd (handled s @ inbox s)) = [PhoneText (PhoneId 1) ''x''] \<and>
    prefix [''?''] (texts (phone_out_ch 0) (effects (hub_world s)))"
proof -
  obtain cfg s where "load demo_library (demo_cli ''key'') = Some (Inr cfg)"
    and s: "demo_ends (demo_server (cfg_tls cfg) (cfg_token cfg)) s" by (rule demo_run)
  obtain t where t: "p_stage (phone_conns s ! 0) = PhoneLooping t" "ws_out t = [Text ''?'']"
    using demo_endsD(10) [OF s] by blast
  note P = phone_speaks_for_itself [OF demo_endsD(1,8,9) [OF s] t(1) refl]
  from P have "filter (\<lambda>m. msg_phone m = Some (PhoneId 1)) (map snd (handled s @ inbox s)) = [PhoneText (PhoneId 1) ''x'']"
    by (simp only: demo_endsD(11) [OF s] list.sel)
  moreover from P have "prefix (ws_texts (ws_out t)) (texts (phone_out_ch 0) (effects (hub_world s)))" by blast
  ultimately show ?thesis using s by (auto simp: t(2))
qed

text \<open>
  C9: From the wire to the hub: as long as no write fell amid a frame, what the hub is given under
  a home connection's identity is exactly the frames its peer has sent in full, each decoded, in
  order, then at most the end of the connection; the other bytes are still held by its task.
\<close>

theorem frames_reach_hub:
  assumes "server_reached K s" and "i < length (homes s)" and "c = homes s ! i" and "h_gen c = Some g"
    and "h_stage c = Looping t"
    and "snd (home_start (sv_codec K) True (home_out i) (home_halt i) (home_bind i) True (Some g) (h_sink c)) = Some t0"
    and "all_undisturbed (sv_codec K) g (h_wakes c) t0"
  shows "\<exists>jsons bss tail. list_all2 (\<lambda>json bs. frame_bytes json = Some bs) jsons bss \<and>
    concat (map arrived_with (h_wakes c)) = concat bss @ taken_bytes t @ peer_bytes t \<and>
    filter (\<lambda>m. msg_gen m = Some g) (map snd (handled s @ inbox s)) =
      map (\<lambda>json. HomeFrame g (leader_msg (sv_codec K) json)) jsons @ tail \<and>
    (tail = [] \<or> (tail = [HomeEof g] \<and> \<not> running t))"
proof -
  note inv = reached_server_inv [OF assms(1)]
  have l: "home_loop K i c t" and told: "filter (\<lambda>m. msg_gen m = Some g) (map snd (handled s @ inbox s)) = tl (hub_told t)"
    using server_invD(3) [OF inv assms(2)] gen_messages [OF inv assms(2)] assms(3-5)
    by (auto simp: home_conn_ok_def home_loop_def)
  then have t: "t = home_turns (sv_codec K) g (h_wakes c) t0"
    using assms(4,6) by (auto simp: home_loop_def)
  have hello: "hub_told t0 = [home_hello i]" and "hub_open t0" "running t0" "peer_bytes t0 = []" "taken_bytes t0 = []"
    using assms(6) by (auto simp: home_start_def home_hello_def Let_def split: option.splits prod.splits sum.splits)
  then have "stream_ok (sv_codec K) g [home_hello i] [] t0" "hub_open t0"
    by (auto simp: hello told_frames_def intro: stream_okI [where jsons = "[]" and bss = "[]" and tail = "[]"])
  from home_turns_stream [OF this(1) assms(7) this(2)]
  have "stream_ok (sv_codec K) g [home_hello i] (concat (map arrived_with (h_wakes c))) t" by (simp add: t)
  then obtain jsons bss tail where s: "list_all2 (\<lambda>json bs. frame_bytes json = Some bs) jsons bss"
    "concat (map arrived_with (h_wakes c)) = concat bss @ taken_bytes t @ peer_bytes t"
    "hub_told t = [home_hello i] @ told_frames (sv_codec K) g jsons @ tail"
    "if running t then tail = [] else tail = [] \<or> tail = [HomeEof g]"
    by (rule stream_okE)
  then show ?thesis using told by (intro exI [of _ jsons] exI [of _ bss] exI [of _ tail])
    (auto simp: told_frames_def split: if_splits)
qed

lemma frames_reach_hub_witness:
  "\<exists>(cfg :: config) s jsons bss rest tail. demo_ends (demo_server (cfg_tls cfg) (cfg_token cfg)) s \<and>
    list_all2 (\<lambda>json bs. frame_bytes json = Some bs) jsons bss \<and>
    [0, 0, 0, 1, 82] = concat bss @ rest \<and>
    filter (\<lambda>m. msg_gen m = Some (HomeGen 1)) (map snd (handled s @ inbox s)) =
      map (\<lambda>json. HomeFrame (HomeGen 1) (leader_msg (demo_codec\<lparr>to_vec := (\<lambda>_. Some [9])\<rparr>) json)) jsons @ tail"
proof -
  obtain cfg s where "load demo_library (demo_cli ''key'') = Some (Inr cfg)"
    and s: "demo_ends (demo_server (cfg_tls cfg) (cfg_token cfg)) s" by (rule demo_run)
  obtain t where t: "h_stage (homes s ! 0) = Looping t" using demo_endsD(6) [OF s] by blast
  have start: "\<exists>t0. snd (home_start (demo_codec\<lparr>to_vec := (\<lambda>_. Some [9])\<rparr>) True (home_out 0) (home_halt 0) (home_bind 0)
      True (Some (HomeGen 1)) demo_sink) = Some t0"
    by (simp add: home_start_def Let_def write_frame_ok MAX_FRAME_def demo_sink_def)
  then obtain t0 where t0: "snd (home_start (demo_codec\<lparr>to_vec := (\<lambda>_. Some [9])\<rparr>) True (home_out 0) (home_halt 0)
      (home_bind 0) True (Some (HomeGen 1)) demo_sink) = Some t0" by blast
  have t0': "snd (home_start (sv_codec (demo_server (cfg_tls cfg) (cfg_token cfg))) True (home_out 0) (home_halt 0)
      (home_bind 0) True (Some (HomeGen 1)) (h_sink (homes s ! 0))) = Some t0"
    using t0 by (simp add: demo_endsD(5) [OF s])
  have calm: "all_undisturbed (sv_codec (demo_server (cfg_tls cfg) (cfg_token cfg))) (HomeGen 1) (h_wakes (homes s ! 0)) t0"
    by (simp add: demo_endsD(4) [OF s])
  from frames_reach_hub [OF demo_endsD(1,2) [OF s] refl demo_endsD(3) [OF s] t t0' calm]
  obtain jsons bss tail where "list_all2 (\<lambda>json bs. frame_bytes json = Some bs) jsons bss"
    "[0, 0, 0, 1, 82] = concat bss @ taken_bytes t @ peer_bytes t"
    "filter (\<lambda>m. msg_gen m = Some (HomeGen 1)) (map snd (handled s @ inbox s)) =
      map (\<lambda>json. HomeFrame (HomeGen 1) (leader_msg (demo_codec\<lparr>to_vec := (\<lambda>_. Some [9])\<rparr>) json)) jsons @ tail"
    by (auto simp: demo_endsD(4) [OF s])
  with s show ?thesis by blast
qed

text \<open>
  C5: From a phone's socket to the hub: what the hub's own run has received of this phone, and
  what still waits in the queue, is exactly the texts of its socket, in order and unchanged: all of
  them while its task runs, those up to the end when it has stopped, and then at most its end.
  Nothing else comes under its identity, whatever the other tasks do, and nothing twice.
\<close>

theorem texts_reach_hub:
  assumes "server_reached K s" and "j < length (phone_conns s)" and "c = phone_conns s ! j" and "p_id c = Some p"
    and "p_stage c = PhoneLooping t" and "HubGone \<notin> set (p_wakes c)"
  shows "\<exists>ks n tail. hub_runs (sv_env K) (Running 0 new) ks (hub_life s) \<and>
    filter (\<lambda>m. msg_phone m = Some p) (received ks @ map snd (inbox s)) =
      map (PhoneText p) (take n (incoming_texts (p_wakes c))) @ tail \<and>
    (if phone_running t then n = length (incoming_texts (p_wakes c)) \<and> tail = []
     else tail = [] \<or> tail = [PhoneEof p])"
proof -
  note inv = reached_server_inv [OF assms(1)]
  obtain ks where ks: "hub_runs (sv_env K) (Running 0 new) ks (hub_life s)" "received ks = map snd (handled s)"
    using hub_sees_queue [OF assms(1)] by blast
  have "phone_loop (effects (hub_world s)) j c t"
    using server_invD(4) [OF inv assms(2)] assms(3,5) by (simp add: phone_conn_ok_def)
  then obtain t0 where t: "t = fold (phone_turn p) (p_wakes c) t0" "phone_told t = p_told c"
    and t0: "phone_told t0 = [phone_hello j]" "phone_hub_open t0" "phone_running t0"
    using assms(4) by (auto simp: phone_loop_def)
  from phone_texts_told [OF assms(6) t0(2,3), of p] obtain n tail where
    n: "phone_told t = [phone_hello j] @ map (PhoneText p) (take n (incoming_texts (p_wakes c))) @ tail"
      "if phone_running t then n = length (incoming_texts (p_wakes c)) \<and> tail = [] else tail = [] \<or> tail = [PhoneEof p]"
    unfolding t(1) t0(1) by blast
  have "filter (\<lambda>m. msg_phone m = Some p) (received ks @ map snd (inbox s)) = tl (phone_told t)"
    using id_messages [OF inv assms(2)] assms(3,4) by (simp add: ks(2) t(2))
  then show ?thesis using ks(1) n by (intro exI [of _ ks] exI [of _ n] exI [of _ tail]) simp
qed

lemma texts_reach_hub_witness:
  "\<exists>(cfg :: config) s ks. demo_ends (demo_server (cfg_tls cfg) (cfg_token cfg)) s \<and>
    hub_runs (demo_env []) (Running 0 new) ks (hub_life s) \<and>
    filter (\<lambda>m. msg_phone m = Some (PhoneId 1)) (received ks @ map snd (inbox s)) = [PhoneText (PhoneId 1) ''x'']"
proof -
  obtain cfg s where "load demo_library (demo_cli ''key'') = Some (Inr cfg)"
    and s: "demo_ends (demo_server (cfg_tls cfg) (cfg_token cfg)) s" by (rule demo_run)
  obtain t where t: "p_stage (phone_conns s ! 0) = PhoneLooping t" "phone_running t" using demo_endsD(10) [OF s] by blast
  have calm: "HubGone \<notin> set (p_wakes (phone_conns s ! 0))" by (simp add: demo_endsD(16) [OF s])
  have "incoming_texts (p_wakes (phone_conns s ! 0)) = [''x'']"
    by (simp add: demo_endsD(16) [OF s] incoming_texts_def)
  with texts_reach_hub [OF demo_endsD(1,8) [OF s] refl demo_endsD(9) [OF s] t(1) calm] t(2)
  obtain ks where "hub_runs (demo_env []) (Running 0 new) ks (hub_life s)"
    "filter (\<lambda>m. msg_phone m = Some (PhoneId 1)) (received ks @ map snd (inbox s)) = [PhoneText (PhoneId 1) ''x'']"
    by (auto simp: demo_server_fields)
  with s show ?thesis by blast
qed

section \<open>Who is let in\<close>

text \<open>
  What \<open>rustls\<close> promises of a handshake it accepts for a configuration that demands a client
  certificate and keeps no sessions: a certificate was presented and the verifier accepted it. And
  of the verifier it builds from the roots: a certificate is demanded.
\<close>

definition handshake_law :: "(server_tls \<Rightarrow> tls_offer \<Rightarrow> bool) \<Rightarrow> bool" where
  "handshake_law A \<longleftrightarrow> (\<forall>tls offer. A tls offer \<longrightarrow> client_auth_mandatory (client_verifier tls) \<longrightarrow>
     \<not> stores_sessions tls \<longrightarrow> send_tls13_tickets tls = 0 \<longrightarrow>
     (\<exists>cert chain. presented offer = Some (cert, chain) \<and>
        verify_client_cert (client_verifier tls) cert chain (offered_at offer) = Inr ()))"

definition demands_certificate :: "topside_library \<Rightarrow> bool" where
  "demands_certificate L \<longleftrightarrow>
     (\<forall>roots v. client_verifier_of L roots = Inr v \<longrightarrow> client_auth_mandatory v)"

lemma pinned_handshake:
  assumes "load L cl = Some (Inr cfg)" and "handshake_law A" and "demands_certificate L" and "A (cfg_tls cfg) offer"
  shows "\<exists>leaf chain rest. presented offer = Some (leaf, chain) \<and> cert_file L (cli_client_cert cl) (leaf # rest)"
proof -
  from only_pinned_core [OF assms(1)] obtain roots inner leaf rest where
    inner: "client_verifier_of L roots = Inr (inner :: verifier)" and pin: "cert_file L (cli_client_cert cl) (leaf # rest)"
    and v: "\<forall>cert chain now. verify_client_cert (client_verifier (cfg_tls cfg)) cert chain now =
       (case verify_client_cert inner cert chain now of
          Inl e \<Rightarrow> Inl e
        | Inr _ \<Rightarrow> if cert = leaf then Inr () else Inl ApplicationVerificationFailure)"
    and m: "client_auth_mandatory (client_verifier (cfg_tls cfg)) = client_auth_mandatory inner"
    and s: "\<not> stores_sessions (cfg_tls cfg)" "send_tls13_tickets (cfg_tls cfg) = 0" by blast
  have "client_auth_mandatory inner" using assms(3) inner unfolding demands_certificate_def by blast
  then obtain cert chain where c: "presented offer = Some (cert, chain)"
    "verify_client_cert (client_verifier (cfg_tls cfg)) cert chain (offered_at offer) = Inr ()"
    using assms(2,4) m s unfolding handshake_law_def by blast
  from c(2) have "cert = leaf" unfolding v [rule_format] by (simp split: sum.splits if_splits)
  with c(1) pin show ?thesis by blast
qed

text \<open>
  C6: A server run on a configuration that was loaded listens to no one else: every message
  that ever comes to its hub, the announcements included, is from a home connection whose peer
  presented the very certificate that is pinned, from a phone whose upgrade carried the token, or
  is \<open>serve\<close>'s own order to stop.
\<close>

theorem only_let_in_heard:
  assumes "load L cl = Some (Inr cfg)" and "sv_tls K = cfg_tls cfg" and "sv_token K = cfg_token cfg"
    and "handshake_law (tls_accepts K)" and "demands_certificate L"
    and "server_reached K s" and "(who, m) \<in> set (handled s @ inbox s)"
  shows "case who of
      HomeTask i \<Rightarrow> (\<exists>offer leaf chain rest. h_offer (homes s ! i) = Some offer \<and>
        presented offer = Some (leaf, chain) \<and> cert_file L (cli_client_cert cl) (leaf # rest))
    | PhoneTask j \<Rightarrow> phone_upgrade (as_bytes (cli_token cl)) (p_header (phone_conns s ! j)) = Accept
    | ServeTask \<Rightarrow> m = Shutdown"
proof -
  note inv = reached_server_inv [OF assms(6)]
  note said = who_said [OF inv assms(7)]
  have token: "cfg_token cfg = as_bytes (cli_token cl)" using assms(1) unfolding load_eq by auto
  show ?thesis
  proof (cases who)
    case (HomeTask i)
    with said have i: "i < length (homes s)" "h_told (homes s ! i) \<noteq> []" by auto
    then obtain offer where "h_offer (homes s ! i) = Some offer" "tls_accepts K (cfg_tls cfg) offer"
      using server_invD(3) [OF inv i(1)] assms(2) by (auto simp: home_conn_ok_def)
    then show ?thesis using HomeTask pinned_handshake [OF assms(1,4,5), of offer] by simp
  next
    case (PhoneTask j)
    with said have j: "j < length (phone_conns s)" "p_told (phone_conns s ! j) \<noteq> []" by auto
    then have "phone_upgrade (cfg_token cfg) (p_header (phone_conns s ! j)) = Accept"
      using server_invD(4) [OF inv j(1)] assms(3) by (simp add: phone_conn_ok_def)
    then show ?thesis using PhoneTask token by simp
  next
    case ServeTask
    then show ?thesis using said by simp
  qed
qed

lemma demo_laws: "handshake_law demo_accepts" "demands_certificate demo_library"
  by (auto simp: handshake_law_def demo_accepts_def demands_certificate_def demo_library_def demo_verifier_def
      split: option.splits)

lemma only_let_in_heard_witness:
  "\<exists>(cfg :: config) s (offer :: tls_offer) leaf chain rest. demo_ends (demo_server (cfg_tls cfg) (cfg_token cfg)) s \<and>
    h_offer (homes s ! 0) = Some offer \<and> presented offer = Some (leaf, chain) \<and>
    cert_file demo_library ''pin'' (leaf # rest) \<and>
    phone_upgrade (as_bytes ''key'') (p_header (phone_conns s ! 0)) = Accept"
proof -
  obtain cfg s where cfg: "load demo_library (demo_cli ''key'') = Some (Inr cfg)"
    and s: "demo_ends (demo_server (cfg_tls cfg) (cfg_token cfg)) s" by (rule demo_run)
  have law: "handshake_law (tls_accepts (demo_server (cfg_tls cfg) (cfg_token cfg)))" by (simp add: demo_laws)
  note heard = only_let_in_heard [OF cfg _ _ law demo_laws(2) demo_endsD(1) [OF s]]
  have m: "(HomeTask 0, home_hello 0) \<in> set (handled s @ inbox s)" "(PhoneTask 0, phone_hello 0) \<in> set (handled s @ inbox s)"
    by (simp_all add: demo_endsD(15) [OF s])
  from heard [OF _ _ m(1)] obtain offer leaf chain rest where "h_offer (homes s ! 0) = Some offer"
    "presented offer = Some (leaf, chain)" "cert_file demo_library ''pin'' (leaf # rest)" by (auto simp: demo_cli_def)
  moreover from heard [OF _ _ m(2)] have "phone_upgrade (as_bytes ''key'') (p_header (phone_conns s ! 0)) = Accept"
    by (simp add: demo_cli_def)
  ultimately show ?thesis using s by blast
qed

section \<open>How it ends\<close>

lemma reached_not_panicked: "server_inv K s \<Longrightarrow> \<not> panicked (hub_world s)"
  using hub_loop.always_safe [OF server_invD(1), of K s]
  by (cases "hub_life s") (auto simp: hub_world_def dest: hub_invD)

lemma drain_to_shutdown:
  assumes "hub_life s = Running t w" and "\<not> panicked w" and "t \<le> now"
    and "inbox s = pre @ (who, Shutdown) # post'" and "\<forall>x \<in> set pre. snd x \<noteq> Shutdown"
  shows "\<exists>w' s'. run_server K s (replicate (length pre + 1) (HubRecv now)) = Some s' \<and>
    hub_life s' = loop_state.Stopped w' \<and> \<not> panicked w' \<and> serve_stopped s' = serve_stopped s \<and>
    handled s' = handled s @ pre @ [(who, Shutdown)] \<and> home w' = Away \<and> phones w' = []"
  using assms
proof (induction pre arbitrary: s t w)
  case Nil
  then show ?case by (simp add: hub_recv_def hub_world_def)
next
  case (Cons x pre)
  let ?w = "handle (sv_env K) now (snd x) w"
  let ?s = "s\<lparr>hub_life := Running now ?w, inbox := pre @ (who, Shutdown) # post', handled := handled s @ [x]\<rparr>"
  have step: "server_next K s (HubRecv now) = Some ?s"
    using Cons.prems by (simp add: hub_recv_def)
  have "\<not> panicked ?w" using Cons.prems(2) handle_panicked by simp
  from Cons.IH [of ?s now ?w] this Cons.prems(5)
  obtain w' s' where s': "run_server K ?s (replicate (length pre + 1) (HubRecv now)) = Some s' \<and>
    hub_life s' = loop_state.Stopped w' \<and> \<not> panicked w' \<and> serve_stopped s' = serve_stopped ?s \<and>
    handled s' = handled ?s @ pre @ [(who, Shutdown)] \<and> home w' = Away \<and> phones w' = []"
    by auto
  have "run_server K s (replicate (length (x # pre) + 1) (HubRecv now)) = run_server K ?s (replicate (length pre + 1) (HubRecv now))"
    using step by simp
  then show ?case using s' by (intro exI [of _ w'] exI [of _ s']) simp
qed

text \<open>
  C10: Once \<open>serve\<close> has seen shutdown, the hub needs only to go through what is in the queue up to
  the order to stop: then its loop has ended with every link and phone let go, and \<open>serve\<close> returns
  without an error. In no state does it return one.
\<close>

theorem shutdown_ends_serve:
  assumes "server_reached K s"
  shows "(\<forall>e. serve_result s \<noteq> Some (Inl e)) \<and>
    (serve_stopped s \<longrightarrow> (\<forall>w. hub_life s = loop_state.Stopped w \<longrightarrow> serve_result s = Some (Inr ())) \<and>
      (\<forall>t w now. hub_life s = Running t w \<longrightarrow> t \<le> now \<longrightarrow>
        (\<exists>n s' w'. n \<le> length (inbox s) \<and> run_server K s (replicate n (HubRecv now)) = Some s' \<and>
           hub_life s' = loop_state.Stopped w' \<and> home w' = Away \<and> phones w' = [] \<and>
           serve_result s' = Some (Inr ()))))"
proof -
  note inv = reached_server_inv [OF assms]
  note calm = reached_not_panicked [OF inv]
  have "\<exists>n s' w'. n \<le> length (inbox s) \<and> run_server K s (replicate n (HubRecv now)) = Some s' \<and>
      hub_life s' = loop_state.Stopped w' \<and> home w' = Away \<and> phones w' = [] \<and> serve_result s' = Some (Inr ())"
    if ss: "serve_stopped s" and l: "hub_life s = Running t w" and now: "t \<le> now" for t w now
  proof -
    have "(ServeTask, Shutdown) \<in> set (inbox s)"
      using server_invD(8) [OF inv ss] l calm by (simp add: hub_world_def)
    then have "\<exists>x \<in> set (inbox s). snd x = Shutdown" by force
    then obtain pre x post' where q: "inbox s = pre @ x # post'" "snd x = Shutdown" "\<forall>y \<in> set pre. snd y \<noteq> Shutdown"
      using split_list_first_prop [of "inbox s" "\<lambda>x. snd x = Shutdown"] by blast
    then obtain who where x: "x = (who, Shutdown)" by (cases x) simp
    obtain w' s' where s': "run_server K s (replicate (length pre + 1) (HubRecv now)) = Some s'"
      "hub_life s' = loop_state.Stopped w'" "\<not> panicked w'" "serve_stopped s'" "home w' = Away" "phones w' = []"
      using drain_to_shutdown [OF l _ now, of pre who post' K] q x calm l ss by (auto simp: hub_world_def)
    then show ?thesis using q(1)
      by (intro exI [of _ "length pre + 1"] exI [of _ s'] exI [of _ w']) (simp add: serve_result_def hub_world_def)
  qed
  moreover have "serve_result s \<noteq> Some (Inl e)" for e
    using calm by (simp add: serve_result_def split: loop_state.splits)
  moreover have "serve_result s = Some (Inr ())" if "serve_stopped s" "hub_life s = loop_state.Stopped w" for w
    using that calm by (simp add: serve_result_def hub_world_def)
  ultimately show ?thesis by blast
qed

lemma shutdown_ends_serve_witness:
  "\<exists>(cfg :: config) s n s'. demo_ends (demo_server (cfg_tls cfg) (cfg_token cfg)) s \<and> n \<le> 1 \<and>
    run_server (demo_server (cfg_tls cfg) (cfg_token cfg)) s (replicate n (HubRecv 5)) = Some s' \<and>
    serve_result s' = Some (Inr ())"
proof -
  obtain cfg s where "load demo_library (demo_cli ''key'') = Some (Inr cfg)"
    and s: "demo_ends (demo_server (cfg_tls cfg) (cfg_token cfg)) s" by (rule demo_run)
  obtain w where w: "hub_life s = Running 0 w" using demo_endsD(13) [OF s] by blast
  have "(0 :: instant) \<le> 5" by simp
  then obtain n s' where "n \<le> length (inbox s)" "serve_result s' = Some (Inr ())"
    "run_server (demo_server (cfg_tls cfg) (cfg_token cfg)) s (replicate n (HubRecv 5)) = Some s'"
    using shutdown_ends_serve [OF demo_endsD(1) [OF s]] demo_endsD(12) [OF s] w by blast
  moreover have "length (inbox s) = 1" by (simp add: demo_endsD(14) [OF s])
  ultimately show ?thesis using s by metis
qed

text \<open>
  C39: What topside exits with, at every moment of every run of its server: with 2 exactly for a bad
  configuration; with 1 exactly when it cannot install its signal handlers or bind its listeners;
  with 0 exactly when \<open>serve\<close> has stopped and its hub has ended, which is only ever so after the flag
  of the signals was set, and then every link and phone has been let go. In all other cases it goes
  on. It never panics.
\<close>

theorem topside_exit_status:
  assumes "server_reached K s" and "r = topside_main L cl signals O' os (\<lambda>sk rx. serve_result s)"
  shows "r \<in> {Some (Some 2), Some (Some 1), Some (Some 0), Some None} \<and>
    (r = Some (Some 2) \<longleftrightarrow> (\<exists>e. load L cl = Some (Inl e))) \<and>
    (r = Some (Some 1) \<longleftrightarrow> (\<exists>cfg. load L cl = Some (Inr cfg) \<and>
       ((\<exists>e. signals = Inl e) \<or> (\<exists>e. fst (bind_server O' cfg os) = Inl e)))) \<and>
    (r = Some (Some 0) \<longleftrightarrow>
       (\<exists>cfg rx sk. load L cl = Some (Inr cfg) \<and> signals = Inr rx \<and> fst (bind_server O' cfg os) = Inr sk) \<and>
       serve_stopped s \<and> (\<exists>w. hub_life s = loop_state.Stopped w)) \<and>
    (r = Some (Some 0) \<longrightarrow> stop_flag s \<and> home (hub_world s) = Away \<and> phones (hub_world s) = [])"
proof -
  note inv = reached_server_inv [OF assms(1)]
  note calm = reached_not_panicked [OF inv]
  have flag: "serve_stopped s \<Longrightarrow> stop_flag s"
    using server_stops.always_safe [OF assms(1)] by (simp add: stops_on_flag_def)
  have clean: "home w = Away \<and> phones w = []" if "hub_life s = loop_state.Stopped w" for w
    using hub_loop.always_safe [OF server_invD(1) [OF inv]] that by simp
  have res: "serve_result s = (if serve_stopped s \<and> (\<exists>w. hub_life s = loop_state.Stopped w) then Some (Inr ()) else None)"
    using calm by (simp add: serve_result_def split: loop_state.splits)
  show ?thesis
    using load_returns [of L cl] flag clean
    by (auto simp: assms(2) topside_main_def res hub_world_def split: option.splits sum.splits if_splits)
qed

definition demo_listeners :: "(nat, nat) listeners" where
  "demo_listeners = \<lparr>tcp_bind = (\<lambda>a os. (Inr os, os + 1)), local_addr = (\<lambda>l. Inr (demo_addr 1943))\<rparr>"

lemma quick_stop:
  "\<exists>s. server_reached (demo_server tls token) s \<and> serve_stopped s \<and> (\<exists>w. hub_life s = loop_state.Stopped w)"
proof -
  let ?K = "demo_server tls token"
  have "\<exists>s. run_server ?K serve_start [StopSet, ServeStops, HubRecv 0] = Some s \<and>
      all_allowed ?K serve_start [StopSet, ServeStops, HubRecv 0] \<and> serve_stopped s \<and>
      (\<exists>w. hub_life s = loop_state.Stopped w)"
    by (simp add: serve_start_def serve_stop_def post_def sent_def hub_recv_def server_allowed_def hub_world_def
        counters_room_def has_room_def new_def demo_server_def shutdown_def)
  then show ?thesis using run_reached [OF _ _ at_start] by blast
qed

lemma topside_exit_status_witness:
  "\<exists>s. topside_main demo_library (demo_cli ''key'') (Inr manual) demo_listeners 0 (\<lambda>sk rx. serve_result s) = Some (Some 0) \<and>
    stop_flag s \<and>
    topside_main demo_library (demo_cli '''') (Inr manual) demo_listeners 0 (\<lambda>sk rx. serve_result s) = Some (Some 2)"
proof -
  obtain cfg where cfg: "load demo_library (demo_cli ''key'') = Some (Inr cfg)"
    using demo_load [of "''key''"] by auto
  have bad: "load demo_library (demo_cli '''') = Some (Inl EmptyToken)" by (simp add: load_def demo_cli_def)
  have "\<exists>sk. fst (bind_server demo_listeners cfg 0) = Inr sk" by (simp add: bind_server_def demo_listeners_def)
  then obtain sk where sk: "fst (bind_server demo_listeners cfg 0) = Inr sk" ..
  obtain s where s: "server_reached (demo_server (cfg_tls cfg) (cfg_token cfg)) s" "serve_stopped s"
    "\<exists>w. hub_life s = loop_state.Stopped w" using quick_stop by blast
  have "topside_main demo_library (demo_cli ''key'') (Inr manual) demo_listeners 0 (\<lambda>sk rx. serve_result s) = Some (Some 0)"
    "stop_flag s"
    using topside_exit_status [OF s(1) refl, of demo_library "demo_cli ''key''" "Inr manual" demo_listeners 0] cfg sk s(2,3)
    by blast+
  moreover have "topside_main demo_library (demo_cli '''') (Inr manual) demo_listeners 0 (\<lambda>sk rx. serve_result s) = Some (Some 2)"
    using topside_exit_status [OF s(1) refl, of demo_library "demo_cli ''''" "Inr manual" demo_listeners 0] bad by blast
  ultimately show ?thesis by blast
qed

end
