(* ===== verification/Spec2Isabelle.thy ===== *)
theory Spec2Isabelle
  imports Hub_Requests Hub_Reverse Refusals Server_Service
begin

text \<open>
  A verification library for Aqualung: \<open>topside\<close>, the server phones and a home machine meet at, and
  \<open>snorkel\<close>, the process at home that carries a local socket to it.

  \<^bold>\<open>The program.\<close> A home connection and the phones reach topside over sockets. One task per socket
  (\<open>crates/topside/src/net.rs\<close>) turns it into messages for one hub task (\<open>hub.rs\<close>), which owns all
  the state: which home connection serves and which one is coming up to replace it, the phones, who
  watches and who drives a session, the requests that wait for a response, and the claims on
  requests home has made. The hub answers over unbounded channels. \<open>wire.rs\<close> holds the messages
  and the length-prefixed frames, \<open>config.rs\<close> the command line, the TLS files, the verifier that
  pins the client certificate, and the token comparison; \<open>lib.rs\<close> and \<open>main.rs\<close> bind the listeners
  and run \<open>serve\<close> until \<open>shutdown.rs\<close> says stop. Snorkel reads its own configuration
  (\<open>crates/snorkel/src/config.rs\<close>), dials with timeouts (\<open>endpoint.rs\<close>), copies bytes both ways
  (\<open>session.rs\<close>), and backs off between attempts (\<open>link.rs\<close>).

  \<^bold>\<open>How it is modelled.\<close> A handler of the hub is a function on the record \<open>world\<close>: the fields of
  \<open>struct Hub\<close>, the list of effects in the order they happen (what is put on a channel, a halt
  signal fired by the drop of a link), and a flag for a panic. The \<open>select!\<close> loops are step
  functions driven by what becomes ready. The whole server is the record \<open>server\<close>: the hub, the
  queue to it, every connection's task, and an event per turn of a task, so that a run of events is
  one interleaving. Counters are 64-bit words and wrap. Fallible code returns a sum, a panic is
  \<open>None\<close>. The JSON parser and printer, the derived codecs of the leader messages, the iteration
  order of hash sets, the random scaling of a delay, \<open>rustls\<close> and its PEM parsers, and the calls of
  the operating system are arguments of the definitions. The standard library's parsers of numbers
  and addresses are written out.

  \<^bold>\<open>The theories of shared parts.\<close>
  \<^item> \<open>Prelude\<close>: machine integers, instants, decimal rendering, room in a counter.
  \<^item> \<open>Collections\<close>: the interfaces \<open>map_adt\<close>, \<open>hash_map\<close>, \<open>ordered_map\<close>, \<open>set_adt\<close> and the lists
    that implement \<open>HashMap\<close>, \<open>HashSet\<close>, \<open>BTreeMap\<close>, \<open>BTreeSet\<close>.
  \<^item> \<open>Systems\<close>: the interfaces \<open>safe_system\<close> and \<open>refining_system\<close> of a state machine, the second
    with what its steps show, so that its traces are traces of the abstract system; the hub's
    loop is an instance of both (\<open>hub_loop\<close> in \<open>Hub_Invariant\<close>), the link of snorkel
    (\<open>snorkel_once\<close>) and the server (\<open>server_loop\<close>, \<open>server_stops\<close>) of the first.
  \<^item> \<open>Json\<close>, \<open>Wire\<close>, \<open>Frames\<close>: JSON values, \<open>wire.rs\<close>, and the frames, which are an instance of the
    interface \<open>framing\<close> (\<open>leader_frames\<close>): round trip, streams, size bounds.
  \<^item> \<open>Std_Net\<close>, \<open>Std_Net_Facts\<close>: the standard library's parsers of \<open>u16\<close>, IP addresses and socket
    addresses and their printed form, and that what is printed is read back.
  \<^item> \<open>Tls_Files\<close>: opening and reading PEM files, with the interface \<open>cert_files\<close> of a loader of
    certificates and roots; the loaders of both programs are instances (\<open>topside_files\<close>,
    \<open>snorkel_files\<close>).
  \<^item> \<open>Shutdown_Flag\<close>: \<open>shutdown.rs\<close>, which both programs have.

  \<^bold>\<open>The hub.\<close>
  \<^item> \<open>Home\<close>, \<open>Hub\<close>: the data and the handlers of \<open>hub.rs\<close>, in the order of the source.
  \<^item> \<open>Hub_Frame\<close>: what each helper leaves alone, and the effects it adds, in closed form.
  \<^item> \<open>Hub_Sessions\<close>: every watched session has ready watchers and a driver among them.
  \<^item> \<open>Loads\<close>, \<open>Hub_Ids\<close>: the loads of a successor; numbers are fresh and tables hold no number that
    was not handed out.
  \<^item> \<open>Replacement\<close>: the promise about home connections as an abstract protocol of at most one serving
    link and at most one candidate. \<open>Hub_Home\<close>: every handler makes one of its steps and fires
    exactly the halt signals of the links the step drops.
  \<^item> \<open>Hub_Invariant\<close>: the invariants together, no panic, the loop, and what a step of it shows: the
    sessions watched, what happened, the halt signals fired.
  \<^item> \<open>Demo\<close>: a concrete hub at which the properties are exercised.
  \<^item> \<open>Hub_Service\<close>, \<open>Hub_Requests\<close>, \<open>Refusals\<close>, \<open>Hub_Reverse\<close>: the properties of home connections,
    of requests and responses, of what is refused, and of what home sends.
  \<^item> \<open>Hub_Binds\<close>: identities are handed out by announcements alone, once each, and all that the hub
    sends is the text of an object.

  \<^bold>\<open>The server around it.\<close>
  \<^item> \<open>Topside_Config\<close>, \<open>Auth\<close>: \<open>Config::load\<close>, the pinned client certificate, the bearer token.
  \<^item> \<open>Connections\<close>: the loops of one home connection and of one phone.
  \<^item> \<open>Server\<close>: \<open>serve\<close>, the accept loops, the stages of a connection before its loop, the queue, and
    the hub's task, interleaved. \<open>Server_Invariant\<close>: what holds of every state it reaches.
    \<open>Server_Hub\<close>: its steps are steps of the hub's loop on the messages of the queue, and what the hub
    holds of a connection belongs to the task that announced it. \<open>Server_Demo\<close>: a concrete run.
    \<open>Server_Service\<close>: the properties from the wire to the hub and back.
  \<^item> \<open>Entry\<close>: binding the listeners, \<open>run\<close>, and both \<open>main\<close> functions with their exit status.

  \<^bold>\<open>Snorkel.\<close>
  \<^item> \<open>Snorkel_Config\<close>: \<open>Endpoint::parse\<close> and \<open>Config::load\<close>.
  \<^item> \<open>Snorkel\<close>: copying, the outcome of a session, and the link. \<open>Dial\<close>: the dial with its timeouts and
    \<open>Session::establish\<close>. \<open>Link_Report\<close>: what the link reports in the end, and when it stops.
    The context of the link carries the time; a step moves it on by the wait, which never ends before
    \<open>not_before\<close>, and by what the attempt or the session took.

  \<^bold>\<open>Bounds.\<close> Properties that need fresh numbers assume \<open>counters_room\<close>: the counters have room for
  what one event can allocate (one number per target or per watched session). It fails only after
  some \<open>2 ^ 64\<close> events. The random scaling of a delay is constrained by \<open>jitter_ok\<close>: a factor from 0.8
  to 1, and a result off by less than a nanosecond, for the durations the link scales; that is what
  the rounding of \<open>Duration::mul_f64\<close> leaves. There is no fuel: handlers and parsers are total, the loops are relations or
  run over the list of what they observe.

  \<^bold>\<open>What the program does that its caller may not expect\<close> is stated as theorems too: the answer to a
  request of a connection that has been replaced goes to its successor
  (\<open>answer_follows_serving_link\<close>), \<open>session/close\<close> is forwarded for phones that have not initialized
  (\<open>close_forwarded_uninitialized\<close>), a write in the middle of a frame loses what was read of it
  (\<open>write_amid_frame_loses_it\<close>), a token with white space at an end shuts every phone out
  (\<open>token_usable_iff\<close>), port 0 and an IPv6 scope after an address literal are not checked
  (\<open>address_literals_unchecked\<close>), and the bytes of a session that shutdown cuts short are not
  reported (\<open>report_accounts\<close>).

  \<^bold>\<open>Not modelled.\<close> How \<open>clap\<close> parses the command line (its result is the record \<open>cli\<close> and the
  arguments of \<open>snorkel_load\<close>), what is printed and the texts of most errors, the installation of
  the crypto provider, which has no state the program reads, a change of the iteration order of a
  hash set while its elements stay the same (the order is one arbitrary function of the elements in
  the order they came; only the first of a set and the order of messages depend on it), and the inside of \<open>rustls\<close>,
  \<open>tungstenite\<close>, \<open>tokio\<close> and \<open>serde\<close>, of which the definitions take what the code uses as
  parameters or events. A task that waits in a write lets others run but sees nothing itself, so a
  write is part of the turn it belongs to. Tests, release scripts and container files are not part
  of the running program.
\<close>

end
